(* ===== verification/Smpp_Prelude.thy ===== *)
theory Smpp_Prelude
  imports Main "HOL-Library.Word" "HOL-Library.Sublist"
begin

unbundle bit_operations_syntax

text \<open>
  Shared ground of the development: the machine types of the code, its exceptions, the sequencing of
  operations that throw while they mutate a buffer, big-endian words, and the generic lemmas on
  lists and words the components use.

  \<^item> \<open>octet\<close> is both \<open>uint8_t\<close> and \<open>char\<close>; \<open>octets\<close> is both \<open>std::vector<uint8_t>\<close>,
    \<open>std::span<const uint8_t>\<close> and \<open>std::string\<close> (which the code uses as a container of octets).
  \<^item> A C++ function that mutates a buffer through a pointer and may throw returns its outcome (the
    exception or the value) together with the buffer it leaves behind: throwing does not undo
    what was consumed or appended before.
\<close>

type_synonym octet = "8 word"
type_synonym u16 = "16 word"
type_synonym u32 = "32 word"
type_synonym octets = "octet list"

named_theorems enum_values \<open>the enumerators of the code's enums, as underlying values\<close>
named_theorems pdu_defs \<open>field tables, defaults and constructors of the PDUs\<close>
named_theorems rt_intros \<open>introduction rules for the round trip of a field table\<close>
named_theorems yield_intros \<open>introduction rules for what a field table parses to\<close>

subsection \<open>Exceptions\<close>

datatype exn = Length_error string | Runtime_error string | Logic_error string

primrec what :: "exn \<Rightarrow> string" where
  "what (Length_error msg) = msg"
| "what (Runtime_error msg) = msg"
| "what (Logic_error msg) = msg"

type_synonym ('a, 's) outcome = "(exn + 'a) \<times> 's"

fun bind_outcome :: "('a, 's) outcome \<Rightarrow> ('a \<Rightarrow> 's \<Rightarrow> ('b, 's) outcome) \<Rightarrow> ('b, 's) outcome" where
  "bind_outcome (Inl e, s) f = (Inl e, s)"
| "bind_outcome (Inr v, s) f = f v s"

lemma bind_outcome_Inr_iff:
  "bind_outcome m f = (Inr w, t) \<longleftrightarrow> (\<exists>v s. m = (Inr v, s) \<and> f v s = (Inr w, t))"
  by (cases "(m, f)" rule: bind_outcome.cases) auto

lemma bind_outcome_Inl_iff:
  "bind_outcome m f = (Inl e, t) \<longleftrightarrow>
     m = (Inl e, t) \<or> (\<exists>v s. m = (Inr v, s) \<and> f v s = (Inl e, t))"
  by (cases "(m, f)" rule: bind_outcome.cases) auto

subsection \<open>Big-endian words\<close>

definition be_u16 :: "octet \<Rightarrow> octet \<Rightarrow> u16" where
  "be_u16 h l = push_bit 8 (ucast h) OR ucast l"

definition be_u32 :: "octet \<Rightarrow> octet \<Rightarrow> octet \<Rightarrow> octet \<Rightarrow> u32" where
  "be_u32 b0 b1 b2 b3 =
     push_bit 24 (ucast b0) OR push_bit 16 (ucast b1) OR push_bit 8 (ucast b2) OR ucast b3"

definition byte_of :: "nat \<Rightarrow> 'a::len word \<Rightarrow> octet" where
  "byte_of k w = ucast (drop_bit (8 * k) w AND 0xFF)"

lemma word_FF_eq_mask: "(0xFF :: 'a::len word) = mask 8"
  by (simp add: mask_numeral)

lemma bit_byte_of:
  "bit (byte_of k w) n \<longleftrightarrow> n < 8 \<and> bit (w :: 'a::len word) (8 * k + n)"
  by (auto simp: byte_of_def word_FF_eq_mask bit_simps simp del: mask_numeral
      dest: bit_imp_le_length)

lemma bit_octet_beyond [simp]: "8 \<le> n \<Longrightarrow> \<not> bit (b :: octet) n"
  by (auto dest: bit_imp_le_length)

lemma octet_and_FF [simp]: "b AND 0xFF = (b :: octet)"
  by (rule bit_word_eqI) (auto simp: word_FF_eq_mask bit_simps simp del: mask_numeral)

lemma unat_octet_less [simp]: "unat (b :: octet) < 256"
  using unsigned_less [where ?'b = 8 and ?'a = nat, of b] by simp

lemma unat_of_nat_octet: "n < 256 \<Longrightarrow> unat (of_nat n :: octet) = n"
  by (simp add: unat_of_nat)

lemma be_u16_bytes: "be_u16 (byte_of 1 w) (byte_of 0 w) = (w :: u16)"
  by (rule bit_word_eqI) (auto simp: be_u16_def bit_simps bit_byte_of not_le)

lemma byte_of_be_u16 [simp]:
  "byte_of 1 (be_u16 h l) = h" "byte_of (Suc 0) (be_u16 h l) = h" "byte_of 0 (be_u16 h l) = l"
  by (auto intro!: bit_word_eqI simp: be_u16_def bit_simps bit_byte_of dest: bit_imp_le_length)

lemma be_u32_bytes:
  "be_u32 (byte_of 3 w) (byte_of 2 w) (byte_of 1 w) (byte_of 0 w) = (w :: u32)"
proof (rule bit_word_eqI)
  fix n assume n: "n < LENGTH(32)"
  consider "n < 8" | "8 \<le> n" "n < 16" | "16 \<le> n" "n < 24" | "24 \<le> n" "n < 32"
    using n by fastforce
  then show "bit (be_u32 (byte_of 3 w) (byte_of 2 w) (byte_of 1 w) (byte_of 0 w)) n = bit w n"
    by cases (auto simp: be_u32_def bit_simps bit_byte_of)
qed

lemma byte_of_be_u32 [simp]:
  "byte_of 3 (be_u32 b0 b1 b2 b3) = b0" "byte_of 2 (be_u32 b0 b1 b2 b3) = b1"
  "byte_of 1 (be_u32 b0 b1 b2 b3) = b2" "byte_of (Suc 0) (be_u32 b0 b1 b2 b3) = b2"
  "byte_of 0 (be_u32 b0 b1 b2 b3) = b3"
  by (auto intro!: bit_word_eqI simp: be_u32_def bit_simps bit_byte_of dest: bit_imp_le_length)

subsection \<open>Lists\<close>

lemma takeWhile_neq_append [simp]:
  "x \<notin> set xs \<Longrightarrow> takeWhile (\<lambda>y. y \<noteq> x) (xs @ x # ys) = xs"
  "x \<notin> set xs \<Longrightarrow> dropWhile (\<lambda>y. y \<noteq> x) (xs @ x # ys) = x # ys"
  by (induction xs) auto

lemma takeWhile_neq_split:
  assumes "x \<in> set ys"
  shows "ys = takeWhile (\<lambda>y. y \<noteq> x) ys @ x # drop (Suc (length (takeWhile (\<lambda>y. y \<noteq> x) ys))) ys"
  using assms by (induction ys) auto

lemma notin_takeWhile_neq [simp]: "x \<notin> set (takeWhile (\<lambda>y. y \<noteq> x) ys)"
  by (auto dest: set_takeWhileD)

lemma length_takeWhile_less:
  "x \<in> set ys \<Longrightarrow> length (takeWhile (\<lambda>y. y \<noteq> x) ys) < length ys"
  by (induction ys) auto

end
