(* ===== verification/Common_Types.thy ===== *)
theory Common_Types
  imports Smpp_Prelude
begin

text \<open>
  \<open>include/smpp/common\<close>: the command identifiers and statuses of the protocol, and the split of the
  commands into requests and responses.

  An \<open>enum class\<close> with a fixed underlying type holds every value of that type, not only its
  enumerators, and \<open>static_cast\<close> to it keeps the value. Each enum is therefore a one-constructor
  datatype over the underlying word (the constructor and its selector are the two casts), and each
  enumerator is a constant of it. The lemma collection \<open>enum_values\<close> unfolds the enumerators.
\<close>

subsection \<open>command_id.hpp\<close>

datatype command_id = Command_id (command_id_u32: u32)

definition command_id_generic_nack :: command_id where [enum_values]: "command_id_generic_nack = Command_id 0x80000000"
definition command_id_bind_receiver :: command_id where [enum_values]: "command_id_bind_receiver = Command_id 0x00000001"
definition command_id_bind_receiver_resp :: command_id where [enum_values]: "command_id_bind_receiver_resp = Command_id 0x80000001"
definition command_id_bind_transmitter :: command_id where [enum_values]: "command_id_bind_transmitter = Command_id 0x00000002"
definition command_id_bind_transmitter_resp :: command_id where [enum_values]: "command_id_bind_transmitter_resp = Command_id 0x80000002"
definition command_id_query_sm :: command_id where [enum_values]: "command_id_query_sm = Command_id 0x00000003"
definition command_id_query_sm_resp :: command_id where [enum_values]: "command_id_query_sm_resp = Command_id 0x80000003"
definition command_id_submit_sm :: command_id where [enum_values]: "command_id_submit_sm = Command_id 0x00000004"
definition command_id_submit_sm_resp :: command_id where [enum_values]: "command_id_submit_sm_resp = Command_id 0x80000004"
definition command_id_deliver_sm :: command_id where [enum_values]: "command_id_deliver_sm = Command_id 0x00000005"
definition command_id_deliver_sm_resp :: command_id where [enum_values]: "command_id_deliver_sm_resp = Command_id 0x80000005"
definition command_id_unbind :: command_id where [enum_values]: "command_id_unbind = Command_id 0x00000006"
definition command_id_unbind_resp :: command_id where [enum_values]: "command_id_unbind_resp = Command_id 0x80000006"
definition command_id_replace_sm :: command_id where [enum_values]: "command_id_replace_sm = Command_id 0x00000007"
definition command_id_replace_sm_resp :: command_id where [enum_values]: "command_id_replace_sm_resp = Command_id 0x80000007"
definition command_id_cancel_sm :: command_id where [enum_values]: "command_id_cancel_sm = Command_id 0x00000008"
definition command_id_cancel_sm_resp :: command_id where [enum_values]: "command_id_cancel_sm_resp = Command_id 0x80000008"
definition command_id_bind_transceiver :: command_id where [enum_values]: "command_id_bind_transceiver = Command_id 0x00000009"
definition command_id_bind_transceiver_resp :: command_id where [enum_values]: "command_id_bind_transceiver_resp = Command_id 0x80000009"
definition command_id_outbind :: command_id where [enum_values]: "command_id_outbind = Command_id 0x0000000b"
definition command_id_enquire_link :: command_id where [enum_values]: "command_id_enquire_link = Command_id 0x00000015"
definition command_id_enquire_link_resp :: command_id where [enum_values]: "command_id_enquire_link_resp = Command_id 0x80000015"
definition command_id_submit_multi :: command_id where [enum_values]: "command_id_submit_multi = Command_id 0x00000021"
definition command_id_submit_multi_resp :: command_id where [enum_values]: "command_id_submit_multi_resp = Command_id 0x80000021"
definition command_id_alert_notification :: command_id where [enum_values]: "command_id_alert_notification = Command_id 0x00000102"
definition command_id_data_sm :: command_id where [enum_values]: "command_id_data_sm = Command_id 0x00000103"
definition command_id_data_sm_resp :: command_id where [enum_values]: "command_id_data_sm_resp = Command_id 0x80000103"

subsection \<open>command_status.hpp\<close>

datatype command_status = Command_status (command_status_u32: u32)

definition command_status_rok :: command_status where [enum_values]: "command_status_rok = Command_status 0x00000000"
definition command_status_rinvmsglen :: command_status where [enum_values]: "command_status_rinvmsglen = Command_status 0x00000001"
definition command_status_rinvcmdlen :: command_status where [enum_values]: "command_status_rinvcmdlen = Command_status 0x00000002"
definition command_status_rinvcmdid :: command_status where [enum_values]: "command_status_rinvcmdid = Command_status 0x00000003"
definition command_status_rinvbndsts :: command_status where [enum_values]: "command_status_rinvbndsts = Command_status 0x00000004"
definition command_status_ralybnd :: command_status where [enum_values]: "command_status_ralybnd = Command_status 0x00000005"
definition command_status_rinvprtflg :: command_status where [enum_values]: "command_status_rinvprtflg = Command_status 0x00000006"
definition command_status_rinvregdlvflg :: command_status where [enum_values]: "command_status_rinvregdlvflg = Command_status 0x00000007"
definition command_status_rsyserr :: command_status where [enum_values]: "command_status_rsyserr = Command_status 0x00000008"
definition command_status_rinvsrcadr :: command_status where [enum_values]: "command_status_rinvsrcadr = Command_status 0x0000000a"
definition command_status_rinvdstadr :: command_status where [enum_values]: "command_status_rinvdstadr = Command_status 0x0000000b"
definition command_status_rinvmsgid :: command_status where [enum_values]: "command_status_rinvmsgid = Command_status 0x0000000c"
definition command_status_rbindfail :: command_status where [enum_values]: "command_status_rbindfail = Command_status 0x0000000d"
definition command_status_rinvpaswd :: command_status where [enum_values]: "command_status_rinvpaswd = Command_status 0x0000000e"
definition command_status_rinvsysid :: command_status where [enum_values]: "command_status_rinvsysid = Command_status 0x0000000f"
definition command_status_rcancelfail :: command_status where [enum_values]: "command_status_rcancelfail = Command_status 0x00000011"
definition command_status_rreplacefail :: command_status where [enum_values]: "command_status_rreplacefail = Command_status 0x00000013"
definition command_status_rmsgqful :: command_status where [enum_values]: "command_status_rmsgqful = Command_status 0x00000014"
definition command_status_rinvsertyp :: command_status where [enum_values]: "command_status_rinvsertyp = Command_status 0x00000015"
definition command_status_rinvnumdests :: command_status where [enum_values]: "command_status_rinvnumdests = Command_status 0x00000033"
definition command_status_rinvdlname :: command_status where [enum_values]: "command_status_rinvdlname = Command_status 0x00000034"
definition command_status_rinvdestflag :: command_status where [enum_values]: "command_status_rinvdestflag = Command_status 0x00000040"
definition command_status_rinvsubrep :: command_status where [enum_values]: "command_status_rinvsubrep = Command_status 0x00000042"
definition command_status_rinvesmsubmit :: command_status where [enum_values]: "command_status_rinvesmsubmit = Command_status 0x00000043"
definition command_status_rcntsubdl :: command_status where [enum_values]: "command_status_rcntsubdl = Command_status 0x00000044"
definition command_status_rsubmitfail :: command_status where [enum_values]: "command_status_rsubmitfail = Command_status 0x00000045"
definition command_status_rinvsrcton :: command_status where [enum_values]: "command_status_rinvsrcton = Command_status 0x00000048"
definition command_status_rinvsrcnpi :: command_status where [enum_values]: "command_status_rinvsrcnpi = Command_status 0x00000049"
definition command_status_rinvdstton :: command_status where [enum_values]: "command_status_rinvdstton = Command_status 0x00000050"
definition command_status_rinvdstnpi :: command_status where [enum_values]: "command_status_rinvdstnpi = Command_status 0x00000051"
definition command_status_rinvsystyp :: command_status where [enum_values]: "command_status_rinvsystyp = Command_status 0x00000053"
definition command_status_rinvrepflag :: command_status where [enum_values]: "command_status_rinvrepflag = Command_status 0x00000054"
definition command_status_rinvnummsgs :: command_status where [enum_values]: "command_status_rinvnummsgs = Command_status 0x00000055"
definition command_status_rthrottled :: command_status where [enum_values]: "command_status_rthrottled = Command_status 0x00000058"
definition command_status_rinvsched :: command_status where [enum_values]: "command_status_rinvsched = Command_status 0x00000061"
definition command_status_rinvexpiry :: command_status where [enum_values]: "command_status_rinvexpiry = Command_status 0x00000062"
definition command_status_rinvdftmsgid :: command_status where [enum_values]: "command_status_rinvdftmsgid = Command_status 0x00000063"
definition command_status_rx_t_appn :: command_status where [enum_values]: "command_status_rx_t_appn = Command_status 0x00000064"
definition command_status_rx_p_appn :: command_status where [enum_values]: "command_status_rx_p_appn = Command_status 0x00000065"
definition command_status_rx_r_appn :: command_status where [enum_values]: "command_status_rx_r_appn = Command_status 0x00000066"
definition command_status_rqueryfail :: command_status where [enum_values]: "command_status_rqueryfail = Command_status 0x00000067"
definition command_status_rinvoptparstream :: command_status where [enum_values]: "command_status_rinvoptparstream = Command_status 0x000000c0"
definition command_status_roptparnotallwd :: command_status where [enum_values]: "command_status_roptparnotallwd = Command_status 0x000000c1"
definition command_status_rinvparlen :: command_status where [enum_values]: "command_status_rinvparlen = Command_status 0x000000c2"
definition command_status_rmissingoptparam :: command_status where [enum_values]: "command_status_rmissingoptparam = Command_status 0x000000c3"
definition command_status_rinvoptparamval :: command_status where [enum_values]: "command_status_rinvoptparamval = Command_status 0x000000c4"
definition command_status_rdeliveryfailure :: command_status where [enum_values]: "command_status_rdeliveryfailure = Command_status 0x000000fe"
definition command_status_runknownerr :: command_status where [enum_values]: "command_status_runknownerr = Command_status 0x000000ff"
definition command_status_rinvseqnum :: command_status where [enum_values]: "command_status_rinvseqnum = Command_status 0x00000400"
definition command_status_rtimeout :: command_status where [enum_values]: "command_status_rtimeout = Command_status 0x00000401"
definition command_status_src_esme_not_bound :: command_status where [enum_values]: "command_status_src_esme_not_bound = Command_status 0x00000402"
definition command_status_dst_esme_not_bound :: command_status where [enum_values]: "command_status_dst_esme_not_bound = Command_status 0x00000403"
definition command_status_max_try_count :: command_status where [enum_values]: "command_status_max_try_count = Command_status 0x00000404"
definition command_status_src_has_no_credit :: command_status where [enum_values]: "command_status_src_has_no_credit = Command_status 0x00000405"
definition command_status_dst_has_no_credit :: command_status where [enum_values]: "command_status_dst_has_no_credit = Command_status 0x00000406"
definition command_status_src_in_black_list :: command_status where [enum_values]: "command_status_src_in_black_list = Command_status 0x00000407"
definition command_status_dst_in_black_list :: command_status where [enum_values]: "command_status_dst_in_black_list = Command_status 0x00000408"
definition command_status_src_not_in_white_list :: command_status where [enum_values]: "command_status_src_not_in_white_list = Command_status 0x00000409"
definition command_status_dst_not_in_white_list :: command_status where [enum_values]: "command_status_dst_not_in_white_list = Command_status 0x0000040a"
definition command_status_rinvip :: command_status where [enum_values]: "command_status_rinvip = Command_status 0x0000040b"

subsection \<open>is_response.hpp, request_pdu.hpp and response_pdu.hpp\<close>

definition is_response :: "command_id \<Rightarrow> bool" where
  "is_response command_id \<longleftrightarrow> command_id_u32 command_id AND 0x80000000 \<noteq> 0"

definition request_pdu :: "command_id \<Rightarrow> bool" where
  "request_pdu command_id \<longleftrightarrow> \<not> is_response command_id"

definition response_pdu :: "command_id \<Rightarrow> bool" where
  "response_pdu command_id \<longleftrightarrow> is_response command_id"

end
