(* ===== verification/Serialization.thy ===== *)
theory Serialization
  imports Smpp_Prelude
begin

text \<open>
  \<open>include/smpp/common/serialization.hpp\<close>: the field representations (\<open>enum_u8\<close>, \<open>enum_flag\<close>,
  \<open>u8\<close>, \<open>smart\<close>, \<open>c_octet_str<MAXLEN>\<close>, \<open>u8_octet_str<MAXLEN>\<close>), the member wrappers, the
  \<open>pdu_meta\<close> tuples and the two generic functions \<open>serialize_to\<close> and \<open>deserialize\<close> that fold over
  such a tuple.

  A representation \<open>R\<close> with its two static templates is a \<open>codec\<close>. A \<open>pdu_meta\<close> tuple is a value of
  type \<open>('s, 'c, 'r) pdu_meta\<close>: it serializes the members of an \<open>'s\<close>, and it deserializes into
  an aggregate initialisation \<open>'c\<close>, the positional constructor that still waits for the members of
  the tuple and yields an \<open>'r\<close> (\<open>PDU{ deserialize(&buf)... }\<close> evaluates left to right and passes
  the values by position, not by the member pointers).

  The locales state what the rest of the development uses of a representation:
  \<open>codec_law\<close> (serialization and its limit, decoding of what was encoded, decoding consumes a prefix),
  \<open>field_codec\<close> (the fields whose end does not depend on what follows, and which leave the buffer
  alone when they throw) and \<open>canonical_codec\<close> (re-encoding a decoded value gives the octets back).
\<close>

subsection \<open>Field representations\<close>

record 't codec =
  deserialize_field :: "octets \<Rightarrow> string \<Rightarrow> ('t, octets) outcome"
  serialize_field :: "octets \<Rightarrow> 't \<Rightarrow> string \<Rightarrow> (unit, octets) outcome"

definition enum_u8_deserialize :: "(octet \<Rightarrow> 't) \<Rightarrow> octets \<Rightarrow> string \<Rightarrow> ('t, octets) outcome" where
  "enum_u8_deserialize cast_to buf name =
     (case buf of
        [] \<Rightarrow> (Inl (Length_error (''buf size should be at least 1, field_name:'' @ name)), buf)
      | b # rest \<Rightarrow> (Inr (cast_to b), rest))"

definition enum_u8_serialize_to :: "('t \<Rightarrow> octet) \<Rightarrow> octets \<Rightarrow> 't \<Rightarrow> string \<Rightarrow> (unit, octets) outcome" where
  "enum_u8_serialize_to cast_from vec val name = (Inr (), vec @ [cast_from val])"

definition enum_u8 :: "(octet \<Rightarrow> 't) \<Rightarrow> ('t \<Rightarrow> octet) \<Rightarrow> 't codec" where
  "enum_u8 cast_to cast_from =
     \<lparr>deserialize_field = enum_u8_deserialize cast_to,
      serialize_field = enum_u8_serialize_to cast_from\<rparr>"

definition enum_flag_deserialize :: "(octet \<Rightarrow> 't) \<Rightarrow> octets \<Rightarrow> string \<Rightarrow> ('t, octets) outcome" where
  "enum_flag_deserialize from_u8 buf name =
     (case buf of
        [] \<Rightarrow> (Inl (Length_error (''buf size should be at least 1, field_name:'' @ name)), buf)
      | b # rest \<Rightarrow> (Inr (from_u8 b), rest))"

definition enum_flag_serialize_to :: "('t \<Rightarrow> octet) \<Rightarrow> octets \<Rightarrow> 't \<Rightarrow> string \<Rightarrow> (unit, octets) outcome" where
  "enum_flag_serialize_to operator_u8 vec val name = (Inr (), vec @ [operator_u8 val])"

definition enum_flag :: "(octet \<Rightarrow> 't) \<Rightarrow> ('t \<Rightarrow> octet) \<Rightarrow> 't codec" where
  "enum_flag from_u8 operator_u8 =
     \<lparr>deserialize_field = enum_flag_deserialize from_u8,
      serialize_field = enum_flag_serialize_to operator_u8\<rparr>"

definition u8_deserialize :: "octets \<Rightarrow> string \<Rightarrow> (octet, octets) outcome" where
  "u8_deserialize buf name =
     (case buf of
        [] \<Rightarrow> (Inl (Length_error (''buf size should be at least 1, field_name:'' @ name)), buf)
      | b # rest \<Rightarrow> (Inr b, rest))"

definition u8_serialize_to :: "octets \<Rightarrow> octet \<Rightarrow> string \<Rightarrow> (unit, octets) outcome" where
  "u8_serialize_to vec val name = (Inr (), vec @ [val])"

definition u8 :: "octet codec" where
  "u8 = \<lparr>deserialize_field = u8_deserialize, serialize_field = u8_serialize_to\<rparr>"

text \<open>\<open>smart\<close> forwards to the class: a constructor from the buffer and a member \<open>serialize\<close>.\<close>

definition smart :: "(octets \<Rightarrow> ('t, octets) outcome) \<Rightarrow> ('t \<Rightarrow> octets \<Rightarrow> octets) \<Rightarrow> 't codec" where
  "smart construct serialize =
     \<lparr>deserialize_field = (\<lambda>buf name. construct buf),
      serialize_field = (\<lambda>vec val name. (Inr (), serialize val vec))\<rparr>"

definition c_octet_str_deserialize :: "nat \<Rightarrow> octets \<Rightarrow> string \<Rightarrow> (octets, octets) outcome" where
  "c_octet_str_deserialize MAXLEN buf name =
     (if 0 \<notin> set buf
      then (Inl (Length_error (''c_octet_str can't find null character, field_name:'' @ name)), buf)
      else let str = takeWhile (\<lambda>b. b \<noteq> 0) buf in
        if MAXLEN \<le> length str
        then (Inl (Length_error (''c_octet_str exceed its limit, field_name:'' @ name)), buf)
        else (Inr str, drop (length str + 1) buf))"

definition c_octet_str_serialize_to :: "nat \<Rightarrow> octets \<Rightarrow> octets \<Rightarrow> string \<Rightarrow> (unit, octets) outcome" where
  "c_octet_str_serialize_to MAXLEN vec val name =
     (if MAXLEN \<le> length val
      then (Inl (Length_error (''c_octet_str exceed its limit, field_name:'' @ name)), vec)
      else (Inr (), vec @ val @ [0]))"

definition c_octet_str :: "nat \<Rightarrow> octets codec" where
  "c_octet_str MAXLEN =
     \<lparr>deserialize_field = c_octet_str_deserialize MAXLEN,
      serialize_field = c_octet_str_serialize_to MAXLEN\<rparr>"

definition u8_octet_str_deserialize :: "nat \<Rightarrow> octets \<Rightarrow> string \<Rightarrow> (octets, octets) outcome" where
  "u8_octet_str_deserialize MAXLEN buf name =
     (case buf of
        [] \<Rightarrow> (Inl (Length_error (''buf size should be at least 1, field_name:'' @ name)), buf)
      | b # body \<Rightarrow>
          let len = unat b in
          if length buf \<le> len
          then (Inl (Length_error
                  (''octet_str buf is smaller than its length field, field_name:'' @ name)), buf)
          else let str = take len body in
            if MAXLEN < length str
            then (Inl (Length_error (''octet_str exceed its limit, field_name:'' @ name)), buf)
            else (Inr str, drop (length str) body))"

definition u8_octet_str_serialize_to :: "nat \<Rightarrow> octets \<Rightarrow> octets \<Rightarrow> string \<Rightarrow> (unit, octets) outcome" where
  "u8_octet_str_serialize_to MAXLEN vec val name =
     (if MAXLEN < length val
      then (Inl (Length_error (''octet_str exceed its limit, field_name:'' @ name)), vec)
      else (Inr (), (vec @ [of_nat (length val)]) @ val))"

definition u8_octet_str :: "nat \<Rightarrow> octets codec" where
  "u8_octet_str MAXLEN =
     \<lparr>deserialize_field = u8_octet_str_deserialize MAXLEN,
      serialize_field = u8_octet_str_serialize_to MAXLEN\<rparr>"

lemmas codec_defs =
  enum_u8_def enum_u8_deserialize_def enum_u8_serialize_to_def
  enum_flag_def enum_flag_deserialize_def enum_flag_serialize_to_def
  u8_def u8_deserialize_def u8_serialize_to_def smart_def
  c_octet_str_def c_octet_str_deserialize_def c_octet_str_serialize_to_def
  u8_octet_str_def u8_octet_str_deserialize_def u8_octet_str_serialize_to_def

subsection \<open>Members, tuples of members and the two folds\<close>

record ('s, 't) mem_wrapper =
  ptr :: "'s \<Rightarrow> 't"
  name :: string
  rep :: "'t codec"

definition mem :: "'t codec \<Rightarrow> ('s \<Rightarrow> 't) \<Rightarrow> string \<Rightarrow> ('s, 't) mem_wrapper" where
  "mem R p n = \<lparr>ptr = p, name = n, rep = R\<rparr>"

definition mem_deserialize :: "('s, 't) mem_wrapper \<Rightarrow> octets \<Rightarrow> ('t, octets) outcome" where
  "mem_deserialize w buf = deserialize_field (rep w) buf (name w)"

definition mem_serialize_to :: "('s, 't) mem_wrapper \<Rightarrow> octets \<Rightarrow> 's \<Rightarrow> (unit, octets) outcome" where
  "mem_serialize_to w vec obj = serialize_field (rep w) vec (ptr w obj) (name w)"

record ('s, 'c, 'r) pdu_meta =
  meta_deserialize :: "'c \<Rightarrow> octets \<Rightarrow> ('r, octets) outcome"
  meta_serialize :: "octets \<Rightarrow> 's \<Rightarrow> (unit, octets) outcome"

definition tuple_nil :: "('s, 'r, 'r) pdu_meta" where
  "tuple_nil = \<lparr>meta_deserialize = (\<lambda>init buf. (Inr init, buf)),
                meta_serialize = (\<lambda>vec obj. (Inr (), vec))\<rparr>"

definition tuple_cons ::
    "('s, 't) mem_wrapper \<Rightarrow> ('s, 'c, 'r) pdu_meta \<Rightarrow> ('s, 't \<Rightarrow> 'c, 'r) pdu_meta" where
  "tuple_cons w ws =
     \<lparr>meta_deserialize = (\<lambda>init buf.
        bind_outcome (mem_deserialize w buf) (\<lambda>v buf. meta_deserialize ws (init v) buf)),
      meta_serialize = (\<lambda>vec obj.
        bind_outcome (mem_serialize_to w vec obj) (\<lambda>_ vec. meta_serialize ws vec obj))\<rparr>"

definition serialize_to :: "('s, 'c, 's) pdu_meta \<Rightarrow> octets \<Rightarrow> 's \<Rightarrow> (unit, octets) outcome" where
  "serialize_to meta vec pdu = meta_serialize meta vec pdu"

definition deserialize :: "('s, 'c, 's) pdu_meta \<Rightarrow> 'c \<Rightarrow> 's \<Rightarrow> octets \<Rightarrow> exn + 's" where
  "deserialize meta aggregate pdu_default buf =
     (if buf = [] then Inr pdu_default else fst (meta_deserialize meta aggregate buf))"

subsection \<open>What a representation promises\<close>

text \<open>
  \<open>round_trips meta obj init r stop bs\<close>: serializing \<open>obj\<close> appends \<open>bs\<close> and nothing else, and
  deserializing \<open>bs\<close> in front of a rest that satisfies \<open>stop\<close> yields \<open>r\<close> and leaves that rest.
\<close>

definition round_trips ::
    "('s, 'c, 'r) pdu_meta \<Rightarrow> 's \<Rightarrow> 'c \<Rightarrow> 'r \<Rightarrow> (octets \<Rightarrow> bool) \<Rightarrow> octets \<Rightarrow> bool" where
  "round_trips meta obj init r stop bs \<longleftrightarrow>
     (\<forall>vec. meta_serialize meta vec obj = (Inr (), vec @ bs)) \<and>
     (\<forall>rest. stop rest \<longrightarrow> meta_deserialize meta init (bs @ rest) = (Inr r, rest))"

text \<open>Deserializing a tuple leaves a suffix of its buffer, whether it throws or not.\<close>

definition consumes_prefix :: "('s, 'c, 'r) pdu_meta \<Rightarrow> bool" where
  "consumes_prefix meta \<longleftrightarrow>
     (\<forall>init buf. suffix (snd (meta_deserialize meta init buf)) buf)"

text \<open>Serializing only ever appends, whether it throws or not.\<close>

definition appends :: "('s, 'c, 'r) pdu_meta \<Rightarrow> bool" where
  "appends meta \<longleftrightarrow> (\<forall>vec obj. prefix vec (snd (meta_serialize meta vec obj)))"

text \<open>Whatever a tuple deserializes to satisfies \<open>Q\<close>.\<close>

definition yields :: "('s, 'c, 'r) pdu_meta \<Rightarrow> 'c \<Rightarrow> ('r \<Rightarrow> bool) \<Rightarrow> bool" where
  "yields meta init Q \<longleftrightarrow>
     (\<forall>buf r rest. meta_deserialize meta init buf = (Inr r, rest) \<longrightarrow> Q r)"

lemma yields_nil [yield_intros]: "Q init \<Longrightarrow> yields tuple_nil init Q"
  by (simp add: yields_def tuple_nil_def)

lemma appends_nil [simp]: "appends tuple_nil"
  by (simp add: appends_def tuple_nil_def)

lemma rt_nil [rt_intros]: "r = init \<Longrightarrow> round_trips tuple_nil obj init r stop []"
  by (simp add: round_trips_def tuple_nil_def)

lemma consumes_prefix_nil [simp]: "consumes_prefix tuple_nil"
  by (simp add: consumes_prefix_def tuple_nil_def)

locale codec_law =
  fixes R :: "'t codec"
    and enc :: "'t \<Rightarrow> octets"
    and fits :: "'t \<Rightarrow> bool"
    and faithful :: "'t \<Rightarrow> bool"
    and over :: "string \<Rightarrow> exn"
    and stop :: "octets \<Rightarrow> bool"
  assumes serialize_eq: "serialize_field R vec v nm =
      (if fits v then (Inr (), vec @ enc v) else (Inl (over nm), vec))"
    and faithful_fits: "faithful v \<Longrightarrow> fits v"
    and decode_encoded: "faithful v \<Longrightarrow> stop rest \<Longrightarrow>
      deserialize_field R (enc v @ rest) nm = (Inr v, rest)"
    and decode_suffix: "suffix (snd (deserialize_field R buf nm)) buf"
    and decode_faithful: "deserialize_field R buf nm = (Inr v, rest) \<Longrightarrow> faithful v"
begin

lemma serialize_member:
  "meta_serialize (tuple_cons (mem R p nm) ws) vec obj =
     (if fits (p obj) then meta_serialize ws (vec @ enc (p obj)) obj else (Inl (over nm), vec))"
  by (simp add: tuple_cons_def mem_def mem_serialize_to_def serialize_eq)

lemma appends_member [simp]: "appends ws \<Longrightarrow> appends (tuple_cons (mem R p nm) ws)"
  by (auto simp: appends_def serialize_member intro: append_prefixD)

lemma deserialize_member:
  "faithful (p obj) \<Longrightarrow> stop rest \<Longrightarrow>
     meta_deserialize (tuple_cons (mem R p nm) ws) init (enc (p obj) @ rest) =
     meta_deserialize ws (init (p obj)) rest"
  by (simp add: tuple_cons_def mem_def mem_deserialize_def decode_encoded)

lemma rt_member:
  assumes "faithful (p obj)" "round_trips ws obj (init (p obj)) r S bs"
    and "\<And>rest. S rest \<Longrightarrow> stop (bs @ rest)"
  shows "round_trips (tuple_cons (mem R p nm) ws) obj init r S (enc (p obj) @ bs)"
  using assms by (simp add: round_trips_def serialize_member faithful_fits deserialize_member)

lemma yields_member [yield_intros]:
  "(\<And>v. faithful v \<Longrightarrow> yields ws (init v) Q) \<Longrightarrow> yields (tuple_cons (mem R p nm) ws) init Q"
  by (auto simp: yields_def tuple_cons_def mem_def mem_deserialize_def bind_outcome_Inr_iff
      dest: decode_faithful)

lemma consumes_prefix_member [simp]:
  "consumes_prefix ws \<Longrightarrow> consumes_prefix (tuple_cons (mem R p nm) ws)"
proof -
  assume ws: "consumes_prefix ws"
  have "suffix (snd (meta_deserialize (tuple_cons (mem R p nm) ws) init buf)) buf" for init buf
  proof (cases "deserialize_field R buf nm")
    case (Pair o' buf')
    then have "suffix buf' buf" using decode_suffix [of buf nm] by simp
    moreover have "suffix (snd (meta_deserialize ws i buf')) buf'" for i
      using ws by (simp add: consumes_prefix_def)
    ultimately show ?thesis
      using Pair by (cases o') (auto simp: tuple_cons_def mem_def mem_deserialize_def
          intro: suffix_order.trans)
  qed
  then show ?thesis by (simp add: consumes_prefix_def)
qed

end

locale field_codec = codec_law R enc fits faithful over "\<lambda>_. True"
  for R :: "'t codec" and enc fits faithful over +
  assumes encoded_nonempty: "enc v \<noteq> []"
    and throw_keeps_buffer: "deserialize_field R buf nm = (Inl e, buf') \<Longrightarrow> buf' = buf"
    and decode_progress: "deserialize_field R buf nm = (Inr v, buf') \<Longrightarrow> length buf' < length buf"
begin

lemma rt_field [rt_intros]:
  "round_trips ws obj (init (p obj)) r S bs \<Longrightarrow> faithful (p obj) \<Longrightarrow>
     round_trips (tuple_cons (mem R p nm) ws) obj init r S (enc (p obj) @ bs)"
  by (rule rt_member) simp_all

lemma decode_splits:
  assumes "deserialize_field R buf nm = (Inr v, buf')"
  shows "\<exists>used. used \<noteq> [] \<and> buf = used @ buf'"
proof -
  have "suffix buf' buf" using decode_suffix [of buf nm] assms by simp
  then obtain used where "buf = used @ buf'" by (auto simp: suffix_def)
  with decode_progress [OF assms] show ?thesis by auto
qed

end

locale canonical_codec = field_codec +
  assumes decode_canonical: "deserialize_field R buf nm = (Inr v, buf') \<Longrightarrow>
      faithful v \<and> buf = enc v @ buf'"
begin

text \<open>On such a field, deserializing and serializing are inverse to each other.\<close>

lemma decode_iff:
  "deserialize_field R buf nm = (Inr v, buf') \<longleftrightarrow> faithful v \<and> buf = enc v @ buf'"
  using decode_canonical decode_encoded by blast

lemma reencode:
  "deserialize_field R buf nm = (Inr v, []) \<Longrightarrow> serialize_field R vec v nm' = (Inr (), vec @ buf)"
  using decode_canonical faithful_fits by (fastforce simp: serialize_eq)

end

end
