(* ===== verification/Param_Enums.thy ===== *)
theory Param_Enums
  imports Smpp_Prelude
begin

text \<open>
  \<open>include/smpp/param\<close>: the enums of the PDU fields, each the type of all values of its underlying
  integer with the enumerators as constants (as in \<open>Common_Types\<close>). Several enumerators of
  \<open>priority_flag\<close> share a value, as in the code. \<open>oparam_tag\<close> is the key type of a \<open>std::map\<close>, whose
  order is \<open>std::less\<close> on the enum: the order of the underlying integers.
\<close>

subsection \<open>ton.hpp\<close>

datatype ton = Ton (ton_u8: octet)

definition ton_unknown :: ton where [enum_values]: "ton_unknown = Ton 0x00"
definition ton_international :: ton where [enum_values]: "ton_international = Ton 0x01"
definition ton_national :: ton where [enum_values]: "ton_national = Ton 0x02"
definition ton_networkspecific :: ton where [enum_values]: "ton_networkspecific = Ton 0x03"
definition ton_subscribernumber :: ton where [enum_values]: "ton_subscribernumber = Ton 0x04"
definition ton_alphanumeric :: ton where [enum_values]: "ton_alphanumeric = Ton 0x05"
definition ton_abbreviated :: ton where [enum_values]: "ton_abbreviated = Ton 0x06"

subsection \<open>npi.hpp\<close>

datatype npi = Npi (npi_u8: octet)

definition npi_unknown :: npi where [enum_values]: "npi_unknown = Npi 0x00"
definition npi_e164 :: npi where [enum_values]: "npi_e164 = Npi 0x01"
definition npi_data :: npi where [enum_values]: "npi_data = Npi 0x03"
definition npi_telex :: npi where [enum_values]: "npi_telex = Npi 0x04"
definition npi_e212 :: npi where [enum_values]: "npi_e212 = Npi 0x06"
definition npi_national :: npi where [enum_values]: "npi_national = Npi 0x08"
definition npi_privates :: npi where [enum_values]: "npi_privates = Npi 0x09"
definition npi_ermes :: npi where [enum_values]: "npi_ermes = Npi 0x0a"
definition npi_internet :: npi where [enum_values]: "npi_internet = Npi 0x0e"
definition npi_wapclient :: npi where [enum_values]: "npi_wapclient = Npi 0x12"

subsection \<open>interface_version.hpp\<close>

datatype interface_version = Interface_version (interface_version_u8: octet)

definition interface_version_smpp_3_4 :: interface_version where [enum_values]: "interface_version_smpp_3_4 = Interface_version 0x34"

subsection \<open>data_coding.hpp\<close>

datatype data_coding = Data_coding (data_coding_u8: octet)

definition data_coding_defaults :: data_coding where [enum_values]: "data_coding_defaults = Data_coding 0x00"
definition data_coding_ia5 :: data_coding where [enum_values]: "data_coding_ia5 = Data_coding 0x01"
definition data_coding_binary_alias :: data_coding where [enum_values]: "data_coding_binary_alias = Data_coding 0x02"
definition data_coding_iso8859_1 :: data_coding where [enum_values]: "data_coding_iso8859_1 = Data_coding 0x03"
definition data_coding_binary :: data_coding where [enum_values]: "data_coding_binary = Data_coding 0x04"
definition data_coding_jis :: data_coding where [enum_values]: "data_coding_jis = Data_coding 0x05"
definition data_coding_iso8859_5 :: data_coding where [enum_values]: "data_coding_iso8859_5 = Data_coding 0x06"
definition data_coding_iso8859_8 :: data_coding where [enum_values]: "data_coding_iso8859_8 = Data_coding 0x07"
definition data_coding_ucs2 :: data_coding where [enum_values]: "data_coding_ucs2 = Data_coding 0x08"
definition data_coding_pictogram :: data_coding where [enum_values]: "data_coding_pictogram = Data_coding 0x09"
definition data_coding_iso2022_jp :: data_coding where [enum_values]: "data_coding_iso2022_jp = Data_coding 0x0a"
definition data_coding_kanji :: data_coding where [enum_values]: "data_coding_kanji = Data_coding 0x0d"
definition data_coding_ksc5601 :: data_coding where [enum_values]: "data_coding_ksc5601 = Data_coding 0x0e"

subsection \<open>priority_flag.hpp\<close>

datatype priority_flag = Priority_flag (priority_flag_u8: octet)

definition priority_flag_gsm_non_priority :: priority_flag where [enum_values]: "priority_flag_gsm_non_priority = Priority_flag 0x00"
definition priority_flag_gsm_priority :: priority_flag where [enum_values]: "priority_flag_gsm_priority = Priority_flag 0x01"
definition priority_flag_ansi_136_bulk :: priority_flag where [enum_values]: "priority_flag_ansi_136_bulk = Priority_flag 0x00"
definition priority_flag_ansi_136_normal :: priority_flag where [enum_values]: "priority_flag_ansi_136_normal = Priority_flag 0x01"
definition priority_flag_ansi_136_urgent :: priority_flag where [enum_values]: "priority_flag_ansi_136_urgent = Priority_flag 0x02"
definition priority_flag_ansi_136_very_urgent :: priority_flag where [enum_values]: "priority_flag_ansi_136_very_urgent = Priority_flag 0x03"
definition priority_flag_is_95_normal :: priority_flag where [enum_values]: "priority_flag_is_95_normal = Priority_flag 0x00"
definition priority_flag_is_95_interactive :: priority_flag where [enum_values]: "priority_flag_is_95_interactive = Priority_flag 0x01"
definition priority_flag_is_95_urgent :: priority_flag where [enum_values]: "priority_flag_is_95_urgent = Priority_flag 0x02"
definition priority_flag_is_95_emergency :: priority_flag where [enum_values]: "priority_flag_is_95_emergency = Priority_flag 0x03"

subsection \<open>replace_if_present_flag.hpp\<close>

datatype replace_if_present_flag = Replace_if_present_flag (replace_if_present_flag_u8: octet)

definition replace_if_present_flag_no :: replace_if_present_flag where [enum_values]: "replace_if_present_flag_no = Replace_if_present_flag 0x00"
definition replace_if_present_flag_yes :: replace_if_present_flag where [enum_values]: "replace_if_present_flag_yes = Replace_if_present_flag 0x01"

subsection \<open>message_state.hpp\<close>

datatype message_state = Message_state (message_state_u8: octet)

definition message_state_enroute :: message_state where [enum_values]: "message_state_enroute = Message_state 0x01"
definition message_state_delivered :: message_state where [enum_values]: "message_state_delivered = Message_state 0x02"
definition message_state_expired :: message_state where [enum_values]: "message_state_expired = Message_state 0x03"
definition message_state_deleted :: message_state where [enum_values]: "message_state_deleted = Message_state 0x04"
definition message_state_undeliverable :: message_state where [enum_values]: "message_state_undeliverable = Message_state 0x05"
definition message_state_accepted :: message_state where [enum_values]: "message_state_accepted = Message_state 0x06"
definition message_state_unknown :: message_state where [enum_values]: "message_state_unknown = Message_state 0x07"
definition message_state_rejected :: message_state where [enum_values]: "message_state_rejected = Message_state 0x08"

subsection \<open>oparam_tag.hpp\<close>

datatype oparam_tag = Oparam_tag (oparam_tag_u16: u16)

definition oparam_tag_na :: oparam_tag where [enum_values]: "oparam_tag_na = Oparam_tag 0x0000"
definition oparam_tag_dest_addr_subunit :: oparam_tag where [enum_values]: "oparam_tag_dest_addr_subunit = Oparam_tag 0x0005"
definition oparam_tag_dest_network_type :: oparam_tag where [enum_values]: "oparam_tag_dest_network_type = Oparam_tag 0x0006"
definition oparam_tag_dest_bearer_type :: oparam_tag where [enum_values]: "oparam_tag_dest_bearer_type = Oparam_tag 0x0007"
definition oparam_tag_dest_telematics_id :: oparam_tag where [enum_values]: "oparam_tag_dest_telematics_id = Oparam_tag 0x0008"
definition oparam_tag_source_addr_subunit :: oparam_tag where [enum_values]: "oparam_tag_source_addr_subunit = Oparam_tag 0x000d"
definition oparam_tag_source_network_type :: oparam_tag where [enum_values]: "oparam_tag_source_network_type = Oparam_tag 0x000e"
definition oparam_tag_source_bearer_type :: oparam_tag where [enum_values]: "oparam_tag_source_bearer_type = Oparam_tag 0x000f"
definition oparam_tag_source_telematics_id :: oparam_tag where [enum_values]: "oparam_tag_source_telematics_id = Oparam_tag 0x0010"
definition oparam_tag_qos_time_to_live :: oparam_tag where [enum_values]: "oparam_tag_qos_time_to_live = Oparam_tag 0x0017"
definition oparam_tag_payload_type :: oparam_tag where [enum_values]: "oparam_tag_payload_type = Oparam_tag 0x0019"
definition oparam_tag_additional_status_info_text :: oparam_tag where [enum_values]: "oparam_tag_additional_status_info_text = Oparam_tag 0x001d"
definition oparam_tag_receipted_message_id :: oparam_tag where [enum_values]: "oparam_tag_receipted_message_id = Oparam_tag 0x001e"
definition oparam_tag_ms_msg_wait_facilities :: oparam_tag where [enum_values]: "oparam_tag_ms_msg_wait_facilities = Oparam_tag 0x0030"
definition oparam_tag_privacy_indicator :: oparam_tag where [enum_values]: "oparam_tag_privacy_indicator = Oparam_tag 0x0201"
definition oparam_tag_source_subaddress :: oparam_tag where [enum_values]: "oparam_tag_source_subaddress = Oparam_tag 0x0202"
definition oparam_tag_dest_subaddress :: oparam_tag where [enum_values]: "oparam_tag_dest_subaddress = Oparam_tag 0x0203"
definition oparam_tag_user_message_reference :: oparam_tag where [enum_values]: "oparam_tag_user_message_reference = Oparam_tag 0x0204"
definition oparam_tag_user_response_code :: oparam_tag where [enum_values]: "oparam_tag_user_response_code = Oparam_tag 0x0205"
definition oparam_tag_source_port :: oparam_tag where [enum_values]: "oparam_tag_source_port = Oparam_tag 0x020a"
definition oparam_tag_destination_port :: oparam_tag where [enum_values]: "oparam_tag_destination_port = Oparam_tag 0x020b"
definition oparam_tag_sar_msg_ref_num :: oparam_tag where [enum_values]: "oparam_tag_sar_msg_ref_num = Oparam_tag 0x020c"
definition oparam_tag_language_indicator :: oparam_tag where [enum_values]: "oparam_tag_language_indicator = Oparam_tag 0x020d"
definition oparam_tag_sar_total_segments :: oparam_tag where [enum_values]: "oparam_tag_sar_total_segments = Oparam_tag 0x020e"
definition oparam_tag_sar_segment_seqnum :: oparam_tag where [enum_values]: "oparam_tag_sar_segment_seqnum = Oparam_tag 0x020f"
definition oparam_tag_sc_interface_version :: oparam_tag where [enum_values]: "oparam_tag_sc_interface_version = Oparam_tag 0x0210"
definition oparam_tag_callback_num_pres_ind :: oparam_tag where [enum_values]: "oparam_tag_callback_num_pres_ind = Oparam_tag 0x0302"
definition oparam_tag_callback_num_atag :: oparam_tag where [enum_values]: "oparam_tag_callback_num_atag = Oparam_tag 0x0303"
definition oparam_tag_number_of_messages :: oparam_tag where [enum_values]: "oparam_tag_number_of_messages = Oparam_tag 0x0304"
definition oparam_tag_callback_num :: oparam_tag where [enum_values]: "oparam_tag_callback_num = Oparam_tag 0x0381"
definition oparam_tag_dpf_result :: oparam_tag where [enum_values]: "oparam_tag_dpf_result = Oparam_tag 0x0420"
definition oparam_tag_set_dpf :: oparam_tag where [enum_values]: "oparam_tag_set_dpf = Oparam_tag 0x0421"
definition oparam_tag_ms_availability_status :: oparam_tag where [enum_values]: "oparam_tag_ms_availability_status = Oparam_tag 0x0422"
definition oparam_tag_network_error_code :: oparam_tag where [enum_values]: "oparam_tag_network_error_code = Oparam_tag 0x0423"
definition oparam_tag_message_payload :: oparam_tag where [enum_values]: "oparam_tag_message_payload = Oparam_tag 0x0424"
definition oparam_tag_delivery_failure_reason :: oparam_tag where [enum_values]: "oparam_tag_delivery_failure_reason = Oparam_tag 0x0425"
definition oparam_tag_more_messages_to_send :: oparam_tag where [enum_values]: "oparam_tag_more_messages_to_send = Oparam_tag 0x0426"
definition oparam_tag_message_state :: oparam_tag where [enum_values]: "oparam_tag_message_state = Oparam_tag 0x0427"
definition oparam_tag_ussd_service_op :: oparam_tag where [enum_values]: "oparam_tag_ussd_service_op = Oparam_tag 0x0501"
definition oparam_tag_display_time :: oparam_tag where [enum_values]: "oparam_tag_display_time = Oparam_tag 0x1201"
definition oparam_tag_sms_signal :: oparam_tag where [enum_values]: "oparam_tag_sms_signal = Oparam_tag 0x1203"
definition oparam_tag_ms_validity :: oparam_tag where [enum_values]: "oparam_tag_ms_validity = Oparam_tag 0x1204"
definition oparam_tag_alert_on_message_delivery :: oparam_tag where [enum_values]: "oparam_tag_alert_on_message_delivery = Oparam_tag 0x130c"
definition oparam_tag_its_reply_type :: oparam_tag where [enum_values]: "oparam_tag_its_reply_type = Oparam_tag 0x1380"
definition oparam_tag_its_session_info :: oparam_tag where [enum_values]: "oparam_tag_its_session_info = Oparam_tag 0x1383"

subsection \<open>esm_class.hpp\<close>

datatype messaging_mode = Messaging_mode (messaging_mode_u8: octet)

definition messaging_mode_defaults :: messaging_mode where [enum_values]: "messaging_mode_defaults = Messaging_mode 0x00"
definition messaging_mode_datagram :: messaging_mode where [enum_values]: "messaging_mode_datagram = Messaging_mode 0x01"
definition messaging_mode_forward :: messaging_mode where [enum_values]: "messaging_mode_forward = Messaging_mode 0x02"
definition messaging_mode_store_and_forward :: messaging_mode where [enum_values]: "messaging_mode_store_and_forward = Messaging_mode 0x03"

datatype message_type = Message_type (message_type_u8: octet)

definition message_type_defaults :: message_type where [enum_values]: "message_type_defaults = Message_type 0x00"
definition message_type_delivery_receipt :: message_type where [enum_values]: "message_type_delivery_receipt = Message_type 0x04"
definition message_type_delivery_ack :: message_type where [enum_values]: "message_type_delivery_ack = Message_type 0x08"
definition message_type_user_ack :: message_type where [enum_values]: "message_type_user_ack = Message_type 0x10"
definition message_type_conv_abort :: message_type where [enum_values]: "message_type_conv_abort = Message_type 0x18"
definition message_type_int_delivery_notif :: message_type where [enum_values]: "message_type_int_delivery_notif = Message_type 0x20"

datatype gsm_network_features = Gsm_network_features (gsm_network_features_u8: octet)

definition gsm_network_features_no :: gsm_network_features where [enum_values]: "gsm_network_features_no = Gsm_network_features 0x00"
definition gsm_network_features_uhdi :: gsm_network_features where [enum_values]: "gsm_network_features_uhdi = Gsm_network_features 0x40"
definition gsm_network_features_reply_path :: gsm_network_features where [enum_values]: "gsm_network_features_reply_path = Gsm_network_features 0x80"
definition gsm_network_features_both :: gsm_network_features where [enum_values]: "gsm_network_features_both = Gsm_network_features 0xc0"

subsection \<open>registered_delivery.hpp\<close>

datatype smsc_delivery_receipt = Smsc_delivery_receipt (smsc_delivery_receipt_u8: octet)

definition smsc_delivery_receipt_no :: smsc_delivery_receipt where [enum_values]: "smsc_delivery_receipt_no = Smsc_delivery_receipt 0x00"
definition smsc_delivery_receipt_both :: smsc_delivery_receipt where [enum_values]: "smsc_delivery_receipt_both = Smsc_delivery_receipt 0x01"
definition smsc_delivery_receipt_failed :: smsc_delivery_receipt where [enum_values]: "smsc_delivery_receipt_failed = Smsc_delivery_receipt 0x02"

datatype sme_originated_ack = Sme_originated_ack (sme_originated_ack_u8: octet)

definition sme_originated_ack_no :: sme_originated_ack where [enum_values]: "sme_originated_ack_no = Sme_originated_ack 0x00"
definition sme_originated_ack_delivery_ack :: sme_originated_ack where [enum_values]: "sme_originated_ack_delivery_ack = Sme_originated_ack 0x04"
definition sme_originated_ack_user_ack :: sme_originated_ack where [enum_values]: "sme_originated_ack_user_ack = Sme_originated_ack 0x08"
definition sme_originated_ack_both :: sme_originated_ack where [enum_values]: "sme_originated_ack_both = Sme_originated_ack 0x0c"

datatype intermediate_notification = Intermediate_notification (intermediate_notification_u8: octet)

definition intermediate_notification_no :: intermediate_notification where [enum_values]: "intermediate_notification_no = Intermediate_notification 0x00"
definition intermediate_notification_requested :: intermediate_notification where [enum_values]: "intermediate_notification_requested = Intermediate_notification 0x10"

subsection \<open>The key order of the optional parameters\<close>

instantiation oparam_tag :: linorder
begin

definition less_eq_oparam_tag :: "oparam_tag \<Rightarrow> oparam_tag \<Rightarrow> bool" where
  "less_eq_oparam_tag s t \<longleftrightarrow> oparam_tag_u16 s \<le> oparam_tag_u16 t"

definition less_oparam_tag :: "oparam_tag \<Rightarrow> oparam_tag \<Rightarrow> bool" where
  "less_oparam_tag s t \<longleftrightarrow> oparam_tag_u16 s < oparam_tag_u16 t"

instance
  by standard (auto simp: less_eq_oparam_tag_def less_oparam_tag_def intro: oparam_tag.expand)

end

lemmas oparam_tag_order = less_eq_oparam_tag_def less_oparam_tag_def

end
