(* ===== verification/Field_Codecs.thy ===== *)
theory Field_Codecs
  imports Serialization Param_Enums
begin

text \<open>
  The laws of \<open>Serialization\<close> discharged for the representations the code has, with the limits and
  the shapes of the values that survive a round trip; the interface of the enum-like classes
  (\<open>u8_enum\<close>, \<open>u8_flag\<close>) and its interpretation for every enum of the PDUs.
\<close>

subsection \<open>Enums\<close>

locale u8_enum =
  fixes of_u8 :: "octet \<Rightarrow> 't" and to_u8 :: "'t \<Rightarrow> octet"
  assumes of_to: "of_u8 (to_u8 v) = v" and to_of: "to_u8 (of_u8 b) = b"

sublocale u8_enum \<subseteq> as_field: canonical_codec "enum_u8 of_u8 to_u8" "\<lambda>v. [to_u8 v]" "\<lambda>_. True" "\<lambda>_. True" "Length_error"
  by unfold_locales (auto simp: codec_defs of_to to_of suffix_def split: list.splits)

interpretation ton_enum: u8_enum Ton ton_u8
  by unfold_locales auto

interpretation npi_enum: u8_enum Npi npi_u8
  by unfold_locales auto

interpretation interface_version_enum: u8_enum Interface_version interface_version_u8
  by unfold_locales auto

interpretation data_coding_enum: u8_enum Data_coding data_coding_u8
  by unfold_locales auto

interpretation priority_flag_enum: u8_enum Priority_flag priority_flag_u8
  by unfold_locales auto

interpretation replace_if_present_flag_enum: u8_enum Replace_if_present_flag replace_if_present_flag_u8
  by unfold_locales auto

interpretation message_state_enum: u8_enum Message_state message_state_u8
  by unfold_locales auto

subsection \<open>Flag classes\<close>

locale u8_flag =
  fixes from_u8 :: "octet \<Rightarrow> 't" and operator_u8 :: "'t \<Rightarrow> octet" and in_mask :: "'t \<Rightarrow> bool"
  assumes from_operator: "in_mask v \<Longrightarrow> from_u8 (operator_u8 v) = v"
    and from_in_mask: "in_mask (from_u8 b)"

sublocale u8_flag \<subseteq> as_field: field_codec "enum_flag from_u8 operator_u8" "\<lambda>v. [operator_u8 v]" "\<lambda>_. True" in_mask "Length_error"
  by unfold_locales (auto simp: codec_defs from_operator from_in_mask suffix_def split: list.splits)

locale u8_flag_total = u8_flag +
  assumes operator_from: "operator_u8 (from_u8 b) = b"

sublocale u8_flag_total \<subseteq> as_total_field: canonical_codec "enum_flag from_u8 operator_u8" "\<lambda>v. [operator_u8 v]" "\<lambda>_. True" in_mask "Length_error"
  by unfold_locales (auto simp: codec_defs from_in_mask operator_from split: list.splits)

subsection \<open>Plain octets\<close>

interpretation u8_field: canonical_codec u8 "\<lambda>b. [b]" "\<lambda>_. True" "\<lambda>_. True" "Length_error"
  by unfold_locales (auto simp: codec_defs suffix_def split: list.splits)

subsection \<open>Strings\<close>

definition c_str_ok :: "nat \<Rightarrow> octets \<Rightarrow> bool" where
  "c_str_ok MAXLEN s \<longleftrightarrow> length s < MAXLEN \<and> 0 \<notin> set s"

definition octet_str_ok :: "nat \<Rightarrow> octets \<Rightarrow> bool" where
  "octet_str_ok MAXLEN s \<longleftrightarrow> length s \<le> MAXLEN \<and> length s < 256"

lemma c_octet_str_decode:
  assumes "c_octet_str_deserialize MAXLEN buf nm = (Inr v, buf')"
  shows "c_str_ok MAXLEN v \<and> buf = v @ 0 # buf'"
  using assms takeWhile_neq_split [of 0 buf]
  by (auto simp: c_octet_str_deserialize_def c_str_ok_def Let_def split: if_splits)

interpretation c_octet_str_field: canonical_codec "c_octet_str N" "\<lambda>s. s @ [0]" "\<lambda>s. length s < N" "c_str_ok N" "\<lambda>nm. Length_error (''c_octet_str exceed its limit, field_name:'' @ nm)" for N :: nat
proof unfold_locales
  fix vec v nm
  show "serialize_field (c_octet_str N) vec v nm =
      (if length v < N then (Inr (), vec @ v @ [0])
       else (Inl (Length_error (''c_octet_str exceed its limit, field_name:'' @ nm)), vec))"
    by (simp add: codec_defs)
next
  fix v :: octets and rest nm
  assume "c_str_ok N v"
  then show "deserialize_field (c_octet_str N) ((v @ [0]) @ rest) nm = (Inr v, rest)"
    by (simp add: codec_defs c_str_ok_def Let_def)
next
  fix buf nm
  show "suffix (snd (deserialize_field (c_octet_str N) buf nm)) buf"
    by (simp add: codec_defs Let_def suffix_drop)
next
  fix buf nm e buf'
  assume "deserialize_field (c_octet_str N) buf nm = (Inl e, buf')"
  then show "buf' = buf" by (auto simp: codec_defs Let_def split: if_splits)
next
  fix buf nm v buf'
  assume "deserialize_field (c_octet_str N) buf nm = (Inr v, buf')"
  then have "c_str_ok N v \<and> buf = v @ 0 # buf'"
    by (simp add: c_octet_str_def c_octet_str_decode)
  then show "c_str_ok N v" "length buf' < length buf" "c_str_ok N v \<and> buf = (v @ [0]) @ buf'"
    by simp_all
qed (simp_all add: c_str_ok_def)

lemma u8_octet_str_decode:
  assumes "u8_octet_str_deserialize MAXLEN buf nm = (Inr v, buf')"
  shows "octet_str_ok MAXLEN v \<and> buf = of_nat (length v) # v @ buf'"
proof -
  from assms obtain b body where "buf = b # body" "unat b \<le> length body" "v = take (unat b) body"
    "buf' = drop (length v) body" "length v \<le> MAXLEN"
    by (auto simp: u8_octet_str_deserialize_def Let_def split: list.splits if_splits)
  moreover have "unat b < 256" by simp
  ultimately show ?thesis by (simp add: octet_str_ok_def min_absorb2)
qed

interpretation u8_octet_str_field: canonical_codec "u8_octet_str N" "\<lambda>s. of_nat (length s) # s" "\<lambda>s. length s \<le> N" "octet_str_ok N" "\<lambda>nm. Length_error (''octet_str exceed its limit, field_name:'' @ nm)" for N :: nat
proof unfold_locales
  fix vec v nm
  show "serialize_field (u8_octet_str N) vec v nm =
      (if length v \<le> N then (Inr (), vec @ of_nat (length v) # v)
       else (Inl (Length_error (''octet_str exceed its limit, field_name:'' @ nm)), vec))"
    by (simp add: codec_defs)
next
  fix v :: octets and rest nm
  assume "octet_str_ok N v"
  then show "deserialize_field (u8_octet_str N) ((of_nat (length v) # v) @ rest) nm = (Inr v, rest)"
    by (simp add: codec_defs octet_str_ok_def Let_def unat_of_nat_octet)
next
  fix buf nm
  show "suffix (snd (deserialize_field (u8_octet_str N) buf nm)) buf"
    by (auto simp: codec_defs Let_def suffix_drop intro: suffix_ConsI split: list.splits)
next
  fix buf nm e buf'
  assume "deserialize_field (u8_octet_str N) buf nm = (Inl e, buf')"
  then show "buf' = buf" by (auto simp: codec_defs Let_def split: list.splits if_splits)
next
  fix buf nm v buf'
  assume "deserialize_field (u8_octet_str N) buf nm = (Inr v, buf')"
  then have "octet_str_ok N v \<and> buf = of_nat (length v) # v @ buf'"
    by (simp add: u8_octet_str_def u8_octet_str_decode)
  then show "octet_str_ok N v" "length buf' < length buf"
    and "octet_str_ok N v \<and> buf = (of_nat (length v) # v) @ buf'"
    by simp_all
qed (simp_all add: octet_str_ok_def)

end
