(* ===== verification/Flags.thy ===== *)
theory Flags
  imports Field_Codecs
begin

text \<open>
  \<open>esm_class.hpp\<close> and \<open>registered_delivery.hpp\<close>: the two PDU fields that pack several enums into one
  octet, with \<open>from_u8\<close> and the conversion operator to \<open>uint8_t\<close>, and their interpretation as flag
  classes. The members of a flag are meant to keep to their masks (\<open>esm_class_ok\<close>,
  \<open>registered_delivery_ok\<close>); the three masks of \<open>esm_class\<close> cover the octet, those of
  \<open>registered_delivery\<close> leave the three top bits out.
\<close>

subsection \<open>esm_class\<close>

record esm_class =
  messaging_mode :: messaging_mode
  message_type :: message_type
  gsm_network_features :: gsm_network_features

definition esm_class_default :: esm_class where
  "esm_class_default =
     \<lparr>messaging_mode = messaging_mode_defaults,
      message_type = message_type_defaults,
      gsm_network_features = gsm_network_features_no\<rparr>"

definition esm_class_from_u8 :: "octet \<Rightarrow> esm_class" where
  "esm_class_from_u8 value =
     \<lparr>messaging_mode = Messaging_mode (value AND 0x03),
      message_type = Message_type (value AND 0x3C),
      gsm_network_features = Gsm_network_features (value AND 0xC0)\<rparr>"

definition esm_class_operator_u8 :: "esm_class \<Rightarrow> octet" where
  "esm_class_operator_u8 e =
     (messaging_mode_u8 (messaging_mode e) OR message_type_u8 (message_type e))
     OR gsm_network_features_u8 (gsm_network_features e)"

definition esm_class_ok :: "esm_class \<Rightarrow> bool" where
  "esm_class_ok e \<longleftrightarrow>
     messaging_mode_u8 (messaging_mode e) AND 0x03 = messaging_mode_u8 (messaging_mode e) \<and>
     message_type_u8 (message_type e) AND 0x3C = message_type_u8 (message_type e) \<and>
     gsm_network_features_u8 (gsm_network_features e) AND 0xC0 =
       gsm_network_features_u8 (gsm_network_features e)"

subsection \<open>registered_delivery\<close>

record registered_delivery =
  smsc_delivery_receipt :: smsc_delivery_receipt
  sme_originated_ack :: sme_originated_ack
  intermediate_notification :: intermediate_notification

definition registered_delivery_default :: registered_delivery where
  "registered_delivery_default =
     \<lparr>smsc_delivery_receipt = smsc_delivery_receipt_no,
      sme_originated_ack = sme_originated_ack_no,
      intermediate_notification = intermediate_notification_no\<rparr>"

definition registered_delivery_from_u8 :: "octet \<Rightarrow> registered_delivery" where
  "registered_delivery_from_u8 value =
     \<lparr>smsc_delivery_receipt = Smsc_delivery_receipt (value AND 0x03),
      sme_originated_ack = Sme_originated_ack (value AND 0x0C),
      intermediate_notification = Intermediate_notification (value AND 0x10)\<rparr>"

definition registered_delivery_operator_u8 :: "registered_delivery \<Rightarrow> octet" where
  "registered_delivery_operator_u8 r =
     (smsc_delivery_receipt_u8 (smsc_delivery_receipt r)
       OR sme_originated_ack_u8 (sme_originated_ack r))
     OR intermediate_notification_u8 (intermediate_notification r)"

definition registered_delivery_ok :: "registered_delivery \<Rightarrow> bool" where
  "registered_delivery_ok r \<longleftrightarrow>
     smsc_delivery_receipt_u8 (smsc_delivery_receipt r) AND 0x03 =
       smsc_delivery_receipt_u8 (smsc_delivery_receipt r) \<and>
     sme_originated_ack_u8 (sme_originated_ack r) AND 0x0C =
       sme_originated_ack_u8 (sme_originated_ack r) \<and>
     intermediate_notification_u8 (intermediate_notification r) AND 0x10 =
       intermediate_notification_u8 (intermediate_notification r)"

subsection \<open>Masks that do not overlap\<close>

lemma or_and_distrib: "(x OR y) AND m = (x AND m) OR (y AND m)" for x y m :: "'a::len word"
  by (rule bit_word_eqI) (auto simp: bit_simps)

lemma masked_and_disjoint: "x AND m = x \<Longrightarrow> m AND n = 0 \<Longrightarrow> x AND n = 0" for x m n :: "'a::len word"
  by (metis and.assoc and_zero_eq)

lemma esm_class_from_operator:
  assumes "esm_class_ok e"
  shows "esm_class_from_u8 (esm_class_operator_u8 e) = e"
proof (cases e)
  case (fields a b c)
  have 1: "messaging_mode_u8 a AND 0x03 = messaging_mode_u8 a"
    and 2: "message_type_u8 b AND 0x3C = message_type_u8 b"
    and 3: "gsm_network_features_u8 c AND 0xC0 = gsm_network_features_u8 c"
    using assms fields by (simp_all add: esm_class_ok_def)
  have "messaging_mode_u8 a AND 0x3C = 0" "messaging_mode_u8 a AND 0xC0 = 0"
    "message_type_u8 b AND 0x03 = 0" "message_type_u8 b AND 0xC0 = 0"
    "gsm_network_features_u8 c AND 0x03 = 0" "gsm_network_features_u8 c AND 0x3C = 0"
    by (rule masked_and_disjoint [OF 1] masked_and_disjoint [OF 2] masked_and_disjoint [OF 3]; simp)+
  then show ?thesis
    by (simp add: fields 1 2 3 esm_class_from_u8_def esm_class_operator_u8_def or_and_distrib)
qed

lemma registered_delivery_from_operator:
  assumes "registered_delivery_ok r"
  shows "registered_delivery_from_u8 (registered_delivery_operator_u8 r) = r"
proof (cases r)
  case (fields a b c)
  have 1: "smsc_delivery_receipt_u8 a AND 0x03 = smsc_delivery_receipt_u8 a"
    and 2: "sme_originated_ack_u8 b AND 0x0C = sme_originated_ack_u8 b"
    and 3: "intermediate_notification_u8 c AND 0x10 = intermediate_notification_u8 c"
    using assms fields by (simp_all add: registered_delivery_ok_def)
  have "smsc_delivery_receipt_u8 a AND 0x0C = 0" "smsc_delivery_receipt_u8 a AND 0x10 = 0"
    "sme_originated_ack_u8 b AND 0x03 = 0" "sme_originated_ack_u8 b AND 0x10 = 0"
    "intermediate_notification_u8 c AND 0x03 = 0" "intermediate_notification_u8 c AND 0x0C = 0"
    by (rule masked_and_disjoint [OF 1] masked_and_disjoint [OF 2] masked_and_disjoint [OF 3]; simp)+
  then show ?thesis
    by (simp add: fields 1 2 3 registered_delivery_from_u8_def registered_delivery_operator_u8_def
        or_and_distrib)
qed

lemma esm_class_operator_from: "esm_class_operator_u8 (esm_class_from_u8 b) = b"
proof -
  have "(b AND 0x03 OR b AND 0x3C) OR b AND 0xC0 = b AND ((0x03 OR 0x3C) OR 0xC0)"
    by (simp only: bit.conj_disj_distrib)
  also have "\<dots> = b AND - 1" by simp
  finally show ?thesis by (simp add: esm_class_operator_u8_def esm_class_from_u8_def)
qed

lemma registered_delivery_operator_from:
  "registered_delivery_operator_u8 (registered_delivery_from_u8 b) = b AND 0x1F"
proof -
  have "(b AND 0x03 OR b AND 0x0C) OR b AND 0x10 = b AND ((0x03 OR 0x0C) OR 0x10)"
    by (simp only: bit.conj_disj_distrib)
  then show ?thesis
    by (simp add: registered_delivery_operator_u8_def registered_delivery_from_u8_def)
qed

lemma from_u8_ok: "esm_class_ok (esm_class_from_u8 b)" "registered_delivery_ok (registered_delivery_from_u8 b)"
  by (simp_all add: esm_class_ok_def esm_class_from_u8_def registered_delivery_ok_def
      registered_delivery_from_u8_def and.assoc)

interpretation esm_class_flag: u8_flag_total esm_class_from_u8 esm_class_operator_u8 esm_class_ok
  by unfold_locales (fact esm_class_from_operator from_u8_ok esm_class_operator_from)+

interpretation registered_delivery_flag: u8_flag registered_delivery_from_u8 registered_delivery_operator_u8 registered_delivery_ok
  by unfold_locales (fact registered_delivery_from_operator from_u8_ok)+

end
