(* ===== verification/Ordered_Map.thy ===== *)
theory Ordered_Map
  imports Smpp_Prelude
begin

text \<open>
  What the code uses of \<open>std::map\<close>: \<open>emplace\<close> (which keeps an element that is already there),
  assignment through \<open>operator[]\<close> (which replaces it), \<open>erase\<close>, \<open>find\<close> and iteration in key
  order. The map is the association list that iteration visits. The locale \<open>ordered_map\<close> is the
  contract; what the client \<open>oparam\<close> needs of it (a map is rebuilt by inserting its elements one by
  one; of several insertions under one key the first counts) is proved inside it.
\<close>

fun map_emplace :: "'k::linorder \<Rightarrow> 'v \<Rightarrow> ('k \<times> 'v) list \<Rightarrow> ('k \<times> 'v) list" where
  "map_emplace k v [] = [(k, v)]"
| "map_emplace k v ((k', v') # m) =
     (if k < k' then (k, v) # (k', v') # m
      else if k = k' then (k', v') # m
      else (k', v') # map_emplace k v m)"

fun map_assign :: "'k::linorder \<Rightarrow> 'v \<Rightarrow> ('k \<times> 'v) list \<Rightarrow> ('k \<times> 'v) list" where
  "map_assign k v [] = [(k, v)]"
| "map_assign k v ((k', v') # m) =
     (if k < k' then (k, v) # (k', v') # m
      else if k = k' then (k', v) # m
      else (k', v') # map_assign k v m)"

fun map_erase :: "'k::linorder \<Rightarrow> ('k \<times> 'v) list \<Rightarrow> ('k \<times> 'v) list" where
  "map_erase k [] = []"
| "map_erase k ((k', v') # m) = (if k = k' then m else (k', v') # map_erase k m)"

definition map_sorted :: "('k::linorder \<times> 'v) list \<Rightarrow> bool" where
  "map_sorted m \<longleftrightarrow> sorted_wrt (<) (map fst m)"

locale ordered_map =
  fixes empty :: "'m"
    and emplace :: "'k::linorder \<Rightarrow> 'v \<Rightarrow> 'm \<Rightarrow> 'm"
    and assign :: "'k \<Rightarrow> 'v \<Rightarrow> 'm \<Rightarrow> 'm"
    and erase :: "'k \<Rightarrow> 'm \<Rightarrow> 'm"
    and find :: "'m \<Rightarrow> 'k \<Rightarrow> 'v option"
    and entries :: "'m \<Rightarrow> ('k \<times> 'v) list"
    and invar :: "'m \<Rightarrow> bool"
  assumes find_empty: "find empty = (\<lambda>_. None)"
    and find_emplace: "invar m \<Longrightarrow>
      find (emplace k v m) = (if find m k = None then (find m)(k \<mapsto> v) else find m)"
    and find_assign: "invar m \<Longrightarrow> find (assign k v m) = (find m)(k \<mapsto> v)"
    and find_erase: "invar m \<Longrightarrow> find (erase k m) = (find m)(k := None)"
    and invar_empty: "invar empty"
    and invar_emplace: "invar m \<Longrightarrow> invar (emplace k v m)"
    and invar_assign: "invar m \<Longrightarrow> invar (assign k v m)"
    and invar_erase: "invar m \<Longrightarrow> invar (erase k m)"
    and find_entries: "invar m \<Longrightarrow> find m = map_of (entries m)"
    and entries_sorted: "invar m \<Longrightarrow> sorted_wrt (<) (map fst (entries m))"
    and find_inject: "invar m \<Longrightarrow> invar m' \<Longrightarrow> find m = find m' \<Longrightarrow> m = m'"
begin

definition emplace_all :: "('k \<times> 'v) list \<Rightarrow> 'm \<Rightarrow> 'm" where
  "emplace_all kvs m = fold (\<lambda>(k, v). emplace k v) kvs m"

lemma emplace_all_simps [simp]:
  "emplace_all [] m = m"
  "emplace_all ((k, v) # kvs) m = emplace_all kvs (emplace k v m)"
  by (simp_all add: emplace_all_def)

lemma invar_emplace_all: "invar m \<Longrightarrow> invar (emplace_all kvs m)"
  by (induction kvs arbitrary: m) (auto simp: invar_emplace)

lemma find_emplace_all:
  "invar m \<Longrightarrow> find (emplace_all kvs m) = map_of kvs ++ find m"
proof (induction kvs arbitrary: m)
  case Nil
  then show ?case by simp
next
  case (Cons kv kvs)
  obtain k v where kv: "kv = (k, v)" by (cases kv)
  show ?case
    using Cons.IH [OF invar_emplace [OF Cons.prems]] Cons.prems
    by (auto simp: kv find_emplace map_add_def fun_eq_iff split: option.splits)
qed

text \<open>The element of a repeated key is the first that was inserted.\<close>

lemma find_emplace_all_empty: "find (emplace_all kvs empty) = map_of kvs"
  by (simp add: find_emplace_all invar_empty find_empty)

lemma emplace_all_entries:
  assumes "invar m"
  shows "emplace_all (entries m) empty = m"
proof (rule find_inject)
  show "find (emplace_all (entries m) empty) = find m"
    unfolding find_emplace_all_empty find_entries [OF assms] ..
qed (simp_all add: assms invar_emplace_all invar_empty)

end

subsection \<open>The association lists keep the contract\<close>

lemma map_sorted_Cons: "map_sorted ((k, v) # m) \<longleftrightarrow> (\<forall>k' \<in> fst ` set m. k < k') \<and> map_sorted m"
  by (simp add: map_sorted_def)

lemma map_sorted_distinct: "map_sorted m \<Longrightarrow> distinct (map fst m) \<and> sorted (map fst m)"
  by (simp add: map_sorted_def strict_sorted_iff)

lemma map_of_below: "map_sorted m \<Longrightarrow> \<forall>k' \<in> fst ` set m. k < k' \<Longrightarrow> map_of m k = None"
  by (auto simp: map_of_eq_None_iff)

lemma fst_set_emplace: "fst ` set (map_emplace k v m) = insert k (fst ` set m)"
  by (induction k v m rule: map_emplace.induct) auto

lemma fst_set_assign: "fst ` set (map_assign k v m) = insert k (fst ` set m)"
  by (induction k v m rule: map_assign.induct) auto

lemma set_map_erase: "set (map_erase k m) \<subseteq> set m"
  by (induction k m rule: map_erase.induct) auto

lemma set_map_emplace: "set (map_emplace k v m) \<subseteq> insert (k, v) (set m)"
  by (induction k v m rule: map_emplace.induct) auto

lemma set_map_assign: "set (map_assign k v m) \<subseteq> insert (k, v) (set m)"
  by (induction k v m rule: map_assign.induct) auto

lemma map_sorted_emplace: "map_sorted m \<Longrightarrow> map_sorted (map_emplace k v m)"
proof (induction k v m rule: map_emplace.induct)
  case (2 k v k' v' m)
  then show ?case using fst_set_emplace [of k v m]
    by (auto simp: map_sorted_Cons not_less_iff_gr_or_eq dest: order.strict_trans)
qed (simp add: map_sorted_def)

lemma map_sorted_assign: "map_sorted m \<Longrightarrow> map_sorted (map_assign k v m)"
proof (induction k v m rule: map_assign.induct)
  case (2 k v k' v' m)
  then show ?case using fst_set_assign [of k v m]
    by (auto simp: map_sorted_Cons not_less_iff_gr_or_eq dest: order.strict_trans)
qed (simp add: map_sorted_def)

lemma map_sorted_erase: "map_sorted m \<Longrightarrow> map_sorted (map_erase k m)"
proof (induction k m rule: map_erase.induct)
  case (2 k k' v' m)
  then show ?case using set_map_erase [of k m] by (fastforce simp: map_sorted_Cons)
qed simp

lemma map_of_emplace:
  "map_sorted m \<Longrightarrow>
     map_of (map_emplace k v m) = (if map_of m k = None then (map_of m)(k \<mapsto> v) else map_of m)"
proof (induction k v m rule: map_emplace.induct)
  case (2 k v k' v' m)
  then have "k < k' \<Longrightarrow> map_of m k = None"
    by (auto simp: map_sorted_Cons map_of_eq_None_iff dest: order.strict_trans)
  with 2 show ?case by (auto simp: map_sorted_Cons fun_eq_iff)
qed simp

lemma map_of_assign: "map_of (map_assign k v m) = (map_of m)(k \<mapsto> v)"
  by (induction k v m rule: map_assign.induct) (auto simp: fun_eq_iff)

lemma map_of_erase: "map_sorted m \<Longrightarrow> map_of (map_erase k m) = (map_of m)(k := None)"
proof (induction k m rule: map_erase.induct)
  case (2 k k' v' m)
  then show ?case by (auto simp: map_sorted_Cons fun_eq_iff map_of_eq_None_iff)
qed simp

lemma map_sorted_inject:
  fixes m m' :: "('k::linorder \<times> 'v) list"
  assumes "map_sorted m" "map_sorted m'" "map_of m = map_of m'"
  shows "m = m'"
proof -
  have d: "distinct (map fst m)" "sorted (map fst m)" "distinct (map fst m')" "sorted (map fst m')"
    using assms(1,2) by (simp_all add: map_sorted_distinct)
  then have eq: "set m = set m'" using assms(3) by (metis map_of_inject_set)
  have "inj_on fst (set m \<union> set m')" using d(1) eq by (simp add: distinct_map)
  then show ?thesis using d eq by (metis map_sorted_distinct_set_unique)
qed

interpretation std_map: ordered_map "[]" map_emplace map_assign map_erase map_of "\<lambda>m. m" map_sorted
  by unfold_locales
    (simp_all add: map_of_emplace map_of_assign map_of_erase map_sorted_emplace map_sorted_assign
      map_sorted_erase map_sorted_inject, simp_all add: map_sorted_def)

end
