(* ===== verification/Oparam.thy ===== *)
theory Oparam
  imports Ordered_Map Field_Codecs
begin

text \<open>
  \<open>include/smpp/param/oparam.hpp\<close>: the optional tag-length-value parameters of a PDU, a
  \<open>std::map<oparam_tag, std::string>\<close> with its constructor from a buffer, its serializer and its
  accessors. \<open>oparam_inv\<close> is the class invariant (keys in order, every value at most 65535 octets long)
  that every operation but \<open>set_as_string\<close> keeps trivially and that \<open>set_as_string\<close> guards.
\<close>

record oparam =
  oparams :: "(oparam_tag \<times> octets) list"

definition oparam_default :: oparam where
  "oparam_default = \<lparr>oparams = []\<rparr>"

text \<open>The constructor's loop: four octets of header, then the value; less than four octets stay.\<close>

fun oparam_read :: "(oparam_tag \<times> octets) list \<Rightarrow> octets \<Rightarrow> ((oparam_tag \<times> octets) list, octets) outcome" where
  "oparam_read m (t1 # t0 # l1 # l0 # rest) =
     (let tag = Oparam_tag (be_u16 t1 t0);
          val_length = unat (be_u16 l1 l0)
      in if length rest < val_length
         then (Inl (Length_error ''oparam val length is bigger than available buf''),
               t1 # t0 # l1 # l0 # rest)
         else oparam_read (map_emplace tag (take val_length rest) m) (drop val_length rest))"
| "oparam_read m buf = (Inr m, buf)"

definition oparam_construct :: "octets \<Rightarrow> (oparam, octets) outcome" where
  "oparam_construct buf = bind_outcome (oparam_read [] buf) (\<lambda>m buf. (Inr \<lparr>oparams = m\<rparr>, buf))"

definition oparam_serialize_u16 :: "u16 \<Rightarrow> octets \<Rightarrow> octets" where
  "oparam_serialize_u16 val vec = (vec @ [byte_of 1 val]) @ [byte_of 0 val]"

definition oparam_serialize :: "oparam \<Rightarrow> octets \<Rightarrow> octets" where
  "oparam_serialize this vec =
     foldl (\<lambda>vec (tag, buf).
        oparam_serialize_u16 (of_nat (length buf))
          (oparam_serialize_u16 (oparam_tag_u16 tag) vec) @ buf)
       vec (oparams this)"

definition oparam_erase :: "oparam_tag \<Rightarrow> oparam \<Rightarrow> bool \<times> oparam" where
  "oparam_erase tag this =
     (map_of (oparams this) tag \<noteq> None, this\<lparr>oparams := map_erase tag (oparams this)\<rparr>)"

definition oparam_contains :: "oparam_tag \<Rightarrow> oparam \<Rightarrow> bool" where
  "oparam_contains tag this \<longleftrightarrow> map_of (oparams this) tag \<noteq> None"

definition oparam_get_as_string :: "oparam_tag \<Rightarrow> oparam \<Rightarrow> exn + octets" where
  "oparam_get_as_string tag this =
     (case map_of (oparams this) tag of
        None \<Rightarrow> Inl (Runtime_error ''oparam does not exist'')
      | Some val \<Rightarrow> Inr val)"

definition oparam_set_as_string :: "oparam_tag \<Rightarrow> octets \<Rightarrow> oparam \<Rightarrow> (unit, oparam) outcome" where
  "oparam_set_as_string tag val this =
     (if 65535 < length val
      then (Inl (Length_error ''oparam value length is bigger than 65535''), this)
      else (Inr (), this\<lparr>oparams := map_assign tag val (oparams this)\<rparr>))"

text \<open>
  \<open>get_as_string(tag)[0]\<close>: on a \<open>const std::string\<close>, index \<open>size()\<close> is the terminating null
  character, so an empty value reads as 0.
\<close>

definition oparam_get_as_enum_u8 :: "(octet \<Rightarrow> 't) \<Rightarrow> oparam_tag \<Rightarrow> oparam \<Rightarrow> exn + 't" where
  "oparam_get_as_enum_u8 cast_to tag this =
     (case oparam_get_as_string tag this of
        Inl e \<Rightarrow> Inl e
      | Inr [] \<Rightarrow> Inr (cast_to 0)
      | Inr (c # _) \<Rightarrow> Inr (cast_to c))"

definition oparam_set_as_enum_u8 :: "('t \<Rightarrow> octet) \<Rightarrow> oparam_tag \<Rightarrow> 't \<Rightarrow> oparam \<Rightarrow> oparam" where
  "oparam_set_as_enum_u8 cast_from tag val this =
     this\<lparr>oparams := map_assign tag [cast_from val] (oparams this)\<rparr>"

subsection \<open>The class invariant\<close>

definition oparam_inv :: "oparam \<Rightarrow> bool" where
  "oparam_inv this \<longleftrightarrow>
     map_sorted (oparams this) \<and> (\<forall>(tag, val) \<in> set (oparams this). length val \<le> 65535)"

definition values_short :: "('k \<times> octets) list \<Rightarrow> bool" where
  "values_short m \<longleftrightarrow> (\<forall>(tag, val) \<in> set m. length val \<le> 65535)"

lemma values_short_simps [simp]:
  "values_short []"
  "values_short ((k, v) # m) \<longleftrightarrow> length v \<le> 65535 \<and> values_short m"
  by (simp_all add: values_short_def)

lemma oparam_inv_alt: "oparam_inv this \<longleftrightarrow> map_sorted (oparams this) \<and> values_short (oparams this)"
  by (simp add: oparam_inv_def values_short_def)

lemma values_short_emplace: "values_short m \<Longrightarrow> length v \<le> 65535 \<Longrightarrow> values_short (map_emplace k v m)"
  using set_map_emplace [of k v m] by (auto simp: values_short_def)

lemma values_short_assign: "values_short m \<Longrightarrow> length v \<le> 65535 \<Longrightarrow> values_short (map_assign k v m)"
  using set_map_assign [of k v m] by (auto simp: values_short_def)

lemma values_short_erase: "values_short m \<Longrightarrow> values_short (map_erase k m)"
  using set_map_erase [of k m] by (auto simp: values_short_def)

lemma unat_u16_le: "unat (w :: u16) \<le> 65535"
  using unsigned_less [where ?'b = 16 and ?'a = nat, of w] by simp

lemma oparam_read_inv:
  "oparam_read m buf = (Inr m', buf') \<Longrightarrow> map_sorted m \<Longrightarrow> values_short m \<Longrightarrow>
     map_sorted m' \<and> values_short m' \<and> length buf' < 4"
proof (induction m buf rule: oparam_read.induct)
  case (1 m t1 t0 l1 l0 rest)
  from "1.prems" have "\<not> length rest < unat (be_u16 l1 l0)"
    and "oparam_read (map_emplace (Oparam_tag (be_u16 t1 t0)) (take (unat (be_u16 l1 l0)) rest) m)
           (drop (unat (be_u16 l1 l0)) rest) = (Inr m', buf')"
    by (simp_all add: Let_def split: if_splits)
  then show ?case
    using "1.IH" [OF refl refl] "1.prems"
    by (simp add: map_sorted_emplace values_short_emplace min.coboundedI2 unat_u16_le)
qed auto

lemma oparam_construct_inv:
  assumes "oparam_construct buf = (Inr this, buf')"
  shows "oparam_inv this \<and> length buf' < 4"
proof -
  from assms obtain m where "oparam_read [] buf = (Inr m, buf')" "this = \<lparr>oparams = m\<rparr>"
    by (auto simp: oparam_construct_def bind_outcome_Inr_iff)
  then show ?thesis using oparam_read_inv [of "[]"]
    by (fastforce simp: oparam_inv_alt map_sorted_def)
qed

lemma oparam_read_suffix: "suffix (snd (oparam_read m buf)) buf"
proof (induction m buf rule: oparam_read.induct)
  case (1 m t1 t0 l1 l0 rest)
  show ?case
  proof (cases "length rest < unat (be_u16 l1 l0)")
    case True
    then show ?thesis by simp
  next
    case False
    then show ?thesis
      using "1.IH" [OF refl refl]
      by (simp add: Let_def) (meson suffix_ConsI suffix_drop suffix_order.trans)
  qed
qed auto

subsection \<open>The accessors as operations on a map\<close>

definition oparam_map :: "oparam \<Rightarrow> oparam_tag \<Rightarrow> octets option" where
  "oparam_map this = map_of (oparams this)"

lemma oparam_set_as_string_map:
  assumes "oparam_set_as_string tag val this = (Inr (), this')"
  shows "oparam_map this' = (oparam_map this)(tag \<mapsto> val)" "oparam_inv this \<Longrightarrow> oparam_inv this'"
  using assms
  by (auto simp: oparam_set_as_string_def oparam_map_def oparam_inv_alt std_map.find_assign map_of_assign
      map_sorted_assign values_short_assign split: if_splits)

lemma oparam_set_as_enum_map:
  "oparam_map (oparam_set_as_enum_u8 cast_from tag val this) = (oparam_map this)(tag \<mapsto> [cast_from val])"
  "oparam_inv this \<Longrightarrow> oparam_inv (oparam_set_as_enum_u8 cast_from tag val this)"
  by (simp_all add: oparam_set_as_enum_u8_def oparam_map_def oparam_inv_alt map_of_assign
      map_sorted_assign values_short_assign)

lemma oparam_erase_map:
  assumes "oparam_inv this" "oparam_erase tag this = (found, this')"
  shows "oparam_map this' = (oparam_map this)(tag := None)" "oparam_inv this'"
    "found \<longleftrightarrow> tag \<in> dom (oparam_map this)"
  using assms
  by (auto simp: oparam_erase_def oparam_map_def oparam_inv_alt std_map.find_erase map_sorted_erase
      values_short_erase)

subsection \<open>The octets of the optional parameters\<close>

definition tlv :: "oparam_tag \<times> octets \<Rightarrow> octets" where
  "tlv kv = (let n = of_nat (length (snd kv)) :: u16; t = oparam_tag_u16 (fst kv)
             in [byte_of 1 t, byte_of 0 t, byte_of 1 n, byte_of 0 n] @ snd kv)"

lemma oparam_serialize_tlvs: "oparam_serialize this vec = vec @ concat (map tlv (oparams this))"
proof -
  have "foldl (\<lambda>vec (tag, buf).
        oparam_serialize_u16 (of_nat (length buf))
          (oparam_serialize_u16 (oparam_tag_u16 tag) vec) @ buf) vec m = vec @ concat (map tlv m)"
    for m :: "(oparam_tag \<times> octets) list"
    by (induction m arbitrary: vec) (auto simp: tlv_def oparam_serialize_u16_def Let_def)
  then show ?thesis by (simp add: oparam_serialize_def)
qed

lemma oparam_read_tlv:
  assumes "length v \<le> 65535"
  shows "oparam_read m (tlv (k, v) @ rest) = oparam_read (map_emplace k v m) rest"
proof -
  have "unat (of_nat (length v) :: u16) = length v"
    using assms by (simp add: unat_of_nat)
  then show ?thesis
    by (cases k) (simp add: tlv_def Let_def be_u16_bytes [simplified])
qed

lemma oparam_read_stop: "length buf < 4 \<Longrightarrow> oparam_read m buf = (Inr m, buf)"
  by (cases "(m, buf)" rule: oparam_read.cases) auto

lemma oparam_read_tlvs:
  "values_short kvs \<Longrightarrow> length rest < 4 \<Longrightarrow>
     oparam_read m (concat (map tlv kvs) @ rest) = (Inr (std_map.emplace_all kvs m), rest)"
  by (induction kvs arbitrary: m) (auto simp: oparam_read_tlv oparam_read_stop)

lemma oparam_construct_tlvs:
  "values_short kvs \<Longrightarrow> length rest < 4 \<Longrightarrow>
     oparam_construct (concat (map tlv kvs) @ rest) =
       (Inr \<lparr>oparams = std_map.emplace_all kvs []\<rparr>, rest)"
  by (simp add: oparam_construct_def oparam_read_tlvs)

lemma oparam_construct_serialized:
  assumes "oparam_inv this" "length rest < 4"
  shows "oparam_construct (concat (map tlv (oparams this)) @ rest) = (Inr this, rest)"
  using assms by (simp add: oparam_inv_alt oparam_construct_tlvs std_map.emplace_all_entries)

interpretation oparam_field: codec_law "smart oparam_construct oparam_serialize" "\<lambda>this. concat (map tlv (oparams this))" "\<lambda>_. True" oparam_inv "Length_error" "\<lambda>rest. length rest < 4"
proof unfold_locales
  fix buf nm
  show "suffix (snd (deserialize_field (smart oparam_construct oparam_serialize) buf nm)) buf"
    using oparam_read_suffix [of "[]" buf]
    by (cases "oparam_read [] buf", cases "fst (oparam_read [] buf)")
      (auto simp: smart_def oparam_construct_def)
next
  fix buf nm this rest
  assume "deserialize_field (smart oparam_construct oparam_serialize) buf nm = (Inr this, rest)"
  then show "oparam_inv this" using oparam_construct_inv by (simp add: smart_def)
qed (simp_all add: smart_def oparam_serialize_tlvs oparam_construct_serialized)

text \<open>The optional parameters are the last member of a PDU, and read to the end of its body.\<close>

lemma rt_oparam [rt_intros]:
  "r = init (p obj) \<Longrightarrow> oparam_inv (p obj) \<Longrightarrow>
     round_trips (tuple_cons (mem (smart oparam_construct oparam_serialize) p nm) tuple_nil)
       obj init r (\<lambda>rest. length rest < 4) (concat (map tlv (oparams (p obj))) @ [])"
  by (rule oparam_field.rt_member) (simp_all add: rt_nil)

end
