(* ===== verification/Pdu_Round_Trip.thy ===== *)
theory Pdu_Round_Trip
  imports Common_Types Flags Oparam
begin

text \<open>
  What every PDU needs of its field table: the laws of the representations as one set of rewrite
  rules, the step from the round trip of a table to the round trip of \<open>serialize_to\<close> and
  \<open>deserialize\<close>, and the empty body, which \<open>deserialize\<close> answers with a default PDU.
\<close>

lemma serialize_nil: "meta_serialize tuple_nil vec obj = (Inr (), vec)"
  by (simp add: tuple_nil_def)

lemmas serialize_simps =
  serialize_nil
  ton_enum.as_field.serialize_member
  npi_enum.as_field.serialize_member
  interface_version_enum.as_field.serialize_member
  data_coding_enum.as_field.serialize_member
  priority_flag_enum.as_field.serialize_member
  replace_if_present_flag_enum.as_field.serialize_member
  message_state_enum.as_field.serialize_member
  esm_class_flag.as_field.serialize_member
  registered_delivery_flag.as_field.serialize_member
  u8_field.serialize_member
  c_octet_str_field.serialize_member
  u8_octet_str_field.serialize_member
  oparam_field.serialize_member

lemma round_trips_deserialize:
  assumes "round_trips meta pdu init pdu stop bs" "stop []" "bs \<noteq> []"
  shows "deserialize meta init pdu_default bs = Inr pdu"
proof -
  have "meta_deserialize meta init (bs @ []) = (Inr pdu, [])"
    using assms(1,2) unfolding round_trips_def by blast
  then show ?thesis using assms(3) by (simp add: deserialize_def)
qed

lemma deserialize_yields:
  assumes "yields meta init Q" "Q pdu_default" "deserialize meta init pdu_default body = Inr pdu"
  shows "Q pdu"
proof (cases "body = []")
  case False
  then obtain rest where "meta_deserialize meta init body = (Inr pdu, rest)"
    using assms(3) by (cases "meta_deserialize meta init body") (simp add: deserialize_def)
  then show ?thesis using assms(1) unfolding yields_def by blast
qed (use assms in \<open>simp add: deserialize_def\<close>)

lemma default_members_ok:
  "c_str_ok N [] \<longleftrightarrow> 0 < N" "octet_str_ok N []" "esm_class_ok esm_class_default"
  "registered_delivery_ok registered_delivery_default" "oparam_inv oparam_default"
  by (simp_all add: c_str_ok_def octet_str_ok_def esm_class_ok_def esm_class_default_def
      registered_delivery_ok_def registered_delivery_default_def oparam_inv_def oparam_default_def
      map_sorted_def enum_values)

lemma deserialize_empty: "deserialize meta init pdu_default [] = Inr pdu_default"
  by (simp add: deserialize_def)

end
