(* ===== verification/Pdu_Bind.thy ===== *)
theory Pdu_Bind
  imports Pdu_Round_Trip
begin

text \<open>
  The PDUs that open a session (\<open>bind_*\<close>, \<open>outbind\<close>): for each, the aggregate with its
  \<open>command_id\<close>, its default member values, its \<open>pdu_meta\<close> tuple, the members that survive the wire
  (\<open>_ok\<close>) and the lengths the serializer accepts (\<open>_fits\<close>), its round trip, its limits, and that what it parses to is well-formed.
\<close>

subsection \<open>bind_transmitter.hpp\<close>

record bind_transmitter =
  system_id :: octets
  password :: octets
  system_type :: octets
  interface_version :: interface_version
  addr_ton :: ton
  addr_npi :: npi
  address_range :: octets

definition bind_transmitter_command_id :: command_id where [pdu_defs]:
  "bind_transmitter_command_id = command_id_bind_transmitter"

definition bind_transmitter_default :: bind_transmitter where [pdu_defs]:
  "bind_transmitter_default =
     \<lparr>system_id = [],
      password = [],
      system_type = [],
      interface_version = interface_version_smpp_3_4,
      addr_ton = ton_unknown,
      addr_npi = npi_unknown,
      address_range = []\<rparr>"

definition pdu_meta_bind_transmitter :: "(bind_transmitter, octets \<Rightarrow> octets \<Rightarrow> octets \<Rightarrow> interface_version \<Rightarrow> ton \<Rightarrow> npi \<Rightarrow> octets \<Rightarrow> bind_transmitter, bind_transmitter) pdu_meta" where [pdu_defs]:
  "pdu_meta_bind_transmitter =
     tuple_cons (mem (c_octet_str 16) bind_transmitter.system_id ''system_id'') (
     tuple_cons (mem (c_octet_str 9) bind_transmitter.password ''password'') (
     tuple_cons (mem (c_octet_str 13) bind_transmitter.system_type ''system_type'') (
     tuple_cons (mem (enum_u8 Interface_version interface_version_u8) bind_transmitter.interface_version ''interface_version'') (
     tuple_cons (mem (enum_u8 Ton ton_u8) bind_transmitter.addr_ton ''addr_ton'') (
     tuple_cons (mem (enum_u8 Npi npi_u8) bind_transmitter.addr_npi ''addr_npi'') (
     tuple_cons (mem (c_octet_str 41) bind_transmitter.address_range ''address_range'') (
     tuple_nil)))))))"

definition bind_transmitter_ok :: "bind_transmitter \<Rightarrow> bool" where
  "bind_transmitter_ok pdu \<longleftrightarrow>
     c_str_ok 16 (bind_transmitter.system_id pdu) \<and>
     c_str_ok 9 (bind_transmitter.password pdu) \<and>
     c_str_ok 13 (bind_transmitter.system_type pdu) \<and>
     c_str_ok 41 (bind_transmitter.address_range pdu)"

definition bind_transmitter_fits :: "bind_transmitter \<Rightarrow> bool" where
  "bind_transmitter_fits pdu \<longleftrightarrow>
     length (bind_transmitter.system_id pdu) < 16 \<and>
     length (bind_transmitter.password pdu) < 9 \<and>
     length (bind_transmitter.system_type pdu) < 13 \<and>
     length (bind_transmitter.address_range pdu) < 41"

lemma bind_transmitter_rt:
  assumes "bind_transmitter_ok pdu"
  shows "\<exists>bs. round_trips pdu_meta_bind_transmitter pdu bind_transmitter.make pdu (\<lambda>rest. True) bs \<and> bs \<noteq> []"
  unfolding pdu_meta_bind_transmitter_def
  by (rule exI, rule conjI, (rule rt_intros)+) (use assms in \<open>simp_all add: bind_transmitter_ok_def bind_transmitter.make_def\<close>)

lemma bind_transmitter_parsed_ok:
  assumes "deserialize pdu_meta_bind_transmitter bind_transmitter.make bind_transmitter_default body = Inr pdu"
  shows "bind_transmitter_ok pdu"
proof (rule deserialize_yields [OF _ _ assms])
  show "yields pdu_meta_bind_transmitter bind_transmitter.make bind_transmitter_ok"
    unfolding pdu_meta_bind_transmitter_def
    by (rule yield_intros)+ (simp add: bind_transmitter_ok_def bind_transmitter.make_def)
  show "bind_transmitter_ok bind_transmitter_default"
    by (simp add: bind_transmitter_ok_def bind_transmitter_default_def default_members_ok)
qed

lemma bind_transmitter_serialize_limits:
  "fst (serialize_to pdu_meta_bind_transmitter vec pdu) = Inr () \<longleftrightarrow> bind_transmitter_fits pdu"
  by (simp add: serialize_to_def pdu_meta_bind_transmitter_def bind_transmitter_fits_def serialize_simps)

subsection \<open>bind_transmitter_resp.hpp\<close>

record bind_transmitter_resp =
  system_id :: octets
  oparam :: oparam

definition bind_transmitter_resp_command_id :: command_id where [pdu_defs]:
  "bind_transmitter_resp_command_id = command_id_bind_transmitter_resp"

definition bind_transmitter_resp_default :: bind_transmitter_resp where [pdu_defs]:
  "bind_transmitter_resp_default =
     \<lparr>system_id = [],
      oparam = oparam_default\<rparr>"

definition pdu_meta_bind_transmitter_resp :: "(bind_transmitter_resp, octets \<Rightarrow> oparam \<Rightarrow> bind_transmitter_resp, bind_transmitter_resp) pdu_meta" where [pdu_defs]:
  "pdu_meta_bind_transmitter_resp =
     tuple_cons (mem (c_octet_str 16) bind_transmitter_resp.system_id ''system_id'') (
     tuple_cons (mem (smart oparam_construct oparam_serialize) bind_transmitter_resp.oparam ''oparam'') (
     tuple_nil))"

definition bind_transmitter_resp_ok :: "bind_transmitter_resp \<Rightarrow> bool" where
  "bind_transmitter_resp_ok pdu \<longleftrightarrow>
     c_str_ok 16 (bind_transmitter_resp.system_id pdu) \<and>
     oparam_inv (bind_transmitter_resp.oparam pdu)"

definition bind_transmitter_resp_fits :: "bind_transmitter_resp \<Rightarrow> bool" where
  "bind_transmitter_resp_fits pdu \<longleftrightarrow>
     length (bind_transmitter_resp.system_id pdu) < 16"

lemma bind_transmitter_resp_rt:
  assumes "bind_transmitter_resp_ok pdu"
  shows "\<exists>bs. round_trips pdu_meta_bind_transmitter_resp pdu bind_transmitter_resp.make pdu (\<lambda>rest. length rest < 4) bs \<and> bs \<noteq> []"
  unfolding pdu_meta_bind_transmitter_resp_def
  by (rule exI, rule conjI, (rule rt_intros)+) (use assms in \<open>simp_all add: bind_transmitter_resp_ok_def bind_transmitter_resp.make_def\<close>)

lemma bind_transmitter_resp_parsed_ok:
  assumes "deserialize pdu_meta_bind_transmitter_resp bind_transmitter_resp.make bind_transmitter_resp_default body = Inr pdu"
  shows "bind_transmitter_resp_ok pdu"
proof (rule deserialize_yields [OF _ _ assms])
  show "yields pdu_meta_bind_transmitter_resp bind_transmitter_resp.make bind_transmitter_resp_ok"
    unfolding pdu_meta_bind_transmitter_resp_def
    by (rule yield_intros)+ (simp add: bind_transmitter_resp_ok_def bind_transmitter_resp.make_def)
  show "bind_transmitter_resp_ok bind_transmitter_resp_default"
    by (simp add: bind_transmitter_resp_ok_def bind_transmitter_resp_default_def default_members_ok)
qed

lemma bind_transmitter_resp_serialize_limits:
  "fst (serialize_to pdu_meta_bind_transmitter_resp vec pdu) = Inr () \<longleftrightarrow> bind_transmitter_resp_fits pdu"
  by (simp add: serialize_to_def pdu_meta_bind_transmitter_resp_def bind_transmitter_resp_fits_def serialize_simps)

subsection \<open>bind_receiver.hpp\<close>

record bind_receiver =
  system_id :: octets
  password :: octets
  system_type :: octets
  interface_version :: interface_version
  addr_ton :: ton
  addr_npi :: npi
  address_range :: octets

definition bind_receiver_command_id :: command_id where [pdu_defs]:
  "bind_receiver_command_id = command_id_bind_receiver"

definition bind_receiver_default :: bind_receiver where [pdu_defs]:
  "bind_receiver_default =
     \<lparr>system_id = [],
      password = [],
      system_type = [],
      interface_version = interface_version_smpp_3_4,
      addr_ton = ton_unknown,
      addr_npi = npi_unknown,
      address_range = []\<rparr>"

definition pdu_meta_bind_receiver :: "(bind_receiver, octets \<Rightarrow> octets \<Rightarrow> octets \<Rightarrow> interface_version \<Rightarrow> ton \<Rightarrow> npi \<Rightarrow> octets \<Rightarrow> bind_receiver, bind_receiver) pdu_meta" where [pdu_defs]:
  "pdu_meta_bind_receiver =
     tuple_cons (mem (c_octet_str 16) bind_receiver.system_id ''system_id'') (
     tuple_cons (mem (c_octet_str 9) bind_receiver.password ''password'') (
     tuple_cons (mem (c_octet_str 13) bind_receiver.system_type ''system_type'') (
     tuple_cons (mem (enum_u8 Interface_version interface_version_u8) bind_receiver.interface_version ''interface_version'') (
     tuple_cons (mem (enum_u8 Ton ton_u8) bind_receiver.addr_ton ''addr_ton'') (
     tuple_cons (mem (enum_u8 Npi npi_u8) bind_receiver.addr_npi ''addr_npi'') (
     tuple_cons (mem (c_octet_str 41) bind_receiver.address_range ''address_range'') (
     tuple_nil)))))))"

definition bind_receiver_ok :: "bind_receiver \<Rightarrow> bool" where
  "bind_receiver_ok pdu \<longleftrightarrow>
     c_str_ok 16 (bind_receiver.system_id pdu) \<and>
     c_str_ok 9 (bind_receiver.password pdu) \<and>
     c_str_ok 13 (bind_receiver.system_type pdu) \<and>
     c_str_ok 41 (bind_receiver.address_range pdu)"

definition bind_receiver_fits :: "bind_receiver \<Rightarrow> bool" where
  "bind_receiver_fits pdu \<longleftrightarrow>
     length (bind_receiver.system_id pdu) < 16 \<and>
     length (bind_receiver.password pdu) < 9 \<and>
     length (bind_receiver.system_type pdu) < 13 \<and>
     length (bind_receiver.address_range pdu) < 41"

lemma bind_receiver_rt:
  assumes "bind_receiver_ok pdu"
  shows "\<exists>bs. round_trips pdu_meta_bind_receiver pdu bind_receiver.make pdu (\<lambda>rest. True) bs \<and> bs \<noteq> []"
  unfolding pdu_meta_bind_receiver_def
  by (rule exI, rule conjI, (rule rt_intros)+) (use assms in \<open>simp_all add: bind_receiver_ok_def bind_receiver.make_def\<close>)

lemma bind_receiver_parsed_ok:
  assumes "deserialize pdu_meta_bind_receiver bind_receiver.make bind_receiver_default body = Inr pdu"
  shows "bind_receiver_ok pdu"
proof (rule deserialize_yields [OF _ _ assms])
  show "yields pdu_meta_bind_receiver bind_receiver.make bind_receiver_ok"
    unfolding pdu_meta_bind_receiver_def
    by (rule yield_intros)+ (simp add: bind_receiver_ok_def bind_receiver.make_def)
  show "bind_receiver_ok bind_receiver_default"
    by (simp add: bind_receiver_ok_def bind_receiver_default_def default_members_ok)
qed

lemma bind_receiver_serialize_limits:
  "fst (serialize_to pdu_meta_bind_receiver vec pdu) = Inr () \<longleftrightarrow> bind_receiver_fits pdu"
  by (simp add: serialize_to_def pdu_meta_bind_receiver_def bind_receiver_fits_def serialize_simps)

subsection \<open>bind_receiver_resp.hpp\<close>

record bind_receiver_resp =
  system_id :: octets
  oparam :: oparam

definition bind_receiver_resp_command_id :: command_id where [pdu_defs]:
  "bind_receiver_resp_command_id = command_id_bind_receiver_resp"

definition bind_receiver_resp_default :: bind_receiver_resp where [pdu_defs]:
  "bind_receiver_resp_default =
     \<lparr>system_id = [],
      oparam = oparam_default\<rparr>"

definition pdu_meta_bind_receiver_resp :: "(bind_receiver_resp, octets \<Rightarrow> oparam \<Rightarrow> bind_receiver_resp, bind_receiver_resp) pdu_meta" where [pdu_defs]:
  "pdu_meta_bind_receiver_resp =
     tuple_cons (mem (c_octet_str 16) bind_receiver_resp.system_id ''system_id'') (
     tuple_cons (mem (smart oparam_construct oparam_serialize) bind_receiver_resp.oparam ''oparam'') (
     tuple_nil))"

definition bind_receiver_resp_ok :: "bind_receiver_resp \<Rightarrow> bool" where
  "bind_receiver_resp_ok pdu \<longleftrightarrow>
     c_str_ok 16 (bind_receiver_resp.system_id pdu) \<and>
     oparam_inv (bind_receiver_resp.oparam pdu)"

definition bind_receiver_resp_fits :: "bind_receiver_resp \<Rightarrow> bool" where
  "bind_receiver_resp_fits pdu \<longleftrightarrow>
     length (bind_receiver_resp.system_id pdu) < 16"

lemma bind_receiver_resp_rt:
  assumes "bind_receiver_resp_ok pdu"
  shows "\<exists>bs. round_trips pdu_meta_bind_receiver_resp pdu bind_receiver_resp.make pdu (\<lambda>rest. length rest < 4) bs \<and> bs \<noteq> []"
  unfolding pdu_meta_bind_receiver_resp_def
  by (rule exI, rule conjI, (rule rt_intros)+) (use assms in \<open>simp_all add: bind_receiver_resp_ok_def bind_receiver_resp.make_def\<close>)

lemma bind_receiver_resp_parsed_ok:
  assumes "deserialize pdu_meta_bind_receiver_resp bind_receiver_resp.make bind_receiver_resp_default body = Inr pdu"
  shows "bind_receiver_resp_ok pdu"
proof (rule deserialize_yields [OF _ _ assms])
  show "yields pdu_meta_bind_receiver_resp bind_receiver_resp.make bind_receiver_resp_ok"
    unfolding pdu_meta_bind_receiver_resp_def
    by (rule yield_intros)+ (simp add: bind_receiver_resp_ok_def bind_receiver_resp.make_def)
  show "bind_receiver_resp_ok bind_receiver_resp_default"
    by (simp add: bind_receiver_resp_ok_def bind_receiver_resp_default_def default_members_ok)
qed

lemma bind_receiver_resp_serialize_limits:
  "fst (serialize_to pdu_meta_bind_receiver_resp vec pdu) = Inr () \<longleftrightarrow> bind_receiver_resp_fits pdu"
  by (simp add: serialize_to_def pdu_meta_bind_receiver_resp_def bind_receiver_resp_fits_def serialize_simps)

subsection \<open>bind_transceiver.hpp\<close>

record bind_transceiver =
  system_id :: octets
  password :: octets
  system_type :: octets
  interface_version :: interface_version
  addr_ton :: ton
  addr_npi :: npi
  address_range :: octets

definition bind_transceiver_command_id :: command_id where [pdu_defs]:
  "bind_transceiver_command_id = command_id_bind_transceiver"

definition bind_transceiver_default :: bind_transceiver where [pdu_defs]:
  "bind_transceiver_default =
     \<lparr>system_id = [],
      password = [],
      system_type = [],
      interface_version = interface_version_smpp_3_4,
      addr_ton = ton_unknown,
      addr_npi = npi_unknown,
      address_range = []\<rparr>"

definition pdu_meta_bind_transceiver :: "(bind_transceiver, octets \<Rightarrow> octets \<Rightarrow> octets \<Rightarrow> interface_version \<Rightarrow> ton \<Rightarrow> npi \<Rightarrow> octets \<Rightarrow> bind_transceiver, bind_transceiver) pdu_meta" where [pdu_defs]:
  "pdu_meta_bind_transceiver =
     tuple_cons (mem (c_octet_str 16) bind_transceiver.system_id ''system_id'') (
     tuple_cons (mem (c_octet_str 9) bind_transceiver.password ''password'') (
     tuple_cons (mem (c_octet_str 13) bind_transceiver.system_type ''system_type'') (
     tuple_cons (mem (enum_u8 Interface_version interface_version_u8) bind_transceiver.interface_version ''interface_version'') (
     tuple_cons (mem (enum_u8 Ton ton_u8) bind_transceiver.addr_ton ''addr_ton'') (
     tuple_cons (mem (enum_u8 Npi npi_u8) bind_transceiver.addr_npi ''addr_npi'') (
     tuple_cons (mem (c_octet_str 41) bind_transceiver.address_range ''address_range'') (
     tuple_nil)))))))"

definition bind_transceiver_ok :: "bind_transceiver \<Rightarrow> bool" where
  "bind_transceiver_ok pdu \<longleftrightarrow>
     c_str_ok 16 (bind_transceiver.system_id pdu) \<and>
     c_str_ok 9 (bind_transceiver.password pdu) \<and>
     c_str_ok 13 (bind_transceiver.system_type pdu) \<and>
     c_str_ok 41 (bind_transceiver.address_range pdu)"

definition bind_transceiver_fits :: "bind_transceiver \<Rightarrow> bool" where
  "bind_transceiver_fits pdu \<longleftrightarrow>
     length (bind_transceiver.system_id pdu) < 16 \<and>
     length (bind_transceiver.password pdu) < 9 \<and>
     length (bind_transceiver.system_type pdu) < 13 \<and>
     length (bind_transceiver.address_range pdu) < 41"

lemma bind_transceiver_rt:
  assumes "bind_transceiver_ok pdu"
  shows "\<exists>bs. round_trips pdu_meta_bind_transceiver pdu bind_transceiver.make pdu (\<lambda>rest. True) bs \<and> bs \<noteq> []"
  unfolding pdu_meta_bind_transceiver_def
  by (rule exI, rule conjI, (rule rt_intros)+) (use assms in \<open>simp_all add: bind_transceiver_ok_def bind_transceiver.make_def\<close>)

lemma bind_transceiver_parsed_ok:
  assumes "deserialize pdu_meta_bind_transceiver bind_transceiver.make bind_transceiver_default body = Inr pdu"
  shows "bind_transceiver_ok pdu"
proof (rule deserialize_yields [OF _ _ assms])
  show "yields pdu_meta_bind_transceiver bind_transceiver.make bind_transceiver_ok"
    unfolding pdu_meta_bind_transceiver_def
    by (rule yield_intros)+ (simp add: bind_transceiver_ok_def bind_transceiver.make_def)
  show "bind_transceiver_ok bind_transceiver_default"
    by (simp add: bind_transceiver_ok_def bind_transceiver_default_def default_members_ok)
qed

lemma bind_transceiver_serialize_limits:
  "fst (serialize_to pdu_meta_bind_transceiver vec pdu) = Inr () \<longleftrightarrow> bind_transceiver_fits pdu"
  by (simp add: serialize_to_def pdu_meta_bind_transceiver_def bind_transceiver_fits_def serialize_simps)

subsection \<open>bind_transceiver_resp.hpp\<close>

record bind_transceiver_resp =
  system_id :: octets
  oparam :: oparam

definition bind_transceiver_resp_command_id :: command_id where [pdu_defs]:
  "bind_transceiver_resp_command_id = command_id_bind_transceiver_resp"

definition bind_transceiver_resp_default :: bind_transceiver_resp where [pdu_defs]:
  "bind_transceiver_resp_default =
     \<lparr>system_id = [],
      oparam = oparam_default\<rparr>"

definition pdu_meta_bind_transceiver_resp :: "(bind_transceiver_resp, octets \<Rightarrow> oparam \<Rightarrow> bind_transceiver_resp, bind_transceiver_resp) pdu_meta" where [pdu_defs]:
  "pdu_meta_bind_transceiver_resp =
     tuple_cons (mem (c_octet_str 16) bind_transceiver_resp.system_id ''system_id'') (
     tuple_cons (mem (smart oparam_construct oparam_serialize) bind_transceiver_resp.oparam ''oparam'') (
     tuple_nil))"

definition bind_transceiver_resp_ok :: "bind_transceiver_resp \<Rightarrow> bool" where
  "bind_transceiver_resp_ok pdu \<longleftrightarrow>
     c_str_ok 16 (bind_transceiver_resp.system_id pdu) \<and>
     oparam_inv (bind_transceiver_resp.oparam pdu)"

definition bind_transceiver_resp_fits :: "bind_transceiver_resp \<Rightarrow> bool" where
  "bind_transceiver_resp_fits pdu \<longleftrightarrow>
     length (bind_transceiver_resp.system_id pdu) < 16"

lemma bind_transceiver_resp_rt:
  assumes "bind_transceiver_resp_ok pdu"
  shows "\<exists>bs. round_trips pdu_meta_bind_transceiver_resp pdu bind_transceiver_resp.make pdu (\<lambda>rest. length rest < 4) bs \<and> bs \<noteq> []"
  unfolding pdu_meta_bind_transceiver_resp_def
  by (rule exI, rule conjI, (rule rt_intros)+) (use assms in \<open>simp_all add: bind_transceiver_resp_ok_def bind_transceiver_resp.make_def\<close>)

lemma bind_transceiver_resp_parsed_ok:
  assumes "deserialize pdu_meta_bind_transceiver_resp bind_transceiver_resp.make bind_transceiver_resp_default body = Inr pdu"
  shows "bind_transceiver_resp_ok pdu"
proof (rule deserialize_yields [OF _ _ assms])
  show "yields pdu_meta_bind_transceiver_resp bind_transceiver_resp.make bind_transceiver_resp_ok"
    unfolding pdu_meta_bind_transceiver_resp_def
    by (rule yield_intros)+ (simp add: bind_transceiver_resp_ok_def bind_transceiver_resp.make_def)
  show "bind_transceiver_resp_ok bind_transceiver_resp_default"
    by (simp add: bind_transceiver_resp_ok_def bind_transceiver_resp_default_def default_members_ok)
qed

lemma bind_transceiver_resp_serialize_limits:
  "fst (serialize_to pdu_meta_bind_transceiver_resp vec pdu) = Inr () \<longleftrightarrow> bind_transceiver_resp_fits pdu"
  by (simp add: serialize_to_def pdu_meta_bind_transceiver_resp_def bind_transceiver_resp_fits_def serialize_simps)

subsection \<open>outbind.hpp\<close>

record outbind =
  system_id :: octets
  password :: octets

definition outbind_command_id :: command_id where [pdu_defs]:
  "outbind_command_id = command_id_outbind"

definition outbind_default :: outbind where [pdu_defs]:
  "outbind_default =
     \<lparr>system_id = [],
      password = []\<rparr>"

definition pdu_meta_outbind :: "(outbind, octets \<Rightarrow> octets \<Rightarrow> outbind, outbind) pdu_meta" where [pdu_defs]:
  "pdu_meta_outbind =
     tuple_cons (mem (c_octet_str 16) outbind.system_id ''system_id'') (
     tuple_cons (mem (c_octet_str 9) outbind.password ''password'') (
     tuple_nil))"

definition outbind_ok :: "outbind \<Rightarrow> bool" where
  "outbind_ok pdu \<longleftrightarrow>
     c_str_ok 16 (outbind.system_id pdu) \<and>
     c_str_ok 9 (outbind.password pdu)"

definition outbind_fits :: "outbind \<Rightarrow> bool" where
  "outbind_fits pdu \<longleftrightarrow>
     length (outbind.system_id pdu) < 16 \<and>
     length (outbind.password pdu) < 9"

lemma outbind_rt:
  assumes "outbind_ok pdu"
  shows "\<exists>bs. round_trips pdu_meta_outbind pdu outbind.make pdu (\<lambda>rest. True) bs \<and> bs \<noteq> []"
  unfolding pdu_meta_outbind_def
  by (rule exI, rule conjI, (rule rt_intros)+) (use assms in \<open>simp_all add: outbind_ok_def outbind.make_def\<close>)

lemma outbind_parsed_ok:
  assumes "deserialize pdu_meta_outbind outbind.make outbind_default body = Inr pdu"
  shows "outbind_ok pdu"
proof (rule deserialize_yields [OF _ _ assms])
  show "yields pdu_meta_outbind outbind.make outbind_ok"
    unfolding pdu_meta_outbind_def
    by (rule yield_intros)+ (simp add: outbind_ok_def outbind.make_def)
  show "outbind_ok outbind_default"
    by (simp add: outbind_ok_def outbind_default_def default_members_ok)
qed

lemma outbind_serialize_limits:
  "fst (serialize_to pdu_meta_outbind vec pdu) = Inr () \<longleftrightarrow> outbind_fits pdu"
  by (simp add: serialize_to_def pdu_meta_outbind_def outbind_fits_def serialize_simps)

end
