(* ===== verification/Pdu_Message.thy ===== *)
theory Pdu_Message
  imports Pdu_Round_Trip
begin

text \<open>
  The PDUs that carry a short message (\<open>submit_sm\<close>, \<open>deliver_sm\<close>, \<open>data_sm\<close> and their responses): for each, the aggregate with its
  \<open>command_id\<close>, its default member values, its \<open>pdu_meta\<close> tuple, the members that survive the wire
  (\<open>_ok\<close>) and the lengths the serializer accepts (\<open>_fits\<close>), its round trip, its limits, and that what it parses to is well-formed.
\<close>

subsection \<open>submit_sm.hpp\<close>

record submit_sm =
  service_type :: octets
  source_addr_ton :: ton
  source_addr_npi :: npi
  source_addr :: octets
  dest_addr_ton :: ton
  dest_addr_npi :: npi
  dest_addr :: octets
  esm_class :: esm_class
  protocol_id :: octet
  priority_flag :: priority_flag
  schedule_delivery_time :: octets
  validity_period :: octets
  registered_delivery :: registered_delivery
  replace_if_present_flag :: replace_if_present_flag
  data_coding :: data_coding
  sm_default_msg_id :: octet
  short_message :: octets
  oparam :: oparam

definition submit_sm_command_id :: command_id where [pdu_defs]:
  "submit_sm_command_id = command_id_submit_sm"

definition submit_sm_default :: submit_sm where [pdu_defs]:
  "submit_sm_default =
     \<lparr>service_type = [],
      source_addr_ton = ton_unknown,
      source_addr_npi = npi_unknown,
      source_addr = [],
      dest_addr_ton = ton_unknown,
      dest_addr_npi = npi_unknown,
      dest_addr = [],
      esm_class = esm_class_default,
      protocol_id = 0,
      priority_flag = priority_flag_gsm_non_priority,
      schedule_delivery_time = [],
      validity_period = [],
      registered_delivery = registered_delivery_default,
      replace_if_present_flag = replace_if_present_flag_no,
      data_coding = data_coding_defaults,
      sm_default_msg_id = 0,
      short_message = [],
      oparam = oparam_default\<rparr>"

definition pdu_meta_submit_sm :: "(submit_sm, octets \<Rightarrow> ton \<Rightarrow> npi \<Rightarrow> octets \<Rightarrow> ton \<Rightarrow> npi \<Rightarrow> octets \<Rightarrow> esm_class \<Rightarrow> octet \<Rightarrow> priority_flag \<Rightarrow> octets \<Rightarrow> octets \<Rightarrow> registered_delivery \<Rightarrow> replace_if_present_flag \<Rightarrow> data_coding \<Rightarrow> octet \<Rightarrow> octets \<Rightarrow> oparam \<Rightarrow> submit_sm, submit_sm) pdu_meta" where [pdu_defs]:
  "pdu_meta_submit_sm =
     tuple_cons (mem (c_octet_str 6) submit_sm.service_type ''service_type'') (
     tuple_cons (mem (enum_u8 Ton ton_u8) submit_sm.source_addr_ton ''source_addr_ton'') (
     tuple_cons (mem (enum_u8 Npi npi_u8) submit_sm.source_addr_npi ''source_addr_npi'') (
     tuple_cons (mem (c_octet_str 21) submit_sm.source_addr ''source_addr'') (
     tuple_cons (mem (enum_u8 Ton ton_u8) submit_sm.dest_addr_ton ''dest_addr_ton'') (
     tuple_cons (mem (enum_u8 Npi npi_u8) submit_sm.dest_addr_npi ''dest_addr_npi'') (
     tuple_cons (mem (c_octet_str 21) submit_sm.dest_addr ''dest_addr'') (
     tuple_cons (mem (enum_flag esm_class_from_u8 esm_class_operator_u8) submit_sm.esm_class ''esm_class'') (
     tuple_cons (mem u8 submit_sm.protocol_id ''protocol_id'') (
     tuple_cons (mem (enum_u8 Priority_flag priority_flag_u8) submit_sm.priority_flag ''priority_flag'') (
     tuple_cons (mem (c_octet_str 17) submit_sm.schedule_delivery_time ''schedule_delivery_time'') (
     tuple_cons (mem (c_octet_str 17) submit_sm.validity_period ''validity_period'') (
     tuple_cons (mem (enum_flag registered_delivery_from_u8 registered_delivery_operator_u8) submit_sm.registered_delivery ''registered_delivery'') (
     tuple_cons (mem (enum_u8 Replace_if_present_flag replace_if_present_flag_u8) submit_sm.replace_if_present_flag ''replace_if_present_flag'') (
     tuple_cons (mem (enum_u8 Data_coding data_coding_u8) submit_sm.data_coding ''data_coding'') (
     tuple_cons (mem u8 submit_sm.sm_default_msg_id ''sm_default_msg_id'') (
     tuple_cons (mem (u8_octet_str 254) submit_sm.short_message ''short_message'') (
     tuple_cons (mem (smart oparam_construct oparam_serialize) submit_sm.oparam ''oparam'') (
     tuple_nil))))))))))))))))))"

definition submit_sm_ok :: "submit_sm \<Rightarrow> bool" where
  "submit_sm_ok pdu \<longleftrightarrow>
     c_str_ok 6 (submit_sm.service_type pdu) \<and>
     c_str_ok 21 (submit_sm.source_addr pdu) \<and>
     c_str_ok 21 (submit_sm.dest_addr pdu) \<and>
     esm_class_ok (submit_sm.esm_class pdu) \<and>
     c_str_ok 17 (submit_sm.schedule_delivery_time pdu) \<and>
     c_str_ok 17 (submit_sm.validity_period pdu) \<and>
     registered_delivery_ok (submit_sm.registered_delivery pdu) \<and>
     octet_str_ok 254 (submit_sm.short_message pdu) \<and>
     oparam_inv (submit_sm.oparam pdu)"

definition submit_sm_fits :: "submit_sm \<Rightarrow> bool" where
  "submit_sm_fits pdu \<longleftrightarrow>
     length (submit_sm.service_type pdu) < 6 \<and>
     length (submit_sm.source_addr pdu) < 21 \<and>
     length (submit_sm.dest_addr pdu) < 21 \<and>
     length (submit_sm.schedule_delivery_time pdu) < 17 \<and>
     length (submit_sm.validity_period pdu) < 17 \<and>
     length (submit_sm.short_message pdu) \<le> 254"

lemma submit_sm_rt:
  assumes "submit_sm_ok pdu"
  shows "\<exists>bs. round_trips pdu_meta_submit_sm pdu submit_sm.make pdu (\<lambda>rest. length rest < 4) bs \<and> bs \<noteq> []"
  unfolding pdu_meta_submit_sm_def
  by (rule exI, rule conjI, (rule rt_intros)+) (use assms in \<open>simp_all add: submit_sm_ok_def submit_sm.make_def\<close>)

lemma submit_sm_parsed_ok:
  assumes "deserialize pdu_meta_submit_sm submit_sm.make submit_sm_default body = Inr pdu"
  shows "submit_sm_ok pdu"
proof (rule deserialize_yields [OF _ _ assms])
  show "yields pdu_meta_submit_sm submit_sm.make submit_sm_ok"
    unfolding pdu_meta_submit_sm_def
    by (rule yield_intros)+ (simp add: submit_sm_ok_def submit_sm.make_def)
  show "submit_sm_ok submit_sm_default"
    by (simp add: submit_sm_ok_def submit_sm_default_def default_members_ok)
qed

lemma submit_sm_serialize_limits:
  "fst (serialize_to pdu_meta_submit_sm vec pdu) = Inr () \<longleftrightarrow> submit_sm_fits pdu"
  by (simp add: serialize_to_def pdu_meta_submit_sm_def submit_sm_fits_def serialize_simps)

subsection \<open>submit_sm_resp.hpp\<close>

record submit_sm_resp =
  message_id :: octets

definition submit_sm_resp_command_id :: command_id where [pdu_defs]:
  "submit_sm_resp_command_id = command_id_submit_sm_resp"

definition submit_sm_resp_default :: submit_sm_resp where [pdu_defs]:
  "submit_sm_resp_default =
     \<lparr>message_id = []\<rparr>"

definition pdu_meta_submit_sm_resp :: "(submit_sm_resp, octets \<Rightarrow> submit_sm_resp, submit_sm_resp) pdu_meta" where [pdu_defs]:
  "pdu_meta_submit_sm_resp =
     tuple_cons (mem (c_octet_str 65) submit_sm_resp.message_id ''message_id'') (
     tuple_nil)"

definition submit_sm_resp_ok :: "submit_sm_resp \<Rightarrow> bool" where
  "submit_sm_resp_ok pdu \<longleftrightarrow>
     c_str_ok 65 (submit_sm_resp.message_id pdu)"

definition submit_sm_resp_fits :: "submit_sm_resp \<Rightarrow> bool" where
  "submit_sm_resp_fits pdu \<longleftrightarrow>
     length (submit_sm_resp.message_id pdu) < 65"

lemma submit_sm_resp_rt:
  assumes "submit_sm_resp_ok pdu"
  shows "\<exists>bs. round_trips pdu_meta_submit_sm_resp pdu submit_sm_resp.make pdu (\<lambda>rest. True) bs \<and> bs \<noteq> []"
  unfolding pdu_meta_submit_sm_resp_def
  by (rule exI, rule conjI, (rule rt_intros)+) (use assms in \<open>simp_all add: submit_sm_resp_ok_def submit_sm_resp.make_def\<close>)

lemma submit_sm_resp_parsed_ok:
  assumes "deserialize pdu_meta_submit_sm_resp submit_sm_resp.make submit_sm_resp_default body = Inr pdu"
  shows "submit_sm_resp_ok pdu"
proof (rule deserialize_yields [OF _ _ assms])
  show "yields pdu_meta_submit_sm_resp submit_sm_resp.make submit_sm_resp_ok"
    unfolding pdu_meta_submit_sm_resp_def
    by (rule yield_intros)+ (simp add: submit_sm_resp_ok_def submit_sm_resp.make_def)
  show "submit_sm_resp_ok submit_sm_resp_default"
    by (simp add: submit_sm_resp_ok_def submit_sm_resp_default_def default_members_ok)
qed

lemma submit_sm_resp_serialize_limits:
  "fst (serialize_to pdu_meta_submit_sm_resp vec pdu) = Inr () \<longleftrightarrow> submit_sm_resp_fits pdu"
  by (simp add: serialize_to_def pdu_meta_submit_sm_resp_def submit_sm_resp_fits_def serialize_simps)

subsection \<open>deliver_sm.hpp\<close>

record deliver_sm =
  service_type :: octets
  source_addr_ton :: ton
  source_addr_npi :: npi
  source_addr :: octets
  dest_addr_ton :: ton
  dest_addr_npi :: npi
  dest_addr :: octets
  esm_class :: esm_class
  protocol_id :: octet
  priority_flag :: priority_flag
  schedule_delivery_time :: octets
  validity_period :: octets
  registered_delivery :: registered_delivery
  replace_if_present_flag :: replace_if_present_flag
  data_coding :: data_coding
  sm_default_msg_id :: octet
  short_message :: octets
  oparam :: oparam

definition deliver_sm_command_id :: command_id where [pdu_defs]:
  "deliver_sm_command_id = command_id_deliver_sm"

definition deliver_sm_default :: deliver_sm where [pdu_defs]:
  "deliver_sm_default =
     \<lparr>service_type = [],
      source_addr_ton = ton_unknown,
      source_addr_npi = npi_unknown,
      source_addr = [],
      dest_addr_ton = ton_unknown,
      dest_addr_npi = npi_unknown,
      dest_addr = [],
      esm_class = esm_class_default,
      protocol_id = 0,
      priority_flag = priority_flag_gsm_non_priority,
      schedule_delivery_time = [],
      validity_period = [],
      registered_delivery = registered_delivery_default,
      replace_if_present_flag = replace_if_present_flag_no,
      data_coding = data_coding_defaults,
      sm_default_msg_id = 0,
      short_message = [],
      oparam = oparam_default\<rparr>"

definition pdu_meta_deliver_sm :: "(deliver_sm, octets \<Rightarrow> ton \<Rightarrow> npi \<Rightarrow> octets \<Rightarrow> ton \<Rightarrow> npi \<Rightarrow> octets \<Rightarrow> esm_class \<Rightarrow> octet \<Rightarrow> priority_flag \<Rightarrow> octets \<Rightarrow> octets \<Rightarrow> registered_delivery \<Rightarrow> replace_if_present_flag \<Rightarrow> data_coding \<Rightarrow> octet \<Rightarrow> octets \<Rightarrow> oparam \<Rightarrow> deliver_sm, deliver_sm) pdu_meta" where [pdu_defs]:
  "pdu_meta_deliver_sm =
     tuple_cons (mem (c_octet_str 6) deliver_sm.service_type ''service_type'') (
     tuple_cons (mem (enum_u8 Ton ton_u8) deliver_sm.source_addr_ton ''source_addr_ton'') (
     tuple_cons (mem (enum_u8 Npi npi_u8) deliver_sm.source_addr_npi ''source_addr_npi'') (
     tuple_cons (mem (c_octet_str 21) deliver_sm.source_addr ''source_addr'') (
     tuple_cons (mem (enum_u8 Ton ton_u8) deliver_sm.dest_addr_ton ''dest_addr_ton'') (
     tuple_cons (mem (enum_u8 Npi npi_u8) deliver_sm.dest_addr_npi ''dest_addr_npi'') (
     tuple_cons (mem (c_octet_str 21) deliver_sm.dest_addr ''dest_addr'') (
     tuple_cons (mem (enum_flag esm_class_from_u8 esm_class_operator_u8) deliver_sm.esm_class ''esm_class'') (
     tuple_cons (mem u8 deliver_sm.protocol_id ''protocol_id'') (
     tuple_cons (mem (enum_u8 Priority_flag priority_flag_u8) deliver_sm.priority_flag ''priority_flag'') (
     tuple_cons (mem (c_octet_str 1) deliver_sm.schedule_delivery_time ''schedule_delivery_time'') (
     tuple_cons (mem (c_octet_str 1) deliver_sm.validity_period ''validity_period'') (
     tuple_cons (mem (enum_flag registered_delivery_from_u8 registered_delivery_operator_u8) deliver_sm.registered_delivery ''registered_delivery'') (
     tuple_cons (mem (enum_u8 Replace_if_present_flag replace_if_present_flag_u8) deliver_sm.replace_if_present_flag ''replace_if_present_flag'') (
     tuple_cons (mem (enum_u8 Data_coding data_coding_u8) deliver_sm.data_coding ''data_coding'') (
     tuple_cons (mem u8 deliver_sm.sm_default_msg_id ''sm_default_msg_id'') (
     tuple_cons (mem (u8_octet_str 254) deliver_sm.short_message ''short_message'') (
     tuple_cons (mem (smart oparam_construct oparam_serialize) deliver_sm.oparam ''oparam'') (
     tuple_nil))))))))))))))))))"

definition deliver_sm_ok :: "deliver_sm \<Rightarrow> bool" where
  "deliver_sm_ok pdu \<longleftrightarrow>
     c_str_ok 6 (deliver_sm.service_type pdu) \<and>
     c_str_ok 21 (deliver_sm.source_addr pdu) \<and>
     c_str_ok 21 (deliver_sm.dest_addr pdu) \<and>
     esm_class_ok (deliver_sm.esm_class pdu) \<and>
     c_str_ok 1 (deliver_sm.schedule_delivery_time pdu) \<and>
     c_str_ok 1 (deliver_sm.validity_period pdu) \<and>
     registered_delivery_ok (deliver_sm.registered_delivery pdu) \<and>
     octet_str_ok 254 (deliver_sm.short_message pdu) \<and>
     oparam_inv (deliver_sm.oparam pdu)"

definition deliver_sm_fits :: "deliver_sm \<Rightarrow> bool" where
  "deliver_sm_fits pdu \<longleftrightarrow>
     length (deliver_sm.service_type pdu) < 6 \<and>
     length (deliver_sm.source_addr pdu) < 21 \<and>
     length (deliver_sm.dest_addr pdu) < 21 \<and>
     length (deliver_sm.schedule_delivery_time pdu) < 1 \<and>
     length (deliver_sm.validity_period pdu) < 1 \<and>
     length (deliver_sm.short_message pdu) \<le> 254"

lemma deliver_sm_rt:
  assumes "deliver_sm_ok pdu"
  shows "\<exists>bs. round_trips pdu_meta_deliver_sm pdu deliver_sm.make pdu (\<lambda>rest. length rest < 4) bs \<and> bs \<noteq> []"
  unfolding pdu_meta_deliver_sm_def
  by (rule exI, rule conjI, (rule rt_intros)+) (use assms in \<open>simp_all add: deliver_sm_ok_def deliver_sm.make_def\<close>)

lemma deliver_sm_parsed_ok:
  assumes "deserialize pdu_meta_deliver_sm deliver_sm.make deliver_sm_default body = Inr pdu"
  shows "deliver_sm_ok pdu"
proof (rule deserialize_yields [OF _ _ assms])
  show "yields pdu_meta_deliver_sm deliver_sm.make deliver_sm_ok"
    unfolding pdu_meta_deliver_sm_def
    by (rule yield_intros)+ (simp add: deliver_sm_ok_def deliver_sm.make_def)
  show "deliver_sm_ok deliver_sm_default"
    by (simp add: deliver_sm_ok_def deliver_sm_default_def default_members_ok)
qed

lemma deliver_sm_serialize_limits:
  "fst (serialize_to pdu_meta_deliver_sm vec pdu) = Inr () \<longleftrightarrow> deliver_sm_fits pdu"
  by (simp add: serialize_to_def pdu_meta_deliver_sm_def deliver_sm_fits_def serialize_simps)

subsection \<open>deliver_sm_resp.hpp\<close>

record deliver_sm_resp =
  message_id :: octets

definition deliver_sm_resp_command_id :: command_id where [pdu_defs]:
  "deliver_sm_resp_command_id = command_id_deliver_sm_resp"

definition deliver_sm_resp_default :: deliver_sm_resp where [pdu_defs]:
  "deliver_sm_resp_default =
     \<lparr>message_id = []\<rparr>"

definition pdu_meta_deliver_sm_resp :: "(deliver_sm_resp, octets \<Rightarrow> deliver_sm_resp, deliver_sm_resp) pdu_meta" where [pdu_defs]:
  "pdu_meta_deliver_sm_resp =
     tuple_cons (mem (c_octet_str 1) deliver_sm_resp.message_id ''message_id'') (
     tuple_nil)"

definition deliver_sm_resp_ok :: "deliver_sm_resp \<Rightarrow> bool" where
  "deliver_sm_resp_ok pdu \<longleftrightarrow>
     c_str_ok 1 (deliver_sm_resp.message_id pdu)"

definition deliver_sm_resp_fits :: "deliver_sm_resp \<Rightarrow> bool" where
  "deliver_sm_resp_fits pdu \<longleftrightarrow>
     length (deliver_sm_resp.message_id pdu) < 1"

lemma deliver_sm_resp_rt:
  assumes "deliver_sm_resp_ok pdu"
  shows "\<exists>bs. round_trips pdu_meta_deliver_sm_resp pdu deliver_sm_resp.make pdu (\<lambda>rest. True) bs \<and> bs \<noteq> []"
  unfolding pdu_meta_deliver_sm_resp_def
  by (rule exI, rule conjI, (rule rt_intros)+) (use assms in \<open>simp_all add: deliver_sm_resp_ok_def deliver_sm_resp.make_def\<close>)

lemma deliver_sm_resp_parsed_ok:
  assumes "deserialize pdu_meta_deliver_sm_resp deliver_sm_resp.make deliver_sm_resp_default body = Inr pdu"
  shows "deliver_sm_resp_ok pdu"
proof (rule deserialize_yields [OF _ _ assms])
  show "yields pdu_meta_deliver_sm_resp deliver_sm_resp.make deliver_sm_resp_ok"
    unfolding pdu_meta_deliver_sm_resp_def
    by (rule yield_intros)+ (simp add: deliver_sm_resp_ok_def deliver_sm_resp.make_def)
  show "deliver_sm_resp_ok deliver_sm_resp_default"
    by (simp add: deliver_sm_resp_ok_def deliver_sm_resp_default_def default_members_ok)
qed

lemma deliver_sm_resp_serialize_limits:
  "fst (serialize_to pdu_meta_deliver_sm_resp vec pdu) = Inr () \<longleftrightarrow> deliver_sm_resp_fits pdu"
  by (simp add: serialize_to_def pdu_meta_deliver_sm_resp_def deliver_sm_resp_fits_def serialize_simps)

subsection \<open>data_sm.hpp\<close>

record data_sm =
  service_type :: octets
  source_addr_ton :: ton
  source_addr_npi :: npi
  source_addr :: octets
  dest_addr_ton :: ton
  dest_addr_npi :: npi
  dest_addr :: octets
  esm_class :: esm_class
  registered_delivery :: registered_delivery
  data_coding :: data_coding
  oparam :: oparam

definition data_sm_command_id :: command_id where [pdu_defs]:
  "data_sm_command_id = command_id_data_sm"

definition data_sm_default :: data_sm where [pdu_defs]:
  "data_sm_default =
     \<lparr>service_type = [],
      source_addr_ton = ton_unknown,
      source_addr_npi = npi_unknown,
      source_addr = [],
      dest_addr_ton = ton_unknown,
      dest_addr_npi = npi_unknown,
      dest_addr = [],
      esm_class = esm_class_default,
      registered_delivery = registered_delivery_default,
      data_coding = data_coding_defaults,
      oparam = oparam_default\<rparr>"

definition pdu_meta_data_sm :: "(data_sm, octets \<Rightarrow> ton \<Rightarrow> npi \<Rightarrow> octets \<Rightarrow> ton \<Rightarrow> npi \<Rightarrow> octets \<Rightarrow> esm_class \<Rightarrow> registered_delivery \<Rightarrow> data_coding \<Rightarrow> oparam \<Rightarrow> data_sm, data_sm) pdu_meta" where [pdu_defs]:
  "pdu_meta_data_sm =
     tuple_cons (mem (c_octet_str 6) data_sm.service_type ''service_type'') (
     tuple_cons (mem (enum_u8 Ton ton_u8) data_sm.source_addr_ton ''source_addr_ton'') (
     tuple_cons (mem (enum_u8 Npi npi_u8) data_sm.source_addr_npi ''source_addr_npi'') (
     tuple_cons (mem (c_octet_str 65) data_sm.source_addr ''source_addr'') (
     tuple_cons (mem (enum_u8 Ton ton_u8) data_sm.dest_addr_ton ''dest_addr_ton'') (
     tuple_cons (mem (enum_u8 Npi npi_u8) data_sm.dest_addr_npi ''dest_addr_npi'') (
     tuple_cons (mem (c_octet_str 65) data_sm.dest_addr ''dest_addr'') (
     tuple_cons (mem (enum_flag esm_class_from_u8 esm_class_operator_u8) data_sm.esm_class ''esm_class'') (
     tuple_cons (mem (enum_flag registered_delivery_from_u8 registered_delivery_operator_u8) data_sm.registered_delivery ''registered_delivery'') (
     tuple_cons (mem (enum_u8 Data_coding data_coding_u8) data_sm.data_coding ''data_coding'') (
     tuple_cons (mem (smart oparam_construct oparam_serialize) data_sm.oparam ''oparam'') (
     tuple_nil)))))))))))"

definition data_sm_ok :: "data_sm \<Rightarrow> bool" where
  "data_sm_ok pdu \<longleftrightarrow>
     c_str_ok 6 (data_sm.service_type pdu) \<and>
     c_str_ok 65 (data_sm.source_addr pdu) \<and>
     c_str_ok 65 (data_sm.dest_addr pdu) \<and>
     esm_class_ok (data_sm.esm_class pdu) \<and>
     registered_delivery_ok (data_sm.registered_delivery pdu) \<and>
     oparam_inv (data_sm.oparam pdu)"

definition data_sm_fits :: "data_sm \<Rightarrow> bool" where
  "data_sm_fits pdu \<longleftrightarrow>
     length (data_sm.service_type pdu) < 6 \<and>
     length (data_sm.source_addr pdu) < 65 \<and>
     length (data_sm.dest_addr pdu) < 65"

lemma data_sm_rt:
  assumes "data_sm_ok pdu"
  shows "\<exists>bs. round_trips pdu_meta_data_sm pdu data_sm.make pdu (\<lambda>rest. length rest < 4) bs \<and> bs \<noteq> []"
  unfolding pdu_meta_data_sm_def
  by (rule exI, rule conjI, (rule rt_intros)+) (use assms in \<open>simp_all add: data_sm_ok_def data_sm.make_def\<close>)

lemma data_sm_parsed_ok:
  assumes "deserialize pdu_meta_data_sm data_sm.make data_sm_default body = Inr pdu"
  shows "data_sm_ok pdu"
proof (rule deserialize_yields [OF _ _ assms])
  show "yields pdu_meta_data_sm data_sm.make data_sm_ok"
    unfolding pdu_meta_data_sm_def
    by (rule yield_intros)+ (simp add: data_sm_ok_def data_sm.make_def)
  show "data_sm_ok data_sm_default"
    by (simp add: data_sm_ok_def data_sm_default_def default_members_ok)
qed

lemma data_sm_serialize_limits:
  "fst (serialize_to pdu_meta_data_sm vec pdu) = Inr () \<longleftrightarrow> data_sm_fits pdu"
  by (simp add: serialize_to_def pdu_meta_data_sm_def data_sm_fits_def serialize_simps)

subsection \<open>data_sm_resp.hpp\<close>

record data_sm_resp =
  message_id :: octets
  oparam :: oparam

definition data_sm_resp_command_id :: command_id where [pdu_defs]:
  "data_sm_resp_command_id = command_id_data_sm_resp"

definition data_sm_resp_default :: data_sm_resp where [pdu_defs]:
  "data_sm_resp_default =
     \<lparr>message_id = [],
      oparam = oparam_default\<rparr>"

definition pdu_meta_data_sm_resp :: "(data_sm_resp, octets \<Rightarrow> oparam \<Rightarrow> data_sm_resp, data_sm_resp) pdu_meta" where [pdu_defs]:
  "pdu_meta_data_sm_resp =
     tuple_cons (mem (c_octet_str 65) data_sm_resp.message_id ''message_id'') (
     tuple_cons (mem (smart oparam_construct oparam_serialize) data_sm_resp.oparam ''oparam'') (
     tuple_nil))"

definition data_sm_resp_ok :: "data_sm_resp \<Rightarrow> bool" where
  "data_sm_resp_ok pdu \<longleftrightarrow>
     c_str_ok 65 (data_sm_resp.message_id pdu) \<and>
     oparam_inv (data_sm_resp.oparam pdu)"

definition data_sm_resp_fits :: "data_sm_resp \<Rightarrow> bool" where
  "data_sm_resp_fits pdu \<longleftrightarrow>
     length (data_sm_resp.message_id pdu) < 65"

lemma data_sm_resp_rt:
  assumes "data_sm_resp_ok pdu"
  shows "\<exists>bs. round_trips pdu_meta_data_sm_resp pdu data_sm_resp.make pdu (\<lambda>rest. length rest < 4) bs \<and> bs \<noteq> []"
  unfolding pdu_meta_data_sm_resp_def
  by (rule exI, rule conjI, (rule rt_intros)+) (use assms in \<open>simp_all add: data_sm_resp_ok_def data_sm_resp.make_def\<close>)

lemma data_sm_resp_parsed_ok:
  assumes "deserialize pdu_meta_data_sm_resp data_sm_resp.make data_sm_resp_default body = Inr pdu"
  shows "data_sm_resp_ok pdu"
proof (rule deserialize_yields [OF _ _ assms])
  show "yields pdu_meta_data_sm_resp data_sm_resp.make data_sm_resp_ok"
    unfolding pdu_meta_data_sm_resp_def
    by (rule yield_intros)+ (simp add: data_sm_resp_ok_def data_sm_resp.make_def)
  show "data_sm_resp_ok data_sm_resp_default"
    by (simp add: data_sm_resp_ok_def data_sm_resp_default_def default_members_ok)
qed

lemma data_sm_resp_serialize_limits:
  "fst (serialize_to pdu_meta_data_sm_resp vec pdu) = Inr () \<longleftrightarrow> data_sm_resp_fits pdu"
  by (simp add: serialize_to_def pdu_meta_data_sm_resp_def data_sm_resp_fits_def serialize_simps)

end
