(* ===== verification/Pdu_Manage.thy ===== *)
theory Pdu_Manage
  imports Pdu_Round_Trip
begin

text \<open>
  The PDUs that manage submitted messages (\<open>query_sm\<close>, \<open>replace_sm\<close>, \<open>cancel_sm\<close> and their responses), \<open>alert_notification\<close> and \<open>generic_nack\<close>: for each, the aggregate with its
  \<open>command_id\<close>, its default member values, its \<open>pdu_meta\<close> tuple, the members that survive the wire
  (\<open>_ok\<close>) and the lengths the serializer accepts (\<open>_fits\<close>), its round trip, its limits, and that what it parses to is well-formed.
\<close>

subsection \<open>query_sm.hpp\<close>

record query_sm =
  message_id :: octets
  source_addr_ton :: ton
  source_addr_npi :: npi
  source_addr :: octets

definition query_sm_command_id :: command_id where [pdu_defs]:
  "query_sm_command_id = command_id_query_sm"

definition query_sm_default :: query_sm where [pdu_defs]:
  "query_sm_default =
     \<lparr>message_id = [],
      source_addr_ton = ton_unknown,
      source_addr_npi = npi_unknown,
      source_addr = []\<rparr>"

definition pdu_meta_query_sm :: "(query_sm, octets \<Rightarrow> ton \<Rightarrow> npi \<Rightarrow> octets \<Rightarrow> query_sm, query_sm) pdu_meta" where [pdu_defs]:
  "pdu_meta_query_sm =
     tuple_cons (mem (c_octet_str 65) query_sm.message_id ''message_id'') (
     tuple_cons (mem (enum_u8 Ton ton_u8) query_sm.source_addr_ton ''source_addr_ton'') (
     tuple_cons (mem (enum_u8 Npi npi_u8) query_sm.source_addr_npi ''source_addr_npi'') (
     tuple_cons (mem (c_octet_str 21) query_sm.source_addr ''source_addr'') (
     tuple_nil))))"

definition query_sm_ok :: "query_sm \<Rightarrow> bool" where
  "query_sm_ok pdu \<longleftrightarrow>
     c_str_ok 65 (query_sm.message_id pdu) \<and>
     c_str_ok 21 (query_sm.source_addr pdu)"

definition query_sm_fits :: "query_sm \<Rightarrow> bool" where
  "query_sm_fits pdu \<longleftrightarrow>
     length (query_sm.message_id pdu) < 65 \<and>
     length (query_sm.source_addr pdu) < 21"

lemma query_sm_rt:
  assumes "query_sm_ok pdu"
  shows "\<exists>bs. round_trips pdu_meta_query_sm pdu query_sm.make pdu (\<lambda>rest. True) bs \<and> bs \<noteq> []"
  unfolding pdu_meta_query_sm_def
  by (rule exI, rule conjI, (rule rt_intros)+) (use assms in \<open>simp_all add: query_sm_ok_def query_sm.make_def\<close>)

lemma query_sm_parsed_ok:
  assumes "deserialize pdu_meta_query_sm query_sm.make query_sm_default body = Inr pdu"
  shows "query_sm_ok pdu"
proof (rule deserialize_yields [OF _ _ assms])
  show "yields pdu_meta_query_sm query_sm.make query_sm_ok"
    unfolding pdu_meta_query_sm_def
    by (rule yield_intros)+ (simp add: query_sm_ok_def query_sm.make_def)
  show "query_sm_ok query_sm_default"
    by (simp add: query_sm_ok_def query_sm_default_def default_members_ok)
qed

lemma query_sm_serialize_limits:
  "fst (serialize_to pdu_meta_query_sm vec pdu) = Inr () \<longleftrightarrow> query_sm_fits pdu"
  by (simp add: serialize_to_def pdu_meta_query_sm_def query_sm_fits_def serialize_simps)

subsection \<open>query_sm_resp.hpp\<close>

record query_sm_resp =
  message_id :: octets
  final_date :: octets
  message_state :: message_state
  error_code :: octet

definition query_sm_resp_command_id :: command_id where [pdu_defs]:
  "query_sm_resp_command_id = command_id_query_sm_resp"

definition query_sm_resp_default :: query_sm_resp where [pdu_defs]:
  "query_sm_resp_default =
     \<lparr>message_id = [],
      final_date = [],
      message_state = message_state_unknown,
      error_code = 0\<rparr>"

definition pdu_meta_query_sm_resp :: "(query_sm_resp, octets \<Rightarrow> octets \<Rightarrow> message_state \<Rightarrow> octet \<Rightarrow> query_sm_resp, query_sm_resp) pdu_meta" where [pdu_defs]:
  "pdu_meta_query_sm_resp =
     tuple_cons (mem (c_octet_str 65) query_sm_resp.message_id ''message_id'') (
     tuple_cons (mem (c_octet_str 17) query_sm_resp.final_date ''final_date'') (
     tuple_cons (mem (enum_u8 Message_state message_state_u8) query_sm_resp.message_state ''message_state'') (
     tuple_cons (mem u8 query_sm_resp.error_code ''error_code'') (
     tuple_nil))))"

definition query_sm_resp_ok :: "query_sm_resp \<Rightarrow> bool" where
  "query_sm_resp_ok pdu \<longleftrightarrow>
     c_str_ok 65 (query_sm_resp.message_id pdu) \<and>
     c_str_ok 17 (query_sm_resp.final_date pdu)"

definition query_sm_resp_fits :: "query_sm_resp \<Rightarrow> bool" where
  "query_sm_resp_fits pdu \<longleftrightarrow>
     length (query_sm_resp.message_id pdu) < 65 \<and>
     length (query_sm_resp.final_date pdu) < 17"

lemma query_sm_resp_rt:
  assumes "query_sm_resp_ok pdu"
  shows "\<exists>bs. round_trips pdu_meta_query_sm_resp pdu query_sm_resp.make pdu (\<lambda>rest. True) bs \<and> bs \<noteq> []"
  unfolding pdu_meta_query_sm_resp_def
  by (rule exI, rule conjI, (rule rt_intros)+) (use assms in \<open>simp_all add: query_sm_resp_ok_def query_sm_resp.make_def\<close>)

lemma query_sm_resp_parsed_ok:
  assumes "deserialize pdu_meta_query_sm_resp query_sm_resp.make query_sm_resp_default body = Inr pdu"
  shows "query_sm_resp_ok pdu"
proof (rule deserialize_yields [OF _ _ assms])
  show "yields pdu_meta_query_sm_resp query_sm_resp.make query_sm_resp_ok"
    unfolding pdu_meta_query_sm_resp_def
    by (rule yield_intros)+ (simp add: query_sm_resp_ok_def query_sm_resp.make_def)
  show "query_sm_resp_ok query_sm_resp_default"
    by (simp add: query_sm_resp_ok_def query_sm_resp_default_def default_members_ok)
qed

lemma query_sm_resp_serialize_limits:
  "fst (serialize_to pdu_meta_query_sm_resp vec pdu) = Inr () \<longleftrightarrow> query_sm_resp_fits pdu"
  by (simp add: serialize_to_def pdu_meta_query_sm_resp_def query_sm_resp_fits_def serialize_simps)

subsection \<open>replace_sm.hpp\<close>

record replace_sm =
  message_id :: octets
  source_addr_ton :: ton
  source_addr_npi :: npi
  source_addr :: octets
  schedule_delivery_time :: octets
  validity_period :: octets
  registered_delivery :: registered_delivery
  sm_default_msg_id :: octet
  short_message :: octets

definition replace_sm_command_id :: command_id where [pdu_defs]:
  "replace_sm_command_id = command_id_replace_sm"

definition replace_sm_default :: replace_sm where [pdu_defs]:
  "replace_sm_default =
     \<lparr>message_id = [],
      source_addr_ton = ton_unknown,
      source_addr_npi = npi_unknown,
      source_addr = [],
      schedule_delivery_time = [],
      validity_period = [],
      registered_delivery = registered_delivery_default,
      sm_default_msg_id = 0,
      short_message = []\<rparr>"

definition pdu_meta_replace_sm :: "(replace_sm, octets \<Rightarrow> ton \<Rightarrow> npi \<Rightarrow> octets \<Rightarrow> octets \<Rightarrow> octets \<Rightarrow> registered_delivery \<Rightarrow> octet \<Rightarrow> octets \<Rightarrow> replace_sm, replace_sm) pdu_meta" where [pdu_defs]:
  "pdu_meta_replace_sm =
     tuple_cons (mem (c_octet_str 65) replace_sm.message_id ''message_id'') (
     tuple_cons (mem (enum_u8 Ton ton_u8) replace_sm.source_addr_ton ''source_addr_ton'') (
     tuple_cons (mem (enum_u8 Npi npi_u8) replace_sm.source_addr_npi ''source_addr_npi'') (
     tuple_cons (mem (c_octet_str 21) replace_sm.source_addr ''source_addr'') (
     tuple_cons (mem (c_octet_str 17) replace_sm.schedule_delivery_time ''schedule_delivery_time'') (
     tuple_cons (mem (c_octet_str 17) replace_sm.validity_period ''validity_period'') (
     tuple_cons (mem (enum_flag registered_delivery_from_u8 registered_delivery_operator_u8) replace_sm.registered_delivery ''registered_delivery'') (
     tuple_cons (mem u8 replace_sm.sm_default_msg_id ''sm_default_msg_id'') (
     tuple_cons (mem (u8_octet_str 254) replace_sm.short_message ''short_message'') (
     tuple_nil)))))))))"

definition replace_sm_ok :: "replace_sm \<Rightarrow> bool" where
  "replace_sm_ok pdu \<longleftrightarrow>
     c_str_ok 65 (replace_sm.message_id pdu) \<and>
     c_str_ok 21 (replace_sm.source_addr pdu) \<and>
     c_str_ok 17 (replace_sm.schedule_delivery_time pdu) \<and>
     c_str_ok 17 (replace_sm.validity_period pdu) \<and>
     registered_delivery_ok (replace_sm.registered_delivery pdu) \<and>
     octet_str_ok 254 (replace_sm.short_message pdu)"

definition replace_sm_fits :: "replace_sm \<Rightarrow> bool" where
  "replace_sm_fits pdu \<longleftrightarrow>
     length (replace_sm.message_id pdu) < 65 \<and>
     length (replace_sm.source_addr pdu) < 21 \<and>
     length (replace_sm.schedule_delivery_time pdu) < 17 \<and>
     length (replace_sm.validity_period pdu) < 17 \<and>
     length (replace_sm.short_message pdu) \<le> 254"

lemma replace_sm_rt:
  assumes "replace_sm_ok pdu"
  shows "\<exists>bs. round_trips pdu_meta_replace_sm pdu replace_sm.make pdu (\<lambda>rest. True) bs \<and> bs \<noteq> []"
  unfolding pdu_meta_replace_sm_def
  by (rule exI, rule conjI, (rule rt_intros)+) (use assms in \<open>simp_all add: replace_sm_ok_def replace_sm.make_def\<close>)

lemma replace_sm_parsed_ok:
  assumes "deserialize pdu_meta_replace_sm replace_sm.make replace_sm_default body = Inr pdu"
  shows "replace_sm_ok pdu"
proof (rule deserialize_yields [OF _ _ assms])
  show "yields pdu_meta_replace_sm replace_sm.make replace_sm_ok"
    unfolding pdu_meta_replace_sm_def
    by (rule yield_intros)+ (simp add: replace_sm_ok_def replace_sm.make_def)
  show "replace_sm_ok replace_sm_default"
    by (simp add: replace_sm_ok_def replace_sm_default_def default_members_ok)
qed

lemma replace_sm_serialize_limits:
  "fst (serialize_to pdu_meta_replace_sm vec pdu) = Inr () \<longleftrightarrow> replace_sm_fits pdu"
  by (simp add: serialize_to_def pdu_meta_replace_sm_def replace_sm_fits_def serialize_simps)

subsection \<open>replace_sm_resp.hpp\<close>

datatype replace_sm_resp = Replace_sm_resp

definition replace_sm_resp_command_id :: command_id where [pdu_defs]:
  "replace_sm_resp_command_id = command_id_replace_sm_resp"

definition replace_sm_resp_default :: replace_sm_resp where [pdu_defs]:
  "replace_sm_resp_default = Replace_sm_resp"

definition pdu_meta_replace_sm_resp :: "(replace_sm_resp, replace_sm_resp, replace_sm_resp) pdu_meta" where [pdu_defs]:
  "pdu_meta_replace_sm_resp =
     tuple_nil"

lemma replace_sm_resp_rt: "round_trips pdu_meta_replace_sm_resp pdu Replace_sm_resp pdu (\<lambda>rest. True) []"
  unfolding pdu_meta_replace_sm_resp_def by (rule rt_nil) (cases pdu, simp)

subsection \<open>cancel_sm.hpp\<close>

record cancel_sm =
  service_type :: octets
  message_id :: octets
  source_addr_ton :: ton
  source_addr_npi :: npi
  source_addr :: octets
  dest_addr_ton :: ton
  dest_addr_npi :: npi
  dest_addr :: octets

definition cancel_sm_command_id :: command_id where [pdu_defs]:
  "cancel_sm_command_id = command_id_cancel_sm"

definition cancel_sm_default :: cancel_sm where [pdu_defs]:
  "cancel_sm_default =
     \<lparr>service_type = [],
      message_id = [],
      source_addr_ton = ton_unknown,
      source_addr_npi = npi_unknown,
      source_addr = [],
      dest_addr_ton = ton_unknown,
      dest_addr_npi = npi_unknown,
      dest_addr = []\<rparr>"

definition pdu_meta_cancel_sm :: "(cancel_sm, octets \<Rightarrow> octets \<Rightarrow> ton \<Rightarrow> npi \<Rightarrow> octets \<Rightarrow> ton \<Rightarrow> npi \<Rightarrow> octets \<Rightarrow> cancel_sm, cancel_sm) pdu_meta" where [pdu_defs]:
  "pdu_meta_cancel_sm =
     tuple_cons (mem (c_octet_str 6) cancel_sm.service_type ''service_type'') (
     tuple_cons (mem (c_octet_str 65) cancel_sm.message_id ''message_id'') (
     tuple_cons (mem (enum_u8 Ton ton_u8) cancel_sm.source_addr_ton ''source_addr_ton'') (
     tuple_cons (mem (enum_u8 Npi npi_u8) cancel_sm.source_addr_npi ''source_addr_npi'') (
     tuple_cons (mem (c_octet_str 21) cancel_sm.source_addr ''source_addr'') (
     tuple_cons (mem (enum_u8 Ton ton_u8) cancel_sm.dest_addr_ton ''dest_addr_ton'') (
     tuple_cons (mem (enum_u8 Npi npi_u8) cancel_sm.dest_addr_npi ''dest_addr_npi'') (
     tuple_cons (mem (c_octet_str 21) cancel_sm.dest_addr ''dest_addr'') (
     tuple_nil))))))))"

definition cancel_sm_ok :: "cancel_sm \<Rightarrow> bool" where
  "cancel_sm_ok pdu \<longleftrightarrow>
     c_str_ok 6 (cancel_sm.service_type pdu) \<and>
     c_str_ok 65 (cancel_sm.message_id pdu) \<and>
     c_str_ok 21 (cancel_sm.source_addr pdu) \<and>
     c_str_ok 21 (cancel_sm.dest_addr pdu)"

definition cancel_sm_fits :: "cancel_sm \<Rightarrow> bool" where
  "cancel_sm_fits pdu \<longleftrightarrow>
     length (cancel_sm.service_type pdu) < 6 \<and>
     length (cancel_sm.message_id pdu) < 65 \<and>
     length (cancel_sm.source_addr pdu) < 21 \<and>
     length (cancel_sm.dest_addr pdu) < 21"

lemma cancel_sm_rt:
  assumes "cancel_sm_ok pdu"
  shows "\<exists>bs. round_trips pdu_meta_cancel_sm pdu cancel_sm.make pdu (\<lambda>rest. True) bs \<and> bs \<noteq> []"
  unfolding pdu_meta_cancel_sm_def
  by (rule exI, rule conjI, (rule rt_intros)+) (use assms in \<open>simp_all add: cancel_sm_ok_def cancel_sm.make_def\<close>)

lemma cancel_sm_parsed_ok:
  assumes "deserialize pdu_meta_cancel_sm cancel_sm.make cancel_sm_default body = Inr pdu"
  shows "cancel_sm_ok pdu"
proof (rule deserialize_yields [OF _ _ assms])
  show "yields pdu_meta_cancel_sm cancel_sm.make cancel_sm_ok"
    unfolding pdu_meta_cancel_sm_def
    by (rule yield_intros)+ (simp add: cancel_sm_ok_def cancel_sm.make_def)
  show "cancel_sm_ok cancel_sm_default"
    by (simp add: cancel_sm_ok_def cancel_sm_default_def default_members_ok)
qed

lemma cancel_sm_serialize_limits:
  "fst (serialize_to pdu_meta_cancel_sm vec pdu) = Inr () \<longleftrightarrow> cancel_sm_fits pdu"
  by (simp add: serialize_to_def pdu_meta_cancel_sm_def cancel_sm_fits_def serialize_simps)

subsection \<open>cancel_sm_resp.hpp\<close>

datatype cancel_sm_resp = Cancel_sm_resp

definition cancel_sm_resp_command_id :: command_id where [pdu_defs]:
  "cancel_sm_resp_command_id = command_id_cancel_sm_resp"

definition cancel_sm_resp_default :: cancel_sm_resp where [pdu_defs]:
  "cancel_sm_resp_default = Cancel_sm_resp"

definition pdu_meta_cancel_sm_resp :: "(cancel_sm_resp, cancel_sm_resp, cancel_sm_resp) pdu_meta" where [pdu_defs]:
  "pdu_meta_cancel_sm_resp =
     tuple_nil"

lemma cancel_sm_resp_rt: "round_trips pdu_meta_cancel_sm_resp pdu Cancel_sm_resp pdu (\<lambda>rest. True) []"
  unfolding pdu_meta_cancel_sm_resp_def by (rule rt_nil) (cases pdu, simp)

subsection \<open>alert_notification.hpp\<close>

record alert_notification =
  source_addr_ton :: ton
  source_addr_npi :: npi
  source_addr :: octets
  esme_addr_ton :: ton
  esme_addr_npi :: npi
  esme_addr :: octets
  oparam :: oparam

definition alert_notification_command_id :: command_id where [pdu_defs]:
  "alert_notification_command_id = command_id_alert_notification"

definition alert_notification_default :: alert_notification where [pdu_defs]:
  "alert_notification_default =
     \<lparr>source_addr_ton = ton_unknown,
      source_addr_npi = npi_unknown,
      source_addr = [],
      esme_addr_ton = ton_unknown,
      esme_addr_npi = npi_unknown,
      esme_addr = [],
      oparam = oparam_default\<rparr>"

definition pdu_meta_alert_notification :: "(alert_notification, ton \<Rightarrow> npi \<Rightarrow> octets \<Rightarrow> ton \<Rightarrow> npi \<Rightarrow> octets \<Rightarrow> oparam \<Rightarrow> alert_notification, alert_notification) pdu_meta" where [pdu_defs]:
  "pdu_meta_alert_notification =
     tuple_cons (mem (enum_u8 Ton ton_u8) alert_notification.source_addr_ton ''source_addr_ton'') (
     tuple_cons (mem (enum_u8 Npi npi_u8) alert_notification.source_addr_npi ''source_addr_npi'') (
     tuple_cons (mem (c_octet_str 65) alert_notification.source_addr ''source_addr'') (
     tuple_cons (mem (enum_u8 Ton ton_u8) alert_notification.esme_addr_ton ''esme_addr_ton'') (
     tuple_cons (mem (enum_u8 Npi npi_u8) alert_notification.esme_addr_npi ''esme_addr_npi'') (
     tuple_cons (mem (c_octet_str 65) alert_notification.esme_addr ''esme_addr'') (
     tuple_cons (mem (smart oparam_construct oparam_serialize) alert_notification.oparam ''oparam'') (
     tuple_nil)))))))"

definition alert_notification_ok :: "alert_notification \<Rightarrow> bool" where
  "alert_notification_ok pdu \<longleftrightarrow>
     c_str_ok 65 (alert_notification.source_addr pdu) \<and>
     c_str_ok 65 (alert_notification.esme_addr pdu) \<and>
     oparam_inv (alert_notification.oparam pdu)"

definition alert_notification_fits :: "alert_notification \<Rightarrow> bool" where
  "alert_notification_fits pdu \<longleftrightarrow>
     length (alert_notification.source_addr pdu) < 65 \<and>
     length (alert_notification.esme_addr pdu) < 65"

lemma alert_notification_rt:
  assumes "alert_notification_ok pdu"
  shows "\<exists>bs. round_trips pdu_meta_alert_notification pdu alert_notification.make pdu (\<lambda>rest. length rest < 4) bs \<and> bs \<noteq> []"
  unfolding pdu_meta_alert_notification_def
  by (rule exI, rule conjI, (rule rt_intros)+) (use assms in \<open>simp_all add: alert_notification_ok_def alert_notification.make_def\<close>)

lemma alert_notification_parsed_ok:
  assumes "deserialize pdu_meta_alert_notification alert_notification.make alert_notification_default body = Inr pdu"
  shows "alert_notification_ok pdu"
proof (rule deserialize_yields [OF _ _ assms])
  show "yields pdu_meta_alert_notification alert_notification.make alert_notification_ok"
    unfolding pdu_meta_alert_notification_def
    by (rule yield_intros)+ (simp add: alert_notification_ok_def alert_notification.make_def)
  show "alert_notification_ok alert_notification_default"
    by (simp add: alert_notification_ok_def alert_notification_default_def default_members_ok)
qed

lemma alert_notification_serialize_limits:
  "fst (serialize_to pdu_meta_alert_notification vec pdu) = Inr () \<longleftrightarrow> alert_notification_fits pdu"
  by (simp add: serialize_to_def pdu_meta_alert_notification_def alert_notification_fits_def serialize_simps)

subsection \<open>generic_nack.hpp\<close>

datatype generic_nack = Generic_nack

definition generic_nack_command_id :: command_id where [pdu_defs]:
  "generic_nack_command_id = command_id_generic_nack"

definition generic_nack_default :: generic_nack where [pdu_defs]:
  "generic_nack_default = Generic_nack"

definition pdu_meta_generic_nack :: "(generic_nack, generic_nack, generic_nack) pdu_meta" where [pdu_defs]:
  "pdu_meta_generic_nack =
     tuple_nil"

lemma generic_nack_rt: "round_trips pdu_meta_generic_nack pdu Generic_nack pdu (\<lambda>rest. True) []"
  unfolding pdu_meta_generic_nack_def by (rule rt_nil) (cases pdu, simp)

end
