(* ===== verification/Pdu_Variant.thy ===== *)
theory Pdu_Variant
  imports Pdu_Bind Pdu_Message Pdu_Manage
begin

text \<open>
  \<open>include/smpp/net/pdu_variant.hpp\<close> and \<open>invalid_pdu.hpp\<close>: the variant a session delivers, and the
  choice of the PDU type by \<open>command_id\<close> in \<open>session::receive_op\<close> (a fold over the alternatives of
  the variant that stops at the first one with this \<open>command_id\<close>). A body that does not deserialize, or
  a \<open>command_id\<close> no alternative has, becomes an \<open>invalid_pdu\<close> with the octets of the whole PDU.

  The functions \<open>pdu_command_id\<close> and \<open>pdu_serialize_to\<close> are the instances of the static member and
  of the template \<open>serialize_to\<close> for each alternative; \<open>invalid_pdu\<close> has neither.
\<close>

record invalid_pdu =
  buffer :: octets
  deserialization_error :: string

datatype pdu_variant =
  Pdu_alert_notification alert_notification
| Pdu_bind_receiver bind_receiver
| Pdu_bind_receiver_resp bind_receiver_resp
| Pdu_bind_transceiver bind_transceiver
| Pdu_bind_transceiver_resp bind_transceiver_resp
| Pdu_bind_transmitter bind_transmitter
| Pdu_bind_transmitter_resp bind_transmitter_resp
| Pdu_cancel_sm cancel_sm
| Pdu_cancel_sm_resp cancel_sm_resp
| Pdu_data_sm data_sm
| Pdu_data_sm_resp data_sm_resp
| Pdu_deliver_sm deliver_sm
| Pdu_deliver_sm_resp deliver_sm_resp
| Pdu_generic_nack generic_nack
| Pdu_outbind outbind
| Pdu_query_sm query_sm
| Pdu_query_sm_resp query_sm_resp
| Pdu_replace_sm replace_sm
| Pdu_replace_sm_resp replace_sm_resp
| Pdu_submit_sm submit_sm
| Pdu_submit_sm_resp submit_sm_resp
| Pdu_invalid_pdu invalid_pdu

subsection \<open>Sending: one instance of \<open>serialize_to\<close> for each alternative\<close>

fun pdu_command_id :: "pdu_variant \<Rightarrow> command_id option" where
  "pdu_command_id (Pdu_alert_notification _) = Some alert_notification_command_id"
| "pdu_command_id (Pdu_bind_receiver _) = Some bind_receiver_command_id"
| "pdu_command_id (Pdu_bind_receiver_resp _) = Some bind_receiver_resp_command_id"
| "pdu_command_id (Pdu_bind_transceiver _) = Some bind_transceiver_command_id"
| "pdu_command_id (Pdu_bind_transceiver_resp _) = Some bind_transceiver_resp_command_id"
| "pdu_command_id (Pdu_bind_transmitter _) = Some bind_transmitter_command_id"
| "pdu_command_id (Pdu_bind_transmitter_resp _) = Some bind_transmitter_resp_command_id"
| "pdu_command_id (Pdu_cancel_sm _) = Some cancel_sm_command_id"
| "pdu_command_id (Pdu_cancel_sm_resp _) = Some cancel_sm_resp_command_id"
| "pdu_command_id (Pdu_data_sm _) = Some data_sm_command_id"
| "pdu_command_id (Pdu_data_sm_resp _) = Some data_sm_resp_command_id"
| "pdu_command_id (Pdu_deliver_sm _) = Some deliver_sm_command_id"
| "pdu_command_id (Pdu_deliver_sm_resp _) = Some deliver_sm_resp_command_id"
| "pdu_command_id (Pdu_generic_nack _) = Some generic_nack_command_id"
| "pdu_command_id (Pdu_outbind _) = Some outbind_command_id"
| "pdu_command_id (Pdu_query_sm _) = Some query_sm_command_id"
| "pdu_command_id (Pdu_query_sm_resp _) = Some query_sm_resp_command_id"
| "pdu_command_id (Pdu_replace_sm _) = Some replace_sm_command_id"
| "pdu_command_id (Pdu_replace_sm_resp _) = Some replace_sm_resp_command_id"
| "pdu_command_id (Pdu_submit_sm _) = Some submit_sm_command_id"
| "pdu_command_id (Pdu_submit_sm_resp _) = Some submit_sm_resp_command_id"
| "pdu_command_id (Pdu_invalid_pdu _) = None"

fun pdu_serialize_to :: "octets \<Rightarrow> pdu_variant \<Rightarrow> (unit, octets) outcome" where
  "pdu_serialize_to vec (Pdu_alert_notification pdu) = serialize_to pdu_meta_alert_notification vec pdu"
| "pdu_serialize_to vec (Pdu_bind_receiver pdu) = serialize_to pdu_meta_bind_receiver vec pdu"
| "pdu_serialize_to vec (Pdu_bind_receiver_resp pdu) = serialize_to pdu_meta_bind_receiver_resp vec pdu"
| "pdu_serialize_to vec (Pdu_bind_transceiver pdu) = serialize_to pdu_meta_bind_transceiver vec pdu"
| "pdu_serialize_to vec (Pdu_bind_transceiver_resp pdu) = serialize_to pdu_meta_bind_transceiver_resp vec pdu"
| "pdu_serialize_to vec (Pdu_bind_transmitter pdu) = serialize_to pdu_meta_bind_transmitter vec pdu"
| "pdu_serialize_to vec (Pdu_bind_transmitter_resp pdu) = serialize_to pdu_meta_bind_transmitter_resp vec pdu"
| "pdu_serialize_to vec (Pdu_cancel_sm pdu) = serialize_to pdu_meta_cancel_sm vec pdu"
| "pdu_serialize_to vec (Pdu_cancel_sm_resp pdu) = serialize_to pdu_meta_cancel_sm_resp vec pdu"
| "pdu_serialize_to vec (Pdu_data_sm pdu) = serialize_to pdu_meta_data_sm vec pdu"
| "pdu_serialize_to vec (Pdu_data_sm_resp pdu) = serialize_to pdu_meta_data_sm_resp vec pdu"
| "pdu_serialize_to vec (Pdu_deliver_sm pdu) = serialize_to pdu_meta_deliver_sm vec pdu"
| "pdu_serialize_to vec (Pdu_deliver_sm_resp pdu) = serialize_to pdu_meta_deliver_sm_resp vec pdu"
| "pdu_serialize_to vec (Pdu_generic_nack pdu) = serialize_to pdu_meta_generic_nack vec pdu"
| "pdu_serialize_to vec (Pdu_outbind pdu) = serialize_to pdu_meta_outbind vec pdu"
| "pdu_serialize_to vec (Pdu_query_sm pdu) = serialize_to pdu_meta_query_sm vec pdu"
| "pdu_serialize_to vec (Pdu_query_sm_resp pdu) = serialize_to pdu_meta_query_sm_resp vec pdu"
| "pdu_serialize_to vec (Pdu_replace_sm pdu) = serialize_to pdu_meta_replace_sm vec pdu"
| "pdu_serialize_to vec (Pdu_replace_sm_resp pdu) = serialize_to pdu_meta_replace_sm_resp vec pdu"
| "pdu_serialize_to vec (Pdu_submit_sm pdu) = serialize_to pdu_meta_submit_sm vec pdu"
| "pdu_serialize_to vec (Pdu_submit_sm_resp pdu) = serialize_to pdu_meta_submit_sm_resp vec pdu"
| "pdu_serialize_to vec (Pdu_invalid_pdu _) = (Inr (), vec)"

subsection \<open>Receiving: the alternative is chosen by its \<open>command_id\<close>\<close>

definition alternative :: "('p \<Rightarrow> pdu_variant) \<Rightarrow> exn + 'p \<Rightarrow> exn + pdu_variant" where
  "alternative inject result = (case result of Inl e \<Rightarrow> Inl e | Inr pdu \<Rightarrow> Inr (inject pdu))"

definition alternatives :: "(command_id \<times> (octets \<Rightarrow> exn + pdu_variant)) list" where
  "alternatives = [
     (alert_notification_command_id, \<lambda>body. alternative Pdu_alert_notification
        (deserialize pdu_meta_alert_notification alert_notification.make alert_notification_default body)),
     (bind_receiver_command_id, \<lambda>body. alternative Pdu_bind_receiver
        (deserialize pdu_meta_bind_receiver bind_receiver.make bind_receiver_default body)),
     (bind_receiver_resp_command_id, \<lambda>body. alternative Pdu_bind_receiver_resp
        (deserialize pdu_meta_bind_receiver_resp bind_receiver_resp.make bind_receiver_resp_default body)),
     (bind_transceiver_command_id, \<lambda>body. alternative Pdu_bind_transceiver
        (deserialize pdu_meta_bind_transceiver bind_transceiver.make bind_transceiver_default body)),
     (bind_transceiver_resp_command_id, \<lambda>body. alternative Pdu_bind_transceiver_resp
        (deserialize pdu_meta_bind_transceiver_resp bind_transceiver_resp.make bind_transceiver_resp_default body)),
     (bind_transmitter_command_id, \<lambda>body. alternative Pdu_bind_transmitter
        (deserialize pdu_meta_bind_transmitter bind_transmitter.make bind_transmitter_default body)),
     (bind_transmitter_resp_command_id, \<lambda>body. alternative Pdu_bind_transmitter_resp
        (deserialize pdu_meta_bind_transmitter_resp bind_transmitter_resp.make bind_transmitter_resp_default body)),
     (cancel_sm_command_id, \<lambda>body. alternative Pdu_cancel_sm
        (deserialize pdu_meta_cancel_sm cancel_sm.make cancel_sm_default body)),
     (cancel_sm_resp_command_id, \<lambda>body. alternative Pdu_cancel_sm_resp
        (deserialize pdu_meta_cancel_sm_resp Cancel_sm_resp cancel_sm_resp_default body)),
     (data_sm_command_id, \<lambda>body. alternative Pdu_data_sm
        (deserialize pdu_meta_data_sm data_sm.make data_sm_default body)),
     (data_sm_resp_command_id, \<lambda>body. alternative Pdu_data_sm_resp
        (deserialize pdu_meta_data_sm_resp data_sm_resp.make data_sm_resp_default body)),
     (deliver_sm_command_id, \<lambda>body. alternative Pdu_deliver_sm
        (deserialize pdu_meta_deliver_sm deliver_sm.make deliver_sm_default body)),
     (deliver_sm_resp_command_id, \<lambda>body. alternative Pdu_deliver_sm_resp
        (deserialize pdu_meta_deliver_sm_resp deliver_sm_resp.make deliver_sm_resp_default body)),
     (generic_nack_command_id, \<lambda>body. alternative Pdu_generic_nack
        (deserialize pdu_meta_generic_nack Generic_nack generic_nack_default body)),
     (outbind_command_id, \<lambda>body. alternative Pdu_outbind
        (deserialize pdu_meta_outbind outbind.make outbind_default body)),
     (query_sm_command_id, \<lambda>body. alternative Pdu_query_sm
        (deserialize pdu_meta_query_sm query_sm.make query_sm_default body)),
     (query_sm_resp_command_id, \<lambda>body. alternative Pdu_query_sm_resp
        (deserialize pdu_meta_query_sm_resp query_sm_resp.make query_sm_resp_default body)),
     (replace_sm_command_id, \<lambda>body. alternative Pdu_replace_sm
        (deserialize pdu_meta_replace_sm replace_sm.make replace_sm_default body)),
     (replace_sm_resp_command_id, \<lambda>body. alternative Pdu_replace_sm_resp
        (deserialize pdu_meta_replace_sm_resp Replace_sm_resp replace_sm_resp_default body)),
     (submit_sm_command_id, \<lambda>body. alternative Pdu_submit_sm
        (deserialize pdu_meta_submit_sm submit_sm.make submit_sm_default body)),
     (submit_sm_resp_command_id, \<lambda>body. alternative Pdu_submit_sm_resp
        (deserialize pdu_meta_submit_sm_resp submit_sm_resp.make submit_sm_resp_default body))]"

fun try_alternatives ::
    "(command_id \<times> (octets \<Rightarrow> exn + pdu_variant)) list \<Rightarrow> command_id \<Rightarrow> octets \<Rightarrow> exn + pdu_variant" where
  "try_alternatives [] command_id body = Inl (Logic_error ''Unknown PDU'')"
| "try_alternatives ((c, d) # alts) command_id body =
     (if command_id = c then d body else try_alternatives alts command_id body)"

definition deserialize_alternative :: "command_id \<Rightarrow> octets \<Rightarrow> exn + pdu_variant" where
  "deserialize_alternative = try_alternatives alternatives"

text \<open>The \<open>try\<close> block with its handler: \<open>frame\<close> is the PDU with its 16 octets of header.\<close>

definition decode_pdu :: "command_id \<Rightarrow> octets \<Rightarrow> pdu_variant" where
  "decode_pdu command_id frame =
     (case deserialize_alternative command_id (drop 16 frame) of
        Inr pdu \<Rightarrow> pdu
      | Inl e \<Rightarrow> Pdu_invalid_pdu \<lparr>buffer = frame, deserialization_error = what e\<rparr>)"

subsection \<open>What survives the wire\<close>

fun pdu_ok :: "pdu_variant \<Rightarrow> bool" where
  "pdu_ok (Pdu_alert_notification pdu) = alert_notification_ok pdu"
| "pdu_ok (Pdu_bind_receiver pdu) = bind_receiver_ok pdu"
| "pdu_ok (Pdu_bind_receiver_resp pdu) = bind_receiver_resp_ok pdu"
| "pdu_ok (Pdu_bind_transceiver pdu) = bind_transceiver_ok pdu"
| "pdu_ok (Pdu_bind_transceiver_resp pdu) = bind_transceiver_resp_ok pdu"
| "pdu_ok (Pdu_bind_transmitter pdu) = bind_transmitter_ok pdu"
| "pdu_ok (Pdu_bind_transmitter_resp pdu) = bind_transmitter_resp_ok pdu"
| "pdu_ok (Pdu_cancel_sm pdu) = cancel_sm_ok pdu"
| "pdu_ok (Pdu_cancel_sm_resp pdu) = True"
| "pdu_ok (Pdu_data_sm pdu) = data_sm_ok pdu"
| "pdu_ok (Pdu_data_sm_resp pdu) = data_sm_resp_ok pdu"
| "pdu_ok (Pdu_deliver_sm pdu) = deliver_sm_ok pdu"
| "pdu_ok (Pdu_deliver_sm_resp pdu) = deliver_sm_resp_ok pdu"
| "pdu_ok (Pdu_generic_nack pdu) = True"
| "pdu_ok (Pdu_outbind pdu) = outbind_ok pdu"
| "pdu_ok (Pdu_query_sm pdu) = query_sm_ok pdu"
| "pdu_ok (Pdu_query_sm_resp pdu) = query_sm_resp_ok pdu"
| "pdu_ok (Pdu_replace_sm pdu) = replace_sm_ok pdu"
| "pdu_ok (Pdu_replace_sm_resp pdu) = True"
| "pdu_ok (Pdu_submit_sm pdu) = submit_sm_ok pdu"
| "pdu_ok (Pdu_submit_sm_resp pdu) = submit_sm_resp_ok pdu"
| "pdu_ok (Pdu_invalid_pdu _) = False"

fun pdu_fits :: "pdu_variant \<Rightarrow> bool" where
  "pdu_fits (Pdu_alert_notification pdu) = alert_notification_fits pdu"
| "pdu_fits (Pdu_bind_receiver pdu) = bind_receiver_fits pdu"
| "pdu_fits (Pdu_bind_receiver_resp pdu) = bind_receiver_resp_fits pdu"
| "pdu_fits (Pdu_bind_transceiver pdu) = bind_transceiver_fits pdu"
| "pdu_fits (Pdu_bind_transceiver_resp pdu) = bind_transceiver_resp_fits pdu"
| "pdu_fits (Pdu_bind_transmitter pdu) = bind_transmitter_fits pdu"
| "pdu_fits (Pdu_bind_transmitter_resp pdu) = bind_transmitter_resp_fits pdu"
| "pdu_fits (Pdu_cancel_sm pdu) = cancel_sm_fits pdu"
| "pdu_fits (Pdu_cancel_sm_resp pdu) = True"
| "pdu_fits (Pdu_data_sm pdu) = data_sm_fits pdu"
| "pdu_fits (Pdu_data_sm_resp pdu) = data_sm_resp_fits pdu"
| "pdu_fits (Pdu_deliver_sm pdu) = deliver_sm_fits pdu"
| "pdu_fits (Pdu_deliver_sm_resp pdu) = deliver_sm_resp_fits pdu"
| "pdu_fits (Pdu_generic_nack pdu) = True"
| "pdu_fits (Pdu_outbind pdu) = outbind_fits pdu"
| "pdu_fits (Pdu_query_sm pdu) = query_sm_fits pdu"
| "pdu_fits (Pdu_query_sm_resp pdu) = query_sm_resp_fits pdu"
| "pdu_fits (Pdu_replace_sm pdu) = replace_sm_fits pdu"
| "pdu_fits (Pdu_replace_sm_resp pdu) = True"
| "pdu_fits (Pdu_submit_sm pdu) = submit_sm_fits pdu"
| "pdu_fits (Pdu_submit_sm_resp pdu) = submit_sm_resp_fits pdu"
| "pdu_fits (Pdu_invalid_pdu _) = True"

lemmas command_id_defs =
  alert_notification_command_id_def
  bind_receiver_command_id_def
  bind_receiver_resp_command_id_def
  bind_transceiver_command_id_def
  bind_transceiver_resp_command_id_def
  bind_transmitter_command_id_def
  bind_transmitter_resp_command_id_def
  cancel_sm_command_id_def
  cancel_sm_resp_command_id_def
  data_sm_command_id_def
  data_sm_resp_command_id_def
  deliver_sm_command_id_def
  deliver_sm_resp_command_id_def
  generic_nack_command_id_def
  outbind_command_id_def
  query_sm_command_id_def
  query_sm_resp_command_id_def
  replace_sm_command_id_def
  replace_sm_resp_command_id_def
  submit_sm_command_id_def
  submit_sm_resp_command_id_def

lemmas pdu_rts =
  alert_notification_rt
  bind_receiver_rt
  bind_receiver_resp_rt
  bind_transceiver_rt
  bind_transceiver_resp_rt
  bind_transmitter_rt
  bind_transmitter_resp_rt
  cancel_sm_rt
  data_sm_rt
  data_sm_resp_rt
  deliver_sm_rt
  deliver_sm_resp_rt
  outbind_rt
  query_sm_rt
  query_sm_resp_rt
  replace_sm_rt
  submit_sm_rt
  submit_sm_resp_rt

lemmas pdu_parsed_oks =
  alert_notification_parsed_ok
  bind_receiver_parsed_ok
  bind_receiver_resp_parsed_ok
  bind_transceiver_parsed_ok
  bind_transceiver_resp_parsed_ok
  bind_transmitter_parsed_ok
  bind_transmitter_resp_parsed_ok
  cancel_sm_parsed_ok
  data_sm_parsed_ok
  data_sm_resp_parsed_ok
  deliver_sm_parsed_ok
  deliver_sm_resp_parsed_ok
  outbind_parsed_ok
  query_sm_parsed_ok
  query_sm_resp_parsed_ok
  replace_sm_parsed_ok
  submit_sm_parsed_ok
  submit_sm_resp_parsed_ok

lemmas pdu_serialize_limits =
  alert_notification_serialize_limits
  bind_receiver_serialize_limits
  bind_receiver_resp_serialize_limits
  bind_transceiver_serialize_limits
  bind_transceiver_resp_serialize_limits
  bind_transmitter_serialize_limits
  bind_transmitter_resp_serialize_limits
  cancel_sm_serialize_limits
  data_sm_serialize_limits
  data_sm_resp_serialize_limits
  deliver_sm_serialize_limits
  deliver_sm_resp_serialize_limits
  outbind_serialize_limits
  query_sm_serialize_limits
  query_sm_resp_serialize_limits
  replace_sm_serialize_limits
  submit_sm_serialize_limits
  submit_sm_resp_serialize_limits

lemma deserialize_by_command_id:
  "deserialize_alternative alert_notification_command_id body = alternative Pdu_alert_notification
     (deserialize pdu_meta_alert_notification alert_notification.make alert_notification_default body)"
  "deserialize_alternative bind_receiver_command_id body = alternative Pdu_bind_receiver
     (deserialize pdu_meta_bind_receiver bind_receiver.make bind_receiver_default body)"
  "deserialize_alternative bind_receiver_resp_command_id body = alternative Pdu_bind_receiver_resp
     (deserialize pdu_meta_bind_receiver_resp bind_receiver_resp.make bind_receiver_resp_default body)"
  "deserialize_alternative bind_transceiver_command_id body = alternative Pdu_bind_transceiver
     (deserialize pdu_meta_bind_transceiver bind_transceiver.make bind_transceiver_default body)"
  "deserialize_alternative bind_transceiver_resp_command_id body = alternative Pdu_bind_transceiver_resp
     (deserialize pdu_meta_bind_transceiver_resp bind_transceiver_resp.make bind_transceiver_resp_default body)"
  "deserialize_alternative bind_transmitter_command_id body = alternative Pdu_bind_transmitter
     (deserialize pdu_meta_bind_transmitter bind_transmitter.make bind_transmitter_default body)"
  "deserialize_alternative bind_transmitter_resp_command_id body = alternative Pdu_bind_transmitter_resp
     (deserialize pdu_meta_bind_transmitter_resp bind_transmitter_resp.make bind_transmitter_resp_default body)"
  "deserialize_alternative cancel_sm_command_id body = alternative Pdu_cancel_sm
     (deserialize pdu_meta_cancel_sm cancel_sm.make cancel_sm_default body)"
  "deserialize_alternative cancel_sm_resp_command_id body = alternative Pdu_cancel_sm_resp
     (deserialize pdu_meta_cancel_sm_resp Cancel_sm_resp cancel_sm_resp_default body)"
  "deserialize_alternative data_sm_command_id body = alternative Pdu_data_sm
     (deserialize pdu_meta_data_sm data_sm.make data_sm_default body)"
  "deserialize_alternative data_sm_resp_command_id body = alternative Pdu_data_sm_resp
     (deserialize pdu_meta_data_sm_resp data_sm_resp.make data_sm_resp_default body)"
  "deserialize_alternative deliver_sm_command_id body = alternative Pdu_deliver_sm
     (deserialize pdu_meta_deliver_sm deliver_sm.make deliver_sm_default body)"
  "deserialize_alternative deliver_sm_resp_command_id body = alternative Pdu_deliver_sm_resp
     (deserialize pdu_meta_deliver_sm_resp deliver_sm_resp.make deliver_sm_resp_default body)"
  "deserialize_alternative generic_nack_command_id body = alternative Pdu_generic_nack
     (deserialize pdu_meta_generic_nack Generic_nack generic_nack_default body)"
  "deserialize_alternative outbind_command_id body = alternative Pdu_outbind
     (deserialize pdu_meta_outbind outbind.make outbind_default body)"
  "deserialize_alternative query_sm_command_id body = alternative Pdu_query_sm
     (deserialize pdu_meta_query_sm query_sm.make query_sm_default body)"
  "deserialize_alternative query_sm_resp_command_id body = alternative Pdu_query_sm_resp
     (deserialize pdu_meta_query_sm_resp query_sm_resp.make query_sm_resp_default body)"
  "deserialize_alternative replace_sm_command_id body = alternative Pdu_replace_sm
     (deserialize pdu_meta_replace_sm replace_sm.make replace_sm_default body)"
  "deserialize_alternative replace_sm_resp_command_id body = alternative Pdu_replace_sm_resp
     (deserialize pdu_meta_replace_sm_resp Replace_sm_resp replace_sm_resp_default body)"
  "deserialize_alternative submit_sm_command_id body = alternative Pdu_submit_sm
     (deserialize pdu_meta_submit_sm submit_sm.make submit_sm_default body)"
  "deserialize_alternative submit_sm_resp_command_id body = alternative Pdu_submit_sm_resp
     (deserialize pdu_meta_submit_sm_resp submit_sm_resp.make submit_sm_resp_default body)"
  by (simp_all add: deserialize_alternative_def alternatives_def command_id_defs enum_values)

lemma serialize_empty_pdus:
  "serialize_to pdu_meta_cancel_sm_resp vec (p0) = (Inr (), vec)"
  "serialize_to pdu_meta_generic_nack vec (p1) = (Inr (), vec)"
  "serialize_to pdu_meta_replace_sm_resp vec (p2) = (Inr (), vec)"
  by (simp_all add: serialize_to_def serialize_nil pdu_meta_cancel_sm_resp_def pdu_meta_generic_nack_def pdu_meta_replace_sm_resp_def)

lemma empty_pdus_equal [simp]:
  "(a :: cancel_sm_resp) = b" "(c :: generic_nack) = d" "(e :: replace_sm_resp) = f"
  by (cases a; cases b; cases c; cases d; cases e; cases f; simp)+

lemma pdu_serialize_fits: "fst (pdu_serialize_to vec pdu) = Inr () \<longleftrightarrow> pdu_fits pdu"
  by (cases pdu) (simp_all add: pdu_serialize_limits serialize_empty_pdus)

lemma pdu_metas_append:
  "appends pdu_meta_alert_notification"
  "appends pdu_meta_bind_receiver"
  "appends pdu_meta_bind_receiver_resp"
  "appends pdu_meta_bind_transceiver"
  "appends pdu_meta_bind_transceiver_resp"
  "appends pdu_meta_bind_transmitter"
  "appends pdu_meta_bind_transmitter_resp"
  "appends pdu_meta_cancel_sm"
  "appends pdu_meta_cancel_sm_resp"
  "appends pdu_meta_data_sm"
  "appends pdu_meta_data_sm_resp"
  "appends pdu_meta_deliver_sm"
  "appends pdu_meta_deliver_sm_resp"
  "appends pdu_meta_generic_nack"
  "appends pdu_meta_outbind"
  "appends pdu_meta_query_sm"
  "appends pdu_meta_query_sm_resp"
  "appends pdu_meta_replace_sm"
  "appends pdu_meta_replace_sm_resp"
  "appends pdu_meta_submit_sm"
  "appends pdu_meta_submit_sm_resp"
  by (simp_all add: pdu_defs)

lemma pdu_serialize_appends: "prefix vec (snd (pdu_serialize_to vec pdu))"
  using pdu_metas_append by (cases pdu) (simp_all add: serialize_to_def appends_def)

lemma try_alternatives_unknown:
  "cid \<notin> fst ` set alts \<Longrightarrow> try_alternatives alts cid body = Inl (Logic_error ''Unknown PDU'')"
  by (induction alts cid body rule: try_alternatives.induct) auto

lemma try_alternatives_command:
  assumes "try_alternatives alts cid body = Inr pdu"
    and "\<And>c d body pdu. (c, d) \<in> set alts \<Longrightarrow> d body = Inr pdu \<Longrightarrow> pdu_command_id pdu = Some c"
  shows "pdu_command_id pdu = Some cid"
  using assms
  by (induction alts cid body rule: try_alternatives.induct) (auto split: if_splits)

lemma deserialize_alternative_command:
  assumes "deserialize_alternative cid body = Inr pdu"
  shows "pdu_command_id pdu = Some cid"
  using assms unfolding deserialize_alternative_def
  by (rule try_alternatives_command)
    (auto simp: alternatives_def alternative_def split: sum.splits)

lemma try_alternatives_result:
  assumes "try_alternatives alts cid body = Inr pdu"
    and "\<And>c d body pdu. (c, d) \<in> set alts \<Longrightarrow> d body = Inr pdu \<Longrightarrow> Q pdu"
  shows "Q pdu"
  using assms
  by (induction alts cid body rule: try_alternatives.induct) (auto split: if_splits)

lemma deserialize_alternative_ok:
  assumes "deserialize_alternative cid body = Inr pdu"
  shows "pdu_ok pdu"
  using assms unfolding deserialize_alternative_def
  by (rule try_alternatives_result)
    (auto simp: alternatives_def alternative_def pdu_parsed_oks split: sum.splits)

lemma alternative_rt:
  assumes "\<exists>bs. round_trips meta pdu init pdu stop bs \<and> bs \<noteq> []" "stop []"
  shows "\<exists>bs. (\<forall>vec. serialize_to meta vec pdu = (Inr (), vec @ bs)) \<and>
              alternative inject (deserialize meta init pdu_default bs) = Inr (inject pdu)"
proof -
  from assms(1) obtain bs where rt: "round_trips meta pdu init pdu stop bs" and ne: "bs \<noteq> []" by blast
  have "serialize_to meta vec pdu = (Inr (), vec @ bs)" for vec
    using rt by (simp add: round_trips_def serialize_to_def)
  moreover have "deserialize meta init pdu_default bs = Inr pdu"
    using round_trips_deserialize [OF rt assms(2) ne] .
  ultimately show ?thesis by (auto simp: alternative_def)
qed

lemma pdu_variant_rt:
  assumes "pdu_ok pdu"
  shows "\<exists>bs cid. pdu_command_id pdu = Some cid \<and>
           (\<forall>vec. pdu_serialize_to vec pdu = (Inr (), vec @ bs)) \<and>
           deserialize_alternative cid bs = Inr pdu"
  using assms
  by (cases pdu)
    (simp_all add: deserialize_by_command_id serialize_empty_pdus,
      (rule alternative_rt, erule pdu_rts, simp | simp add: alternative_def deserialize_empty)+)

end
