(* ===== verification/Header.thy ===== *)
theory Header
  imports Common_Types
begin

text \<open>
  \<open>include/smpp/net/detail/header_serialization.hpp\<close>: the 16 octets in front of every PDU, four
  big-endian 32-bit integers (length of the whole PDU, command, status, sequence number).
\<close>

definition header_length :: nat where
  "header_length = 16"

definition deserialize_u32 :: "octets \<Rightarrow> u32" where
  "deserialize_u32 buf = be_u32 (buf ! 0) (buf ! 1) (buf ! 2) (buf ! 3)"

definition deserialize_header :: "octets \<Rightarrow> u32 \<times> command_id \<times> command_status \<times> u32" where
  "deserialize_header header_buf =
     (deserialize_u32 (take 4 header_buf),
      Command_id (deserialize_u32 (take 4 (drop 4 header_buf))),
      Command_status (deserialize_u32 (take 4 (drop 8 header_buf))),
      deserialize_u32 (take 4 (drop 12 header_buf)))"

definition serialize_u32 :: "nat \<Rightarrow> u32 \<Rightarrow> octets \<Rightarrow> octets" where
  "serialize_u32 at val buf =
     buf[at := byte_of 3 val, at + 1 := byte_of 2 val, at + 2 := byte_of 1 val, at + 3 := byte_of 0 val]"

definition serialize_header ::
    "octets \<Rightarrow> u32 \<Rightarrow> command_id \<Rightarrow> u32 \<Rightarrow> command_status \<Rightarrow> octets" where
  "serialize_header header_buf command_length command_id sequence_number command_status =
     serialize_u32 12 sequence_number
       (serialize_u32 8 (command_status_u32 command_status)
         (serialize_u32 4 (command_id_u32 command_id)
           (serialize_u32 0 command_length header_buf)))"

definition u32_octets :: "u32 \<Rightarrow> octets" where
  "u32_octets w = [byte_of 3 w, byte_of 2 w, byte_of 1 w, byte_of 0 w]"

definition header_octets :: "u32 \<Rightarrow> command_id \<Rightarrow> u32 \<Rightarrow> command_status \<Rightarrow> octets" where
  "header_octets len cid seq st =
     u32_octets len @ u32_octets (command_id_u32 cid) @ u32_octets (command_status_u32 st) @ u32_octets seq"

lemma length_u32_octets [simp]: "length (u32_octets w) = 4"
  by (simp add: u32_octets_def)

lemma length_header_octets [simp]: "length (header_octets len cid seq st) = 16"
  by (simp add: header_octets_def)

lemma deserialize_u32_octets [simp]: "deserialize_u32 (u32_octets w) = w"
  by (simp add: deserialize_u32_def u32_octets_def be_u32_bytes [simplified])

lemma u32_octets_deserialize: "length buf = 4 \<Longrightarrow> u32_octets (deserialize_u32 buf) = buf"
proof -
  assume "length buf = 4"
  then obtain a b c d where "buf = [a, b, c, d]" by (auto simp: length_Suc_conv numeral_eq_Suc)
  then show ?thesis by (simp add: u32_octets_def deserialize_u32_def)
qed

lemma serialize_header_octets:
  assumes "length hdr = 16"
  shows "serialize_header (hdr @ body) len cid seq st = header_octets len cid seq st @ body"
proof -
  obtain h0 h1 h2 h3 h4 h5 h6 h7 h8 h9 h10 h11 h12 h13 h14 h15 where
    "hdr = [h0, h1, h2, h3, h4, h5, h6, h7, h8, h9, h10, h11, h12, h13, h14, h15]"
    using assms by (auto simp: length_Suc_conv numeral_eq_Suc)
  then show ?thesis
    by (simp add: serialize_header_def serialize_u32_def header_octets_def u32_octets_def)
qed

lemma deserialize_header_octets:
  "deserialize_header (header_octets len cid seq st @ body) = (len, cid, st, seq)"
  by (simp add: deserialize_header_def header_octets_def)

lemma header_octets_deserialize:
  assumes "length hdr = 16" "deserialize_header hdr = (len, cid, st, seq)"
  shows "header_octets len cid seq st = hdr"
proof -
  have "hdr = take 4 hdr @ take 4 (drop 4 hdr) @ take 4 (drop 8 hdr) @ take 4 (drop 12 hdr)"
    using assms(1) append_take_drop_id [of 4 hdr] append_take_drop_id [of 4 "drop 4 hdr"]
      append_take_drop_id [of 4 "drop 8 hdr"]
    by simp
  moreover have "u32_octets len = take 4 hdr" "u32_octets (command_id_u32 cid) = take 4 (drop 4 hdr)"
    "u32_octets (command_status_u32 st) = take 4 (drop 8 hdr)" "u32_octets seq = take 4 (drop 12 hdr)"
    using assms by (auto simp: deserialize_header_def u32_octets_deserialize)
  ultimately show ?thesis by (simp add: header_octets_def)
qed

end
