(* ===== verification/Flat_Buffer.thy ===== *)
theory Flat_Buffer
  imports Smpp_Prelude
begin

text \<open>
  \<open>include/smpp/net/detail/static_flat_buffer.hpp\<close>: the fixed array the receiver reads into, with its
  three pointers as offsets from \<open>buf_.begin()\<close>. \<open>[in, out)\<close> holds the octets received and not
  yet consumed, \<open>[out, last)\<close> is the region the last \<open>prepare\<close> handed out. The template parameter
  \<open>N\<close> is the length of the array. \<open>memory_write\<close> is what the owner of a \<open>mutable_buffer\<close> (the socket)
  does to the array between \<open>prepare\<close> and \<open>commit\<close>.

  The locale \<open>byte_queue\<close> is the contract of such a buffer as a bounded first-in first-out queue of
  octets; \<open>flat_queue\<close> discharges it, and the receiver rests on it.
\<close>

record flat_buffer =
  fb_array :: octets
  fb_in :: nat
  fb_out :: nat
  fb_last :: nat

definition flat_buffer_new :: "nat \<Rightarrow> flat_buffer" where
  "flat_buffer_new N = \<lparr>fb_array = replicate N 0, fb_in = 0, fb_out = 0, fb_last = 0\<rparr>"

definition fb_clear :: "flat_buffer \<Rightarrow> flat_buffer" where
  "fb_clear b = b\<lparr>fb_in := 0, fb_out := 0, fb_last := 0\<rparr>"

definition fb_capacity :: "flat_buffer \<Rightarrow> nat" where
  "fb_capacity b = length (fb_array b)"

definition fb_size :: "flat_buffer \<Rightarrow> nat" where
  "fb_size b = fb_out b - fb_in b"

definition fb_data :: "flat_buffer \<Rightarrow> octets" where
  "fb_data b = take (fb_out b - fb_in b) (drop (fb_in b) (fb_array b))"

text \<open>The result of \<open>prepare\<close> is the \<open>mutable_buffer\<close>: its offset in the array and its size.\<close>

definition fb_prepare :: "nat \<Rightarrow> flat_buffer \<Rightarrow> (nat \<times> nat, flat_buffer) outcome" where
  "fb_prepare n b =
     (if n \<le> length (fb_array b) - fb_out b
      then (Inr (fb_out b, n), b\<lparr>fb_last := fb_out b + n\<rparr>)
      else let len = fb_size b in
        if fb_capacity b - len < n
        then (Inl (Length_error ''static_flat_buffer::prepare buffer overflow''), b)
        else let moved = (if 0 < len
                          then take len (drop (fb_in b) (fb_array b)) @ drop len (fb_array b)
                          else fb_array b)
          in (Inr (len, n), b\<lparr>fb_array := moved, fb_in := 0, fb_out := len, fb_last := len + n\<rparr>))"

definition fb_commit :: "nat \<Rightarrow> flat_buffer \<Rightarrow> flat_buffer" where
  "fb_commit n b = b\<lparr>fb_out := fb_out b + min n (fb_last b - fb_out b)\<rparr>"

definition fb_consume :: "nat \<Rightarrow> flat_buffer \<Rightarrow> flat_buffer" where
  "fb_consume n b =
     (if fb_size b \<le> n then b\<lparr>fb_in := 0, fb_out := 0\<rparr>
      else b\<lparr>fb_in := fb_in b + n\<rparr>)"

definition memory_write :: "nat \<Rightarrow> octets \<Rightarrow> flat_buffer \<Rightarrow> flat_buffer" where
  "memory_write off bytes b =
     b\<lparr>fb_array := take off (fb_array b) @ bytes @ drop (off + length bytes) (fb_array b)\<rparr>"

lemmas fb_defs =
  fb_capacity_def fb_size_def fb_data_def fb_prepare_def fb_commit_def fb_consume_def
  memory_write_def fb_clear_def flat_buffer_new_def

subsection \<open>Invariant and effect of every operation\<close>

definition fb_inv :: "flat_buffer \<Rightarrow> bool" where
  "fb_inv b \<longleftrightarrow> fb_in b \<le> fb_out b \<and> fb_out b \<le> fb_last b \<and> fb_last b \<le> length (fb_array b)"

lemma length_fb_data: "fb_inv b \<Longrightarrow> length (fb_data b) = fb_size b"
  by (auto simp: fb_inv_def fb_defs)

lemma fb_size_le: "fb_inv b \<Longrightarrow> fb_size b \<le> fb_capacity b"
  by (auto simp: fb_inv_def fb_defs)

lemma fb_new: "fb_inv (flat_buffer_new N)" "fb_data (flat_buffer_new N) = []"
    "fb_capacity (flat_buffer_new N) = N"
  by (simp_all add: fb_inv_def fb_defs)

lemma fb_clear_effect:
  "fb_inv (fb_clear b)" "fb_data (fb_clear b) = []" "fb_capacity (fb_clear b) = fb_capacity b"
  by (simp_all add: fb_inv_def fb_defs)

lemma fb_prepare_effect:
  assumes "fb_inv b" "fb_prepare n b = (Inr (off, len), b')"
  shows "fb_inv b' \<and> fb_data b' = fb_data b \<and> fb_capacity b' = fb_capacity b \<and>
         off = fb_out b' \<and> len = n \<and> fb_last b' = off + n"
  using assms by (auto simp: fb_inv_def fb_defs Let_def split: if_splits)

lemma fb_prepare_throws:
  "fb_inv b \<Longrightarrow> fb_prepare n b = (Inl e, b') \<Longrightarrow> b' = b \<and> fb_capacity b - fb_size b < n"
  by (auto simp: fb_inv_def fb_defs Let_def split: if_splits)

lemma fb_prepare_fits:
  assumes "fb_inv b" "n \<le> fb_capacity b - fb_size b"
  obtains off b' where "fb_prepare n b = (Inr (off, n), b')"
  using assms by (fastforce simp: fb_inv_def fb_defs Let_def split: if_splits)

lemma fb_written_split:
  assumes "fb_inv b"
  shows "take (fb_out b) (fb_array b) = take (fb_in b) (fb_array b) @ fb_data b"
proof -
  have "fb_out b = fb_in b + (fb_out b - fb_in b)" using assms by (simp add: fb_inv_def)
  then show ?thesis by (metis fb_data_def take_add)
qed

lemma fb_write_commit:
  assumes "fb_inv b" "length bytes \<le> fb_last b - fb_out b"
  shows "fb_inv (fb_commit (length bytes) (memory_write (fb_out b) bytes b))" (is "fb_inv ?b")
    and "fb_data (fb_commit (length bytes) (memory_write (fb_out b) bytes b)) = fb_data b @ bytes"
    and "fb_capacity (fb_commit (length bytes) (memory_write (fb_out b) bytes b)) = fb_capacity b"
proof -
  have bounds: "fb_in b \<le> fb_out b" "fb_out b + length bytes \<le> length (fb_array b)"
    using assms by (auto simp: fb_inv_def)
  have len: "length (take (fb_in b) (fb_array b)) = fb_in b"
    "length (fb_data b) = fb_out b - fb_in b"
    using assms by (auto simp: fb_inv_def fb_data_def)
  have array: "fb_array ?b = take (fb_in b) (fb_array b) @ fb_data b @ bytes
      @ drop (fb_out b + length bytes) (fb_array b)"
    by (simp add: fb_commit_def memory_write_def fb_written_split [OF assms(1)])
  have ends: "fb_in ?b = fb_in b" "fb_out ?b = fb_out b + length bytes" "fb_last ?b = fb_last b"
    using assms by (simp_all add: fb_commit_def memory_write_def)
  have "length (fb_array ?b) = length (fb_array b)"
    using bounds by (simp add: fb_commit_def memory_write_def)
  then show "fb_inv ?b" and "fb_capacity ?b = fb_capacity b"
    using assms ends by (auto simp: fb_inv_def fb_capacity_def)
  have "drop (fb_in b) (fb_array ?b) = fb_data b @ bytes
      @ drop (fb_out b + length bytes) (fb_array b)"
    unfolding array using len(1) by simp
  moreover have "fb_out b + length bytes - fb_in b = length (fb_data b @ bytes)"
    using bounds len by simp
  ultimately show "fb_data ?b = fb_data b @ bytes"
    unfolding fb_data_def [of ?b] ends by (simp add: len)
qed

lemma fb_commit_inv: "fb_inv b \<Longrightarrow> fb_inv (fb_commit n b)"
  by (auto simp: fb_inv_def fb_defs)

lemma fb_consume_effect:
  assumes "fb_inv b"
  shows "fb_inv (fb_consume n b)" "fb_data (fb_consume n b) = drop n (fb_data b)"
    "fb_capacity (fb_consume n b) = fb_capacity b"
  using assms by (auto simp: fb_inv_def fb_defs drop_take add.commute)

subsection \<open>The buffer as a bounded queue of octets\<close>

locale byte_queue =
  fixes contents :: "'b \<Rightarrow> octets"
    and capacity :: "'b \<Rightarrow> nat"
    and invar :: "'b \<Rightarrow> bool"
    and arrive :: "octets \<Rightarrow> 'b \<Rightarrow> 'b"
    and consume :: "nat \<Rightarrow> 'b \<Rightarrow> 'b"
  assumes bounded: "invar b \<Longrightarrow> length (contents b) \<le> capacity b"
    and contents_arrive: "invar b \<Longrightarrow> length bytes \<le> capacity b - length (contents b) \<Longrightarrow>
      contents (arrive bytes b) = contents b @ bytes"
    and contents_consume: "invar b \<Longrightarrow> contents (consume n b) = drop n (contents b)"
    and invar_arrive: "invar b \<Longrightarrow> length bytes \<le> capacity b - length (contents b) \<Longrightarrow>
      invar (arrive bytes b)"
    and invar_consume: "invar b \<Longrightarrow> invar (consume n b)"
    and capacity_arrive: "invar b \<Longrightarrow> length bytes \<le> capacity b - length (contents b) \<Longrightarrow>
      capacity (arrive bytes b) = capacity b"
    and capacity_consume: "invar b \<Longrightarrow> capacity (consume n b) = capacity b"
begin

lemmas queue_simps = contents_arrive contents_consume invar_arrive invar_consume
  capacity_arrive capacity_consume

text \<open>
  Octets come out in the order they went in: a run of arrivals and consumptions, each consumption of
  octets that are there and each arrival within the free space, keeps
  \<open>consumed @ contents = everything that arrived\<close>.
\<close>

fun run :: "(octets + nat) list \<Rightarrow> octets \<times> 'b \<Rightarrow> octets \<times> 'b" where
  "run [] (out, b) = (out, b)"
| "run (Inl bytes # es) (out, b) = run es (out, arrive bytes b)"
| "run (Inr n # es) (out, b) = run es (out @ take n (contents b), consume n b)"

fun admissible :: "(octets + nat) list \<Rightarrow> 'b \<Rightarrow> bool" where
  "admissible [] b \<longleftrightarrow> True"
| "admissible (Inl bytes # es) b \<longleftrightarrow>
     length bytes \<le> capacity b - length (contents b) \<and> admissible es (arrive bytes b)"
| "admissible (Inr n # es) b \<longleftrightarrow> admissible es (consume n b)"

definition arrivals :: "(octets + nat) list \<Rightarrow> octets" where
  "arrivals es = concat (map (\<lambda>e. case e of Inl bytes \<Rightarrow> bytes | Inr _ \<Rightarrow> []) es)"

lemma run_fifo:
  "invar b \<Longrightarrow> admissible es b \<Longrightarrow> run es (out, b) = (out', b') \<Longrightarrow>
     invar b' \<and> capacity b' = capacity b \<and> out' @ contents b' = out @ contents b @ arrivals es"
proof (induction es "(out, b)" arbitrary: out b rule: run.induct)
  case (2 bytes es out b)
  then show ?case by (simp add: queue_simps arrivals_def)
next
  case (3 n es out b)
  then have "out' @ contents b' = (out @ take n (contents b)) @ contents (consume n b) @ arrivals es"
    by (simp add: queue_simps)
  also have "\<dots> = out @ (take n (contents b) @ drop n (contents b)) @ arrivals es"
    using 3 by (simp add: queue_simps)
  finally show ?case using 3 by (simp add: queue_simps arrivals_def)
qed (simp add: arrivals_def)

end

text \<open>One arrival as the receiver does it: prepare the whole free space, let the socket write, commit.\<close>

definition fb_arrive :: "octets \<Rightarrow> flat_buffer \<Rightarrow> flat_buffer" where
  "fb_arrive bytes b =
     (case fb_prepare (fb_capacity b - fb_size b) b of
        (Inr (off, n), b) \<Rightarrow> fb_commit (length bytes) (memory_write off bytes b)
      | (Inl e, b) \<Rightarrow> b)"

lemma fb_arrive_effect:
  assumes "fb_inv b" "length bytes \<le> fb_capacity b - fb_size b"
  shows "fb_inv (fb_arrive bytes b)" "fb_data (fb_arrive bytes b) = fb_data b @ bytes"
    "fb_capacity (fb_arrive bytes b) = fb_capacity b"
proof -
  obtain off b' where p: "fb_prepare (fb_capacity b - fb_size b) b = (Inr (off, fb_capacity b - fb_size b), b')"
    using fb_prepare_fits [OF assms(1) order_refl] .
  then have "fb_inv b'" "fb_data b' = fb_data b" "fb_capacity b' = fb_capacity b" "off = fb_out b'"
    "fb_last b' = off + (fb_capacity b - fb_size b)"
    using fb_prepare_effect [OF assms(1) p] by auto
  then show "fb_inv (fb_arrive bytes b)" "fb_data (fb_arrive bytes b) = fb_data b @ bytes"
    "fb_capacity (fb_arrive bytes b) = fb_capacity b"
    using fb_write_commit [of b' bytes] assms(2) by (auto simp: fb_arrive_def p)
qed

interpretation flat_queue: byte_queue fb_data fb_capacity fb_inv fb_arrive fb_consume
  by unfold_locales (simp_all add: length_fb_data fb_size_le fb_arrive_effect fb_consume_effect)

end
