(* ===== verification/Session.thy ===== *)
theory Session
  imports Pdu_Variant Header Flat_Buffer
begin

text \<open>
  The state of \<open>include/smpp/net/session.hpp\<close>, its constructor, \<open>next_sequence_number\<close> and
  \<open>shutdown_socket\<close>, and the errors of \<open>include/smpp/net/error.hpp\<close>.

  \<open>error_code\<close> stands for \<open>boost::system::error_code\<close>: no error, the library's own errors, and the
  codes Asio delivers, of which the session only tells \<open>operation_aborted\<close> from the others
  (\<open>Network_error n\<close>). Of the socket the session knows that it is open; the octets go through the
  operations of \<open>Session_Send\<close> and \<open>Session_Receive\<close>. \<open>send_cv\<close> is the timer that never expires and
  serves as a condition variable: the queue of the operations that wait on it, first come first.
\<close>

subsection \<open>error.hpp\<close>

datatype error = Error (error_value: int)

definition error_serialization_failed :: error where [enum_values]: "error_serialization_failed = Error 1"
definition error_enquire_link_timeout :: error where [enum_values]: "error_enquire_link_timeout = Error 2"
definition error_unbinded :: error where [enum_values]: "error_unbinded = Error 3"

datatype error_code = No_error | Operation_aborted | Network_error nat | Smpp_error error

definition error_category_name :: string where
  "error_category_name = ''smpp''"

definition error_category_message :: "int \<Rightarrow> string" where
  "error_category_message ev =
     (if Error ev = error_serialization_failed then ''PDU serialization failed''
      else if Error ev = error_enquire_link_timeout then ''enquire_link timeout''
      else if Error ev = error_unbinded then ''unbinded''
      else ''Unknown error'')"

definition make_error_code :: "error \<Rightarrow> error_code" where
  "make_error_code e = Smpp_error e"

text \<open>\<open>if(ec)\<close>: the code is a failure.\<close>

fun failed :: "error_code \<Rightarrow> bool" where
  "failed No_error = False"
| "failed (Smpp_error e) = (error_value e \<noteq> 0)"
| "failed _ = True"

subsection \<open>State and constructor\<close>

record session =
  receive_buf :: flat_buffer
  send_buf :: octets
  send_cv :: "nat list"
  enquire_link_interval :: nat
  sequence_number :: u32
  socket_open :: bool

definition session_new :: "nat \<Rightarrow> session" where
  "session_new interval =
     \<lparr>receive_buf = flat_buffer_new (128 * 1024),
      send_buf = [],
      send_cv = [],
      enquire_link_interval = interval,
      sequence_number = 0,
      socket_open = True\<rparr>"

definition next_sequence_number :: "session \<Rightarrow> u32 \<times> session" where
  "next_sequence_number s =
     (let n = sequence_number s + 1;
          n = (if n > 0x7FFFFFFF then 1 else n)
      in (n, s\<lparr>sequence_number := n\<rparr>))"

definition shutdown_socket :: "session \<Rightarrow> session" where
  "shutdown_socket s = s\<lparr>socket_open := False\<rparr>"

subsection \<open>Sequence numbers\<close>

definition sequence_inv :: "session \<Rightarrow> bool" where
  "sequence_inv s \<longleftrightarrow> sequence_number s \<le> 0x7FFFFFFF"

fun take_sequence_numbers :: "nat \<Rightarrow> session \<Rightarrow> u32 list \<times> session" where
  "take_sequence_numbers 0 s = ([], s)"
| "take_sequence_numbers (Suc k) s =
     (let (n, s) = next_sequence_number s; (ns, s) = take_sequence_numbers k s in (n # ns, s))"

lemma unat_le_7FFFFFFF: "w \<le> 0x7FFFFFFF \<longleftrightarrow> unat (w :: u32) \<le> 2147483647"
  by (simp add: word_le_nat_alt)

lemma unat_next_sequence_number:
  assumes "sequence_inv s"
  shows "unat (fst (next_sequence_number s)) = unat (sequence_number s) mod 2147483647 + 1"
proof -
  have le: "unat (sequence_number s) \<le> 2147483647"
    using assms by (simp add: sequence_inv_def unat_le_7FFFFFFF)
  then have suc: "unat (sequence_number s + 1) = unat (sequence_number s) + 1"
    by (simp add: unat_word_ariths)
  show ?thesis
  proof (cases "unat (sequence_number s) = 2147483647")
    case True
    then have "sequence_number s + 1 > 0x7FFFFFFF"
      using suc by (simp add: word_less_nat_alt)
    with True show ?thesis by (simp add: next_sequence_number_def Let_def)
  next
    case False
    then have "unat (sequence_number s) < 2147483647" using le by simp
    moreover have "\<not> sequence_number s + 1 > 0x7FFFFFFF"
      using suc calculation by (simp add: word_less_nat_alt)
    ultimately show ?thesis using suc by (simp add: next_sequence_number_def Let_def)
  qed
qed

lemma next_sequence_number_frame:
  "next_sequence_number s = (n, s') \<Longrightarrow> s' = s\<lparr>sequence_number := n\<rparr>"
  by (auto simp: next_sequence_number_def Let_def)

lemma next_sequence_number_inv:
  assumes "sequence_inv s" "next_sequence_number s = (n, s')"
  shows "sequence_inv s'" "1 \<le> unat n" "unat n \<le> 2147483647"
proof -
  have u: "unat n = unat (sequence_number s) mod 2147483647 + 1"
    using unat_next_sequence_number [OF assms(1)] assms(2) by simp
  moreover have "unat (sequence_number s) mod 2147483647 < 2147483647" by simp
  ultimately show "1 \<le> unat n" "unat n \<le> 2147483647" by linarith+
  then show "sequence_inv s'"
    using next_sequence_number_frame [OF assms(2)]
    by (simp add: sequence_inv_def unat_le_7FFFFFFF)
qed

lemma sequence_numbers_closed_form:
  "sequence_inv s \<Longrightarrow> take_sequence_numbers k s = (ns, s') \<Longrightarrow>
     length ns = k \<and>
     (\<forall>i < k. unat (ns ! i) = (unat (sequence_number s) + i) mod 2147483647 + 1)"
proof (induction k arbitrary: s ns s')
  case 0
  then show ?case by simp
next
  case (Suc k)
  obtain n s1 where n: "next_sequence_number s = (n, s1)" by fastforce
  obtain ns1 s2 where ns1: "take_sequence_numbers k s1 = (ns1, s2)" by fastforce
  have ns: "ns = n # ns1" using Suc.prems n ns1 by simp
  have u: "unat n = unat (sequence_number s) mod 2147483647 + 1"
    using unat_next_sequence_number [OF Suc.prems(1)] n by simp
  have s1: "unat (sequence_number s1) = unat n"
    using next_sequence_number_frame [OF n] by simp
  have IH: "length ns1 = k"
    "\<forall>i < k. unat (ns1 ! i) = (unat (sequence_number s1) + i) mod 2147483647 + 1"
    using Suc.IH [OF next_sequence_number_inv(1) [OF Suc.prems(1) n] ns1] by auto
  have "unat (ns ! i) = (unat (sequence_number s) + i) mod 2147483647 + 1" if "i < Suc k" for i
  proof (cases i)
    case 0
    then show ?thesis by (simp add: ns u)
  next
    case (Suc j)
    then have "unat (ns ! i) = (unat (sequence_number s) mod 2147483647 + 1 + j) mod 2147483647 + 1"
      using that IH(2) s1 u by (simp add: ns)
    moreover have "(unat (sequence_number s) mod 2147483647 + (1 + j)) mod 2147483647 =
        (unat (sequence_number s) + (1 + j)) mod 2147483647"
      by (rule mod_add_left_eq)
    ultimately show ?thesis using Suc by (simp add: add.assoc)
  qed
  then show ?case by (simp add: ns IH(1))
qed

text \<open>A number comes back only after 2147483647 requests.\<close>

lemma sequence_numbers_distinct:
  assumes "sequence_inv s" "take_sequence_numbers k s = (ns, s')" "k \<le> 2147483647"
  shows "distinct ns"
proof -
  note closed = sequence_numbers_closed_form [OF assms(1,2)]
  have "i = j" if ij: "i < k" "j < k" "ns ! i = ns ! j" and "i \<le> j" for i j
  proof -
    let ?a = "unat (sequence_number s)"
    have "(?a + i) mod 2147483647 + 1 = (?a + j) mod 2147483647 + 1"
      using closed ij by metis
    then have "2147483647 dvd (?a + j) - (?a + i)"
      using mod_eq_dvd_iff_nat [of "?a + i" "?a + j" 2147483647] \<open>i \<le> j\<close> by simp
    moreover have "(?a + j) - (?a + i) < 2147483647" using ij assms(3) by simp
    ultimately show "i = j"
      using \<open>i \<le> j\<close> nat_dvd_not_less [of "j - i" 2147483647] by (cases "i = j") auto
  qed
  then have "i = j" if "i < k" "j < k" "ns ! i = ns ! j" for i j
    using that by (metis nat_le_linear)
  then show ?thesis using closed by (auto simp: distinct_conv_nth)
qed

end
