(* ===== verification/Session_Send.thy ===== *)
theory Session_Send
  imports Session
begin

text \<open>
  The sending half of \<open>session.hpp\<close>: \<open>async_send\<close> for requests and for responses,
  \<open>async_send_command\<close> and \<open>async_send_unbind\<close>. Each call is an asynchronous operation, a coroutine
  over the shared \<open>send_buf_\<close>: it waits on \<open>send_cv_\<close> while another operation owns the buffer, then
  builds its frame, hands the buffer to \<open>asio::async_write\<close>, and on completion empties the buffer
  and wakes one waiter.

  The model keeps every operation with the point its coroutine is suspended at (\<open>send_pc\<close>) and one
  function for each stretch of code between two suspensions. Asio chooses the order in which
  suspended operations complete: \<open>send_step\<close> is the step relation, one rule for each way the program
  can move, and \<open>reachable\<close> its closure. \<open>wire\<close> records the buffers handed to \<open>async_write\<close>.
\<close>

subsection \<open>Operations and their suspension points\<close>

datatype send_request =
  Send_request pdu_variant
| Send_response pdu_variant u32 command_status
| Send_command command_id u32

text \<open>
  \<open>Waiting\<close>: in \<open>send_cv_\<close>. \<open>Woken ec\<close>: the wait is over with \<open>ec\<close>, the handler not yet
  run. \<open>Writing n\<close>: in \<open>async_write\<close>, with \<open>n\<close> the sequence number to report. \<open>Completed ec n\<close>.
\<close>

datatype send_pc = Waiting | Woken error_code | Writing u32 | Completed error_code u32

record send_op =
  request :: send_request
  cancelled :: bool
  pc :: send_pc

record send_system =
  sess :: session
  ops :: "send_op list"
  wire :: "octets list"

definition send_init :: "session \<Rightarrow> send_system" where
  "send_init s = \<lparr>sess = s, ops = [], wire = []\<rparr>"

subsection \<open>Building a frame in \<open>send_buf_\<close>\<close>

text \<open>
  The buffer is resized to the header, the body is appended, the header is filled in. A throwing
  serializer empties the buffer; the sequence number of a request is only taken after the body is
  there.
\<close>

definition build_request_frame :: "pdu_variant \<Rightarrow> session \<Rightarrow> (u32, session) outcome" where
  "build_request_frame pdu s =
     (case pdu_serialize_to (replicate header_length 0) pdu of
        (Inl e, vec) \<Rightarrow> (Inl e, s\<lparr>send_buf := []\<rparr>)
      | (Inr _, vec) \<Rightarrow>
          let (n, s) = next_sequence_number s
          in (Inr n, s\<lparr>send_buf := serialize_header vec (of_nat (length vec))
                (the (pdu_command_id pdu)) n command_status_rok\<rparr>))"

definition build_response_frame ::
    "pdu_variant \<Rightarrow> u32 \<Rightarrow> command_status \<Rightarrow> session \<Rightarrow> (u32, session) outcome" where
  "build_response_frame pdu n command_status s =
     (case pdu_serialize_to (replicate header_length 0) pdu of
        (Inl e, vec) \<Rightarrow> (Inl e, s\<lparr>send_buf := []\<rparr>)
      | (Inr _, vec) \<Rightarrow>
          (Inr n, s\<lparr>send_buf := serialize_header vec (of_nat (length vec))
                (the (pdu_command_id pdu)) n command_status\<rparr>))"

definition build_command_frame :: "command_id \<Rightarrow> u32 \<Rightarrow> session \<Rightarrow> (u32, session) outcome" where
  "build_command_frame command_id n s =
     (Inr n, s\<lparr>send_buf := serialize_header (replicate header_length 0) (of_nat header_length)
           command_id n command_status_rok\<rparr>)"

definition build_frame :: "send_request \<Rightarrow> session \<Rightarrow> (u32, session) outcome" where
  "build_frame r s =
     (case r of
        Send_request pdu \<Rightarrow> build_request_frame pdu s
      | Send_response pdu n command_status \<Rightarrow> build_response_frame pdu n command_status s
      | Send_command command_id n \<Rightarrow> build_command_frame command_id n s)"

lemmas build_frame_defs =
  build_frame_def build_request_frame_def build_response_frame_def build_command_frame_def

subsection \<open>The stretches of code between suspensions\<close>

definition set_op :: "nat \<Rightarrow> (send_op \<Rightarrow> send_op) \<Rightarrow> send_system \<Rightarrow> send_system" where
  "set_op i f sys = sys\<lparr>ops := (ops sys)[i := f (ops sys ! i)]\<rparr>"

definition complete :: "nat \<Rightarrow> error_code \<Rightarrow> u32 \<Rightarrow> send_system \<Rightarrow> send_system" where
  "complete i ec n = set_op i (\<lambda>op. op\<lparr>pc := Completed ec n\<rparr>)"

text \<open>From the test of the \<open>while\<close> loop: wait, fail to serialize, or start to write.\<close>

definition try_send :: "nat \<Rightarrow> send_system \<Rightarrow> send_system" where
  "try_send i sys =
     (if send_buf (sess sys) \<noteq> []
      then set_op i (\<lambda>op. op\<lparr>pc := Waiting\<rparr>)
             (sys\<lparr>sess := (sess sys)\<lparr>send_cv := send_cv (sess sys) @ [i]\<rparr>\<rparr>)
      else case build_frame (request (ops sys ! i)) (sess sys) of
             (Inl e, s) \<Rightarrow>
               complete i (make_error_code error_serialization_failed) 0 (sys\<lparr>sess := s\<rparr>)
           | (Inr n, s) \<Rightarrow>
               set_op i (\<lambda>op. op\<lparr>cancelled := False, pc := Writing n\<rparr>)
                 (sys\<lparr>sess := s, wire := wire sys @ [send_buf s]\<rparr>))"

text \<open>After the wait: an error other than the wake-up, or a cancellation, ends the operation.\<close>

definition resume_wait :: "nat \<Rightarrow> error_code \<Rightarrow> send_system \<Rightarrow> send_system" where
  "resume_wait i ec sys =
     (if ec \<noteq> Operation_aborted \<or> cancelled (ops sys ! i) then complete i ec 0 sys
      else try_send i sys)"

text \<open>\<open>send_cv_.cancel_one()\<close>: the first waiter completes with \<open>operation_aborted\<close>.\<close>

definition cancel_one :: "send_system \<Rightarrow> send_system" where
  "cancel_one sys =
     (case send_cv (sess sys) of
        [] \<Rightarrow> sys
      | w # ws \<Rightarrow> set_op w (\<lambda>op. op\<lparr>pc := Woken Operation_aborted\<rparr>)
                   (sys\<lparr>sess := (sess sys)\<lparr>send_cv := ws\<rparr>\<rparr>))"

definition release_send_buf :: "send_system \<Rightarrow> send_system" where
  "release_send_buf sys = cancel_one (sys\<lparr>sess := (sess sys)\<lparr>send_buf := []\<rparr>\<rparr>)"

text \<open>
  After the write. A command whose write was cut off by the timer (aborted and not cancelled from
  outside) completes at once, without releasing the buffer.
\<close>

definition write_command_done :: "nat \<Rightarrow> error_code \<Rightarrow> send_system \<Rightarrow> send_system" where
  "write_command_done i ec sys =
     (if ec = Operation_aborted \<and> \<not> cancelled (ops sys ! i)
      then complete i (make_error_code error_enquire_link_timeout) 0 sys
      else complete i ec 0 (release_send_buf sys))"

definition write_request_done :: "nat \<Rightarrow> error_code \<Rightarrow> u32 \<Rightarrow> send_system \<Rightarrow> send_system" where
  "write_request_done i ec n sys = complete i ec n (release_send_buf sys)"

definition write_response_done :: "nat \<Rightarrow> error_code \<Rightarrow> send_system \<Rightarrow> send_system" where
  "write_response_done i ec sys = complete i ec 0 (release_send_buf sys)"

definition write_done :: "nat \<Rightarrow> error_code \<Rightarrow> u32 \<Rightarrow> send_system \<Rightarrow> send_system" where
  "write_done i ec n sys =
     (case request (ops sys ! i) of
        Send_command _ _ \<Rightarrow> write_command_done i ec sys
      | Send_request _ \<Rightarrow> write_request_done i ec n sys
      | Send_response _ _ _ \<Rightarrow> write_response_done i ec sys)"

lemmas write_done_defs =
  write_done_def write_command_done_def write_request_done_def write_response_done_def

text \<open>
  The initiating functions. All run the coroutine up to its first suspension; \<open>async_send_unbind\<close> takes
  its sequence number at the call.
\<close>

definition initiate :: "send_request \<Rightarrow> send_system \<Rightarrow> send_system" where
  "initiate r sys =
     try_send (length (ops sys))
       (sys\<lparr>ops := ops sys @ [\<lparr>request = r, cancelled = False, pc = Woken Operation_aborted\<rparr>]\<rparr>)"

definition async_send_request :: "pdu_variant \<Rightarrow> send_system \<Rightarrow> send_system" where
  "async_send_request pdu = initiate (Send_request pdu)"

definition async_send_response ::
    "pdu_variant \<Rightarrow> u32 \<Rightarrow> command_status \<Rightarrow> send_system \<Rightarrow> send_system" where
  "async_send_response pdu n command_status = initiate (Send_response pdu n command_status)"

definition async_send_command :: "command_id \<Rightarrow> u32 \<Rightarrow> send_system \<Rightarrow> send_system" where
  "async_send_command command_id n = initiate (Send_command command_id n)"

lemmas async_send_defs [simp] = async_send_request_def async_send_response_def async_send_command_def

definition async_send_unbind :: "send_system \<Rightarrow> send_system" where
  "async_send_unbind sys =
     (let (n, s) = next_sequence_number (sess sys)
      in async_send_command command_id_unbind n (sys\<lparr>sess := s\<rparr>))"

text \<open>
  A cancellation from outside that the operation's current cancellation filter lets through (any while
  it waits, \<open>terminal\<close> once it writes): it takes a waiting operation out of \<open>send_cv_\<close>; otherwise it is
  recorded, and the outcome is what the pending completion makes of it.
\<close>

definition cancel_op :: "nat \<Rightarrow> send_system \<Rightarrow> send_system" where
  "cancel_op i sys =
     (if pc (ops sys ! i) = Waiting
      then set_op i (\<lambda>op. op\<lparr>cancelled := True, pc := Woken Operation_aborted\<rparr>)
             (sys\<lparr>sess := (sess sys)\<lparr>send_cv := filter (\<lambda>j. j \<noteq> i) (send_cv (sess sys))\<rparr>\<rparr>)
      else set_op i (\<lambda>op. op\<lparr>cancelled := True\<rparr>) sys)"

subsection \<open>Steps\<close>

text \<open>
  \<open>async_send\<close> only takes PDUs with a \<open>command_id\<close> of the right kind (the concepts \<open>request_pdu\<close>
  and \<open>response_pdu\<close>).
\<close>

fun admissible_request :: "send_request \<Rightarrow> bool" where
  "admissible_request (Send_request pdu) \<longleftrightarrow>
     (case pdu_command_id pdu of None \<Rightarrow> False | Some c \<Rightarrow> request_pdu c)"
| "admissible_request (Send_response pdu _ _) \<longleftrightarrow>
     (case pdu_command_id pdu of None \<Rightarrow> False | Some c \<Rightarrow> response_pdu c)"
| "admissible_request (Send_command _ _) \<longleftrightarrow> True"

datatype send_label =
  L_initiate send_request | L_unbind | L_resume nat | L_written nat error_code | L_cancel nat

inductive send_step :: "send_system \<Rightarrow> send_label \<Rightarrow> send_system \<Rightarrow> bool" where
  step_initiate: "admissible_request r \<Longrightarrow> send_step sys (L_initiate r) (initiate r sys)"
| step_unbind: "send_step sys L_unbind (async_send_unbind sys)"
| step_resume: "i < length (ops sys) \<Longrightarrow> pc (ops sys ! i) = Woken ec \<Longrightarrow>
    send_step sys (L_resume i) (resume_wait i ec sys)"
| step_written: "i < length (ops sys) \<Longrightarrow> pc (ops sys ! i) = Writing n \<Longrightarrow>
    send_step sys (L_written i ec) (write_done i ec n sys)"
| step_cancel: "i < length (ops sys) \<Longrightarrow> \<forall>ec n. pc (ops sys ! i) \<noteq> Completed ec n \<Longrightarrow>
    send_step sys (L_cancel i) (cancel_op i sys)"

inductive reachable :: "send_system \<Rightarrow> bool" where
  reachable_init: "send_buf s = [] \<Longrightarrow> send_cv s = [] \<Longrightarrow> sequence_inv s \<Longrightarrow> reachable (send_init s)"
| reachable_step: "reachable sys \<Longrightarrow> send_step sys l sys' \<Longrightarrow> reachable sys'"

inductive_cases send_step_cases: "send_step sys l sys'"
inductive_cases step_initiateE: "send_step sys (L_initiate r) sys'"
inductive_cases step_resumeE: "send_step sys (L_resume i) sys'"
inductive_cases step_writtenE: "send_step sys (L_written i ec) sys'"
inductive_cases step_cancelE: "send_step sys (L_cancel i) sys'"

end
