(* ===== verification/Send_Invariant.thy ===== *)
theory Send_Invariant
  imports Session_Send
begin

text \<open>
  Safety of the shared send buffer: whichever way the operations interleave, at most one of them is
  writing, the buffer it handed to the socket is not touched until its write completes, the waiting
  operations are exactly those in \<open>send_cv_\<close>, and everything handed to the socket is one whole frame
  whose length field is its length.
\<close>

subsection \<open>Frames\<close>

definition frame_ok :: "octets \<Rightarrow> bool" where
  "frame_ok w \<longleftrightarrow>
     header_length \<le> length w \<and> fst (deserialize_header (take header_length w)) = of_nat (length w)"

lemma header_length_pos [simp]: "0 < header_length"
  by (simp add: header_length_def)

lemma frame_ok_nonempty: "frame_ok w \<Longrightarrow> w \<noteq> []"
  by (auto simp: frame_ok_def header_length_def)

lemma frame_ok_header:
  assumes "length hdr = header_length"
  shows "frame_ok (serialize_header (hdr @ body) (of_nat (length (hdr @ body))) cid n st)"
  using assms
  by (simp add: frame_ok_def header_length_def serialize_header_octets)
    (simp add: deserialize_header_octets [where body = "[]", simplified])

text \<open>What \<open>build_frame\<close> leaves in the session, on success and on failure.\<close>

lemma build_frame_ok:
  assumes "build_frame r s = (Inr n, s')"
  shows "frame_ok (send_buf s') \<and>
         receive_buf s' = receive_buf s \<and> send_cv s' = send_cv s \<and>
         enquire_link_interval s' = enquire_link_interval s \<and> socket_open s' = socket_open s \<and>
         (sequence_inv s \<longrightarrow> sequence_inv s')"
proof (cases r)
  case (Send_request pdu)
  obtain x vec where ser: "pdu_serialize_to (replicate header_length 0) pdu = (x, vec)" by fastforce
  then have "prefix (replicate header_length 0) vec"
    using pdu_serialize_appends [of "replicate header_length 0" pdu] by simp
  then obtain body where "vec = replicate header_length 0 @ body" by (auto elim: prefixE)
  moreover obtain m s1 where m: "next_sequence_number s = (m, s1)" by fastforce
  ultimately show ?thesis
    using assms frame_ok_header [of "replicate header_length 0" body]
      next_sequence_number_frame [OF m] next_sequence_number_inv(1) [OF _ m]
    by (cases x) (auto simp: build_frame_defs Send_request ser m sequence_inv_def)
next
  case (Send_response pdu k st)
  obtain x vec where ser: "pdu_serialize_to (replicate header_length 0) pdu = (x, vec)" by fastforce
  then have "prefix (replicate header_length 0) vec"
    using pdu_serialize_appends [of "replicate header_length 0" pdu] by simp
  then obtain body where "vec = replicate header_length 0 @ body" by (auto elim: prefixE)
  then show ?thesis
    using assms frame_ok_header [of "replicate header_length 0" body]
    by (cases x) (auto simp: build_frame_defs Send_response ser sequence_inv_def)
next
  case (Send_command cid k)
  then show ?thesis
    using assms frame_ok_header [of "replicate header_length 0" "[]"]
    by (auto simp: build_frame_defs sequence_inv_def)
qed

lemma build_frame_throws:
  "build_frame r s = (Inl e, s') \<Longrightarrow> s' = s\<lparr>send_buf := []\<rparr>"
  by (auto simp: build_frame_defs split: send_request.splits prod.splits sum.splits)

subsection \<open>The invariant\<close>

definition writing :: "send_system \<Rightarrow> nat \<Rightarrow> bool" where
  "writing sys i \<longleftrightarrow> i < length (ops sys) \<and> (\<exists>n. pc (ops sys ! i) = Writing n)"

definition waiting :: "send_system \<Rightarrow> nat \<Rightarrow> bool" where
  "waiting sys i \<longleftrightarrow> i < length (ops sys) \<and> pc (ops sys ! i) = Waiting"

definition send_inv :: "send_system \<Rightarrow> bool" where
  "send_inv sys \<longleftrightarrow>
     (\<forall>i j. writing sys i \<longrightarrow> writing sys j \<longrightarrow> i = j) \<and>
     (\<forall>i. writing sys i \<longrightarrow> wire sys \<noteq> [] \<and> send_buf (sess sys) = last (wire sys)) \<and>
     distinct (send_cv (sess sys)) \<and> set (send_cv (sess sys)) = {i. waiting sys i} \<and>
     list_all frame_ok (wire sys) \<and>
     sequence_inv (sess sys)"

lemma send_invD:
  assumes "send_inv sys"
  shows "writing sys i \<Longrightarrow> writing sys j \<Longrightarrow> i = j"
    and "writing sys i \<Longrightarrow> wire sys \<noteq> [] \<and> send_buf (sess sys) = last (wire sys)"
    and "distinct (send_cv (sess sys))" "set (send_cv (sess sys)) = {i. waiting sys i}"
    and "list_all frame_ok (wire sys)" "sequence_inv (sess sys)"
  using assms unfolding send_inv_def by blast+

lemma writing_send_buf: "send_inv sys \<Longrightarrow> writing sys i \<Longrightarrow> send_buf (sess sys) \<noteq> []"
  using send_invD(2,5) [of sys] by (metis frame_ok_nonempty last_in_set list_all_iff)

lemma set_op_simps [simp]:
  "sess (set_op i f sys) = sess sys" "wire (set_op i f sys) = wire sys"
  "length (ops (set_op i f sys)) = length (ops sys)"
  "i < length (ops sys) \<Longrightarrow> ops (set_op i f sys) ! i = f (ops sys ! i)"
  "j \<noteq> i \<Longrightarrow> ops (set_op i f sys) ! j = ops sys ! j"
  by (simp_all add: set_op_def)

lemma writing_set_op:
  "writing (set_op i f sys) j \<longleftrightarrow>
     (if j = i then i < length (ops sys) \<and> (\<exists>n. pc (f (ops sys ! i)) = Writing n) else writing sys j)"
  by (auto simp: writing_def)

lemma waiting_set_op:
  "waiting (set_op i f sys) j \<longleftrightarrow>
     (if j = i then i < length (ops sys) \<and> pc (f (ops sys ! i)) = Waiting else waiting sys j)"
  by (auto simp: waiting_def)

lemma writing_waiting_sess [simp]:
  "writing (sys\<lparr>sess := s\<rparr>) i = writing sys i" "waiting (sys\<lparr>sess := s\<rparr>) i = waiting sys i"
  "writing (sys\<lparr>sess := s, wire := w\<rparr>) i = writing sys i"
  "waiting (sys\<lparr>sess := s, wire := w\<rparr>) i = waiting sys i"
  by (simp_all add: writing_def waiting_def)

text \<open>An operation that neither waits nor writes may move to any point that neither waits nor writes.\<close>

lemma send_inv_set_op:
  assumes inv: "send_inv sys" and "\<not> waiting sys i"
    and "pc (f (ops sys ! i)) \<noteq> Waiting" "\<forall>n. pc (f (ops sys ! i)) = Writing n \<longrightarrow> writing sys i"
  shows "send_inv (set_op i f sys)"
proof -
  have w: "writing (set_op i f sys) j \<Longrightarrow> writing sys j" for j
    using assms(4) by (auto simp: writing_set_op split: if_splits)
  have "{j. waiting (set_op i f sys) j} = {j. waiting sys j}"
    using assms(2,3) by (auto simp: waiting_set_op)
  then show ?thesis
    using send_invD [OF inv] w unfolding send_inv_def by (simp del: Collect_cong) metis
qed

lemma send_inv_complete:
  "send_inv sys \<Longrightarrow> \<not> waiting sys i \<Longrightarrow> send_inv (complete i ec n sys)"
  unfolding complete_def by (rule send_inv_set_op) simp_all

lemma send_inv_release:
  assumes inv: "send_inv sys" and idle: "\<And>i. \<not> writing sys i"
  shows "send_inv (release_send_buf sys)"
proof (cases "send_cv (sess sys)")
  case Nil
  then show ?thesis
    using send_invD [OF inv] idle
    by (simp add: release_send_buf_def cancel_one_def send_inv_def sequence_inv_def)
next
  case (Cons w ws)
  let ?sys = "release_send_buf sys"
  have rel: "?sys = set_op w (\<lambda>op. op\<lparr>pc := Woken Operation_aborted\<rparr>)
      (sys\<lparr>sess := (sess sys)\<lparr>send_buf := [], send_cv := ws\<rparr>\<rparr>)"
    by (simp add: release_send_buf_def cancel_one_def Cons)
  have "waiting sys w" using send_invD(4) [OF inv] Cons by auto
  then have "{i. waiting ?sys i} = {i. waiting sys i} - {w}"
    by (auto simp: rel waiting_set_op)
  also have "\<dots> = set ws" using send_invD(3,4) [OF inv] Cons by auto
  finally have "set ws = {i. waiting ?sys i}" ..
  moreover have "\<not> writing ?sys i" for i using idle by (simp add: rel writing_set_op)
  ultimately show ?thesis
    using send_invD [OF inv] Cons
    by (simp add: send_inv_def rel sequence_inv_def)
qed

lemma send_inv_try_send:
  assumes inv: "send_inv sys" and i: "i < length (ops sys)"
    and "\<not> waiting sys i" "\<not> writing sys i"
  shows "send_inv (try_send i sys)"
proof (cases "send_buf (sess sys) = []")
  case False
  let ?sys = "try_send i sys"
  have t: "?sys = set_op i (\<lambda>op. op\<lparr>pc := Waiting\<rparr>)
      (sys\<lparr>sess := (sess sys)\<lparr>send_cv := send_cv (sess sys) @ [i]\<rparr>\<rparr>)"
    using False by (simp add: try_send_def)
  have "{j. waiting ?sys j} = insert i {j. waiting sys j}"
    using i by (auto simp: t waiting_set_op)
  moreover have "writing ?sys j \<Longrightarrow> writing sys j" for j by (simp add: t writing_set_op split: if_splits)
  ultimately show ?thesis
    using send_invD [OF inv] assms(3) unfolding send_inv_def
    by (simp add: t sequence_inv_def del: Collect_cong) metis
next
  case True
  then have idle: "\<not> writing sys j" for j using writing_send_buf [OF inv] by blast
  obtain x s where bf: "build_frame (request (ops sys ! i)) (sess sys) = (x, s)" by fastforce
  show ?thesis
  proof (cases x)
    case (Inl e)
    have "send_inv (sys\<lparr>sess := s\<rparr>)"
      using build_frame_throws [OF bf [unfolded Inl]] send_invD [OF inv] idle
      by (simp add: send_inv_def sequence_inv_def)
    then show ?thesis
      using assms(3) by (simp add: try_send_def True bf Inl send_inv_complete)
  next
    case (Inr n)
    note b = build_frame_ok [OF bf [unfolded Inr]]
    let ?sys = "try_send i sys"
    have t: "?sys = set_op i (\<lambda>op. op\<lparr>cancelled := False, pc := Writing n\<rparr>)
        (sys\<lparr>sess := s, wire := wire sys @ [send_buf s]\<rparr>)"
      by (simp add: try_send_def True bf Inr)
    have "writing ?sys j \<longleftrightarrow> j = i" for j using idle i by (simp add: t writing_set_op)
    moreover have "{j. waiting ?sys j} = {j. waiting sys j}"
      using assms(3) by (auto simp: t waiting_set_op)
    ultimately show ?thesis
      using send_invD [OF inv] b by (simp add: send_inv_def t del: Collect_cong)
  qed
qed

lemma set_op_commute:
  "i \<noteq> j \<Longrightarrow> set_op i f (set_op j g sys) = set_op j g (set_op i f sys)"
  by (rule send_system.equality) (simp_all add: set_op_def list_update_swap [of i j])

lemma set_op_sess: "set_op i f (sys\<lparr>sess := s\<rparr>) = (set_op i f sys)\<lparr>sess := s\<rparr>"
  by (rule send_system.equality) (simp_all add: set_op_def)

lemma complete_release_commute:
  assumes "i \<notin> set (send_cv (sess sys))"
  shows "complete i ec n (release_send_buf sys) = release_send_buf (complete i ec n sys)"
proof (cases "send_cv (sess sys)")
  case Nil
  then show ?thesis
    by (simp add: release_send_buf_def cancel_one_def complete_def set_op_sess)
next
  case (Cons w ws)
  then have "i \<noteq> w" using assms by simp
  then show ?thesis
    by (simp add: release_send_buf_def cancel_one_def complete_def Cons set_op_sess
        set_op_commute [of i w])
qed

lemma not_both: "writing sys i \<Longrightarrow> \<not> waiting sys i"
  by (auto simp: writing_def waiting_def)

lemma complete_leaves_no_writer:
  "send_inv sys \<Longrightarrow> writing sys i \<Longrightarrow> \<not> writing (complete i ec n sys) j"
  unfolding complete_def writing_set_op using send_invD(1) [of sys i j] by (cases "j = i") auto

lemma send_inv_complete_release:
  assumes inv: "send_inv sys" and i: "writing sys i"
  shows "send_inv (complete i ec n (release_send_buf sys))"
proof -
  have "i \<notin> set (send_cv (sess sys))" using send_invD(4) [OF inv] not_both [OF i] by simp
  moreover have "send_inv (release_send_buf (complete i ec n sys))"
    using send_inv_complete [OF inv not_both [OF i]] complete_leaves_no_writer [OF inv i]
    by (rule send_inv_release)
  ultimately show ?thesis by (simp add: complete_release_commute)
qed

lemma send_inv_write_done:
  "send_inv sys \<Longrightarrow> writing sys i \<Longrightarrow> send_inv (write_done i ec n sys)"
  by (simp add: write_done_defs send_inv_complete not_both send_inv_complete_release
      split: send_request.split)

lemma send_inv_resume_wait:
  assumes "send_inv sys" "i < length (ops sys)" "pc (ops sys ! i) = Woken ec"
  shows "send_inv (resume_wait i ec sys)"
  using assms
  by (simp add: resume_wait_def send_inv_complete send_inv_try_send waiting_def writing_def)

lemma send_inv_initiate:
  assumes inv: "send_inv sys"
  shows "send_inv (initiate r sys)"
proof -
  let ?op = "\<lparr>request = r, cancelled = False, pc = Woken Operation_aborted\<rparr>"
  let ?sys = "sys\<lparr>ops := ops sys @ [?op]\<rparr>"
  have same: "writing ?sys j = writing sys j" "waiting ?sys j = waiting sys j" for j
    by (auto simp: writing_def waiting_def nth_append)
  have "send_inv ?sys" using inv unfolding send_inv_def same by simp
  moreover have "\<not> waiting ?sys (length (ops sys))" "\<not> writing ?sys (length (ops sys))"
    unfolding same by (simp_all add: writing_def waiting_def)
  ultimately show ?thesis unfolding initiate_def by (intro send_inv_try_send) simp_all
qed

lemma send_inv_unbind:
  assumes inv: "send_inv sys"
  shows "send_inv (async_send_unbind sys)"
proof -
  obtain n s where n: "next_sequence_number (sess sys) = (n, s)" by fastforce
  have "send_inv (sys\<lparr>sess := s\<rparr>)"
    using send_invD [OF inv] next_sequence_number_frame [OF n]
      next_sequence_number_inv(1) [OF _ n]
    by (simp add: send_inv_def)
  then show ?thesis by (simp add: async_send_unbind_def n send_inv_initiate)
qed

lemma send_inv_cancel_op:
  assumes inv: "send_inv sys" and i: "i < length (ops sys)"
  shows "send_inv (cancel_op i sys)"
proof (cases "pc (ops sys ! i) = Waiting")
  case False
  then show ?thesis using inv i
    by (auto simp: cancel_op_def waiting_def writing_def intro!: send_inv_set_op)
next
  case True
  let ?sys = "cancel_op i sys"
  have c: "?sys = set_op i (\<lambda>op. op\<lparr>cancelled := True, pc := Woken Operation_aborted\<rparr>)
      (sys\<lparr>sess := (sess sys)\<lparr>send_cv := filter (\<lambda>j. j \<noteq> i) (send_cv (sess sys))\<rparr>\<rparr>)"
    by (simp add: cancel_op_def True)
  have "{j. waiting ?sys j} = {j. waiting sys j} - {i}" by (auto simp: c waiting_set_op)
  moreover have "\<not> writing sys i" using True by (simp add: writing_def)
  then have "writing ?sys j \<longleftrightarrow> writing sys j" for j by (simp add: c writing_set_op)
  ultimately show ?thesis
    using send_invD [OF inv] unfolding send_inv_def
    by (simp add: c sequence_inv_def set_eq_iff del: Collect_cong)
qed

lemma send_step_inv: "send_step sys l sys' \<Longrightarrow> send_inv sys \<Longrightarrow> send_inv sys'"
  by (induction rule: send_step.induct)
    (auto simp: send_inv_initiate send_inv_unbind send_inv_resume_wait send_inv_cancel_op writing_def
      intro: send_inv_write_done)

lemma send_inv_init:
  "send_cv s = [] \<Longrightarrow> sequence_inv s \<Longrightarrow> send_inv (send_init s)"
  by (simp add: send_inv_def send_init_def writing_def waiting_def)

lemma reachable_send_inv: "reachable sys \<Longrightarrow> send_inv sys"
  by (induction rule: reachable.induct) (auto intro: send_inv_init send_step_inv)

subsection \<open>The wire only grows, and only by frames of operations that own the buffer\<close>

lemma release_wire [simp]: "wire (release_send_buf sys) = wire sys"
  by (simp add: release_send_buf_def cancel_one_def split: list.split)

lemma release_send_buf_empty [simp]: "send_buf (sess (release_send_buf sys)) = []"
  by (simp add: release_send_buf_def cancel_one_def split: list.split)

lemma complete_simps [simp]:
  "wire (complete i ec n sys) = wire sys" "sess (complete i ec n sys) = sess sys"
  by (simp_all add: complete_def)

lemma try_send_busy:
  "send_buf (sess sys) \<noteq> [] \<Longrightarrow>
     wire (try_send i sys) = wire sys \<and> send_buf (sess (try_send i sys)) = send_buf (sess sys)"
  by (simp add: try_send_def)

lemma try_send_wire: "prefix (wire sys) (wire (try_send i sys))"
  by (simp add: try_send_def split: prod.split sum.split)

end
