(* ===== verification/Send_Progress.thy ===== *)
theory Send_Progress
  imports Send_Invariant
begin

text \<open>
  What a single step may do to the buffer and to the wire, and progress of the waiting operations:
  as long as no serialization fails, no operation is cancelled and no write is cut off by its timer,
  a waiting operation always has a writer or an already woken operation ahead of it. The two ways the
  code loses that guarantee are stated at the end: an operation that is woken and ends without
  releasing the buffer wakes nobody else, and a command whose write timed out never empties the
  buffer.
\<close>

subsection \<open>Single steps\<close>

lemma send_buf_nonempty_not_release:
  "writing sys j \<Longrightarrow> send_inv sys \<Longrightarrow> i \<noteq> j \<Longrightarrow> \<not> writing sys i"
  using send_invD(1) by blast

lemma resume_wait_busy:
  "send_buf (sess sys) \<noteq> [] \<Longrightarrow>
     wire (resume_wait i ec sys) = wire sys \<and>
     send_buf (sess (resume_wait i ec sys)) = send_buf (sess sys)"
  by (simp add: resume_wait_def try_send_busy)

lemma initiate_busy:
  "send_buf (sess sys) \<noteq> [] \<Longrightarrow>
     wire (initiate r sys) = wire sys \<and> send_buf (sess (initiate r sys)) = send_buf (sess sys)"
  by (simp add: initiate_def try_send_def)

lemma async_send_unbind_busy:
  assumes "send_buf (sess sys) \<noteq> []"
  shows "wire (async_send_unbind sys) = wire sys \<and>
         send_buf (sess (async_send_unbind sys)) = send_buf (sess sys)"
proof -
  obtain n s where n: "next_sequence_number (sess sys) = (n, s)" by fastforce
  then show ?thesis
    using assms next_sequence_number_frame [OF n] by (simp add: async_send_unbind_def initiate_busy)
qed

lemma cancel_op_wire [simp]:
  "wire (cancel_op i sys) = wire sys" "send_buf (sess (cancel_op i sys)) = send_buf (sess sys)"
  by (simp_all add: cancel_op_def)

text \<open>A step that is not the completion of a write leaves a busy buffer and the wire alone.\<close>

lemma busy_step:
  assumes "send_step sys l sys'" "send_buf (sess sys) \<noteq> []" "\<And>i ec. l = L_written i ec \<Longrightarrow> \<not> writing sys i"
  shows "wire sys' = wire sys \<and> send_buf (sess sys') = send_buf (sess sys)"
  using assms
  by (cases rule: send_step_cases)
    (auto simp: initiate_busy async_send_unbind_busy resume_wait_busy writing_def)

lemma write_done_wire [simp]: "wire (write_done i ec n sys) = wire sys"
  by (simp add: write_done_defs split: send_request.split)

lemma resume_wait_wire:
  "\<exists>ws. wire (resume_wait i ec sys) = wire sys @ ws \<and> length ws \<le> 1"
  by (simp add: resume_wait_def try_send_def split: prod.split sum.split)

lemma initiate_wire: "\<exists>ws. wire (initiate r sys) = wire sys @ ws \<and> length ws \<le> 1"
  by (simp add: initiate_def try_send_def split: prod.split sum.split)

lemma send_step_wire:
  "send_step sys l sys' \<Longrightarrow> \<exists>ws. wire sys' = wire sys @ ws \<and> length ws \<le> 1"
proof (induction rule: send_step.induct)
  case (step_unbind sys)
  obtain n s where "next_sequence_number (sess sys) = (n, s)" by fastforce
  then have "wire (async_send_unbind sys) = wire (initiate (Send_command command_id_unbind n) (sys\<lparr>sess := s\<rparr>))"
    by (simp add: async_send_unbind_def)
  then show ?case
    using initiate_wire [of "Send_command command_id_unbind n" "sys\<lparr>sess := s\<rparr>"] by simp
qed (rule initiate_wire resume_wait_wire | simp)+

subsection \<open>Stalled systems\<close>

text \<open>
  A buffer that is in use while nobody writes it: what a timed-out command leaves behind. No step
  gets out of it.
\<close>

definition stalled :: "send_system \<Rightarrow> bool" where
  "stalled sys \<longleftrightarrow> send_buf (sess sys) \<noteq> [] \<and> (\<forall>op \<in> set (ops sys). \<forall>n. pc op \<noteq> Writing n)"

lemma stalled_iff: "stalled sys \<longleftrightarrow> send_buf (sess sys) \<noteq> [] \<and> (\<forall>i. \<not> writing sys i)"
  by (auto simp: stalled_def writing_def set_conv_nth)

lemma try_send_busy_writing:
  "send_buf (sess sys) \<noteq> [] \<Longrightarrow> writing (try_send i sys) j \<Longrightarrow> writing sys j"
  by (simp add: try_send_def writing_set_op split: if_splits)

lemma resume_wait_busy_writing:
  "send_buf (sess sys) \<noteq> [] \<Longrightarrow> writing (resume_wait i ec sys) j \<Longrightarrow> writing sys j"
  by (auto simp: resume_wait_def complete_def writing_set_op try_send_busy_writing split: if_splits)

lemma initiate_busy_writing:
  "send_buf (sess sys) \<noteq> [] \<Longrightarrow> writing (initiate r sys) j \<Longrightarrow> writing sys j"
  unfolding initiate_def by (drule try_send_busy_writing [rotated])
    (auto simp: writing_def nth_append split: if_splits)

lemma cancel_op_writing: "writing (cancel_op i sys) j \<Longrightarrow> writing sys j"
  unfolding cancel_op_def by (simp add: writing_set_op split: if_splits) (auto simp: writing_def)

lemma stalled_step:
  assumes "stalled sys" "send_step sys l sys'"
  shows "stalled sys' \<and> wire sys' = wire sys"
proof -
  have busy: "send_buf (sess sys) \<noteq> []" and idle: "\<And>i. \<not> writing sys i"
    using assms(1) by (auto simp: stalled_iff)
  have keep: "wire sys' = wire sys \<and> send_buf (sess sys') = send_buf (sess sys)"
    using busy_step [OF assms(2) busy] idle by blast
  have "\<not> writing sys' j" for j
    using assms(2)
  proof (cases rule: send_step.cases)
    case (step_initiate r)
    then show ?thesis using initiate_busy_writing [OF busy] idle by blast
  next
    case step_unbind
    obtain n s where n: "next_sequence_number (sess sys) = (n, s)" by fastforce
    then have "send_buf (sess (sys\<lparr>sess := s\<rparr>)) \<noteq> []"
      using busy next_sequence_number_frame [OF n] by simp
    then show ?thesis
      using initiate_busy_writing [of "sys\<lparr>sess := s\<rparr>"] idle
      by (auto simp: step_unbind async_send_unbind_def n)
  next
    case (step_resume i ec)
    then show ?thesis using resume_wait_busy_writing [OF busy] idle by blast
  next
    case (step_written i n ec)
    then show ?thesis using idle [of i] by (simp add: writing_def)
  next
    case (step_cancel i)
    then show ?thesis using cancel_op_writing idle by blast
  qed
  then show ?thesis using keep busy by (simp add: stalled_iff)
qed

inductive send_steps :: "send_system \<Rightarrow> send_system \<Rightarrow> bool" where
  steps_refl: "send_steps sys sys"
| steps_step: "send_steps sys sys' \<Longrightarrow> send_step sys' l sys'' \<Longrightarrow> send_steps sys sys''"

lemma stalled_steps: "send_steps sys sys' \<Longrightarrow> stalled sys \<Longrightarrow> stalled sys' \<and> wire sys' = wire sys"
  by (induction rule: send_steps.induct) (auto dest: stalled_step)

lemma reachable_steps: "send_steps sys sys' \<Longrightarrow> reachable sys \<Longrightarrow> reachable sys'"
  by (induction rule: send_steps.induct) (auto intro: reachable_step)

subsection \<open>Progress in clean runs\<close>

fun request_fits :: "send_request \<Rightarrow> bool" where
  "request_fits (Send_request pdu) = pdu_fits pdu"
| "request_fits (Send_response pdu _ _) = pdu_fits pdu"
| "request_fits (Send_command _ _) = True"

lemma build_frame_fits:
  assumes "request_fits r"
  shows "\<exists>n s'. build_frame r s = (Inr n, s')"
proof (cases r)
  case (Send_request pdu)
  have "fst (pdu_serialize_to (replicate header_length 0) pdu) = Inr ()"
    using assms by (simp add: Send_request pdu_serialize_fits)
  then show ?thesis by (auto simp: build_frame_defs Send_request split: prod.splits)
next
  case (Send_response pdu k st)
  have "fst (pdu_serialize_to (replicate header_length 0) pdu) = Inr ()"
    using assms by (simp add: Send_response pdu_serialize_fits)
  then show ?thesis by (auto simp: build_frame_defs Send_response split: prod.splits)
qed (simp add: build_frame_defs)

lemma build_frame_not_fits:
  assumes "\<not> request_fits r"
  shows "\<exists>e. \<forall>s. build_frame r s = (Inl e, s\<lparr>send_buf := []\<rparr>)"
proof -
  have "\<exists>e vec. pdu_serialize_to (replicate header_length 0) pdu = (Inl e, vec)"
    if "\<not> pdu_fits pdu" for pdu
  proof (cases "pdu_serialize_to (replicate header_length 0) pdu")
    case (Pair x vec)
    then show ?thesis
      using that pdu_serialize_fits [of "replicate header_length 0" pdu] by (cases x) simp_all
  qed
  then show ?thesis using assms by (cases r) (fastforce simp: build_frame_defs)+
qed

text \<open>
  A label is clean when it is none of the events that end an operation without a wake-up: every PDU
  fits its length limits, nothing is cancelled, no write reports \<open>operation_aborted\<close>.
\<close>

fun clean_label :: "send_label \<Rightarrow> bool" where
  "clean_label (L_initiate r) = request_fits r"
| "clean_label (L_written i ec) = (ec \<noteq> Operation_aborted)"
| "clean_label (L_cancel i) = False"
| "clean_label _ = True"

inductive clean_reachable :: "send_system \<Rightarrow> bool" where
  clean_init: "send_buf s = [] \<Longrightarrow> send_cv s = [] \<Longrightarrow> sequence_inv s \<Longrightarrow> clean_reachable (send_init s)"
| clean_step: "clean_reachable sys \<Longrightarrow> send_step sys l sys' \<Longrightarrow> clean_label l \<Longrightarrow>
    clean_reachable sys'"

lemma clean_reachable_reachable: "clean_reachable sys \<Longrightarrow> reachable sys"
  by (induction rule: clean_reachable.induct) (auto intro: reachable.intros)

definition woken :: "send_system \<Rightarrow> nat \<Rightarrow> bool" where
  "woken sys i \<longleftrightarrow> i < length (ops sys) \<and> pc (ops sys ! i) = Woken Operation_aborted"

definition op_clean :: "send_op \<Rightarrow> bool" where
  "op_clean op \<longleftrightarrow> request_fits (request op) \<and> \<not> cancelled op \<and>
     (\<forall>ec. pc op = Woken ec \<longrightarrow> ec = Operation_aborted)"

definition live :: "send_system \<Rightarrow> bool" where
  "live sys \<longleftrightarrow>
     (\<forall>op \<in> set (ops sys). op_clean op) \<and>
     (send_buf (sess sys) \<noteq> [] \<longrightarrow> (\<exists>i. writing sys i)) \<and>
     (send_buf (sess sys) = [] \<longrightarrow> send_cv (sess sys) \<noteq> [] \<longrightarrow> (\<exists>i. woken sys i))"

lemma ops_clean_set_op:
  assumes "\<forall>op \<in> set (ops sys). op_clean op" "i < length (ops sys)" "op_clean (f (ops sys ! i))"
  shows "\<forall>op \<in> set (ops (set_op i f sys)). op_clean op"
  using assms set_update_subset_insert [of "ops sys" i "f (ops sys ! i)"]
  unfolding set_op_def by auto

lemma woken_set_op:
  "woken (set_op i f sys) j \<longleftrightarrow>
     (if j = i then i < length (ops sys) \<and> pc (f (ops sys ! i)) = Woken Operation_aborted
      else woken sys j)"
  by (auto simp: woken_def)

lemma live_try_send:
  assumes clean: "\<forall>op \<in> set (ops sys). op_clean op" and i: "i < length (ops sys)"
    and busy: "send_buf (sess sys) \<noteq> [] \<longrightarrow> (\<exists>j. writing sys j)" and idle: "\<not> writing sys i"
  shows "live (try_send i sys)"
proof (cases "send_buf (sess sys) = []")
  case False
  then obtain j where j: "writing sys j" "j \<noteq> i" using busy idle by metis
  have t: "try_send i sys = set_op i (\<lambda>op. op\<lparr>pc := Waiting\<rparr>)
      (sys\<lparr>sess := (sess sys)\<lparr>send_cv := send_cv (sess sys) @ [i]\<rparr>\<rparr>)" (is "_ = set_op i ?f ?s")
    using False by (simp add: try_send_def)
  have "op_clean (?f (ops ?s ! i))" using clean i nth_mem [OF i] by (simp add: op_clean_def)
  then have "\<forall>op \<in> set (ops (try_send i sys)). op_clean op"
    unfolding t by (intro ops_clean_set_op) (use clean i in simp_all)
  moreover have "writing (try_send i sys) j" using j by (simp add: t writing_set_op)
  ultimately show ?thesis using False by (auto simp: live_def t)
next
  case True
  have fits: "request_fits (request (ops sys ! i))" using clean i nth_mem [OF i] by (simp add: op_clean_def)
  then obtain n s where bf: "build_frame (request (ops sys ! i)) (sess sys) = (Inr n, s)"
    using build_frame_fits by blast
  have t: "try_send i sys = set_op i (\<lambda>op. op\<lparr>cancelled := False, pc := Writing n\<rparr>)
      (sys\<lparr>sess := s, wire := wire sys @ [send_buf s]\<rparr>)" (is "_ = set_op i ?f ?s")
    by (simp add: try_send_def True bf)
  have "op_clean (?f (ops ?s ! i))" using fits by (simp add: op_clean_def)
  then have "\<forall>op \<in> set (ops (try_send i sys)). op_clean op"
    unfolding t by (intro ops_clean_set_op) (use clean i in simp_all)
  moreover have "writing (try_send i sys) i" using i by (simp add: t writing_set_op)
  moreover have "send_buf s \<noteq> []" using build_frame_ok [OF bf] frame_ok_nonempty by blast
  ultimately show ?thesis by (auto simp: live_def t)
qed

lemma live_initiate:
  assumes "live sys" "request_fits r"
  shows "live (initiate r sys)"
proof -
  let ?op = "\<lparr>request = r, cancelled = False, pc = Woken Operation_aborted\<rparr>"
  let ?sys = "sys\<lparr>ops := ops sys @ [?op]\<rparr>"
  have w: "writing ?sys j = writing sys j" for j by (auto simp: writing_def nth_append)
  have "op_clean ?op" using assms(2) by (simp add: op_clean_def)
  moreover have "\<not> writing sys (length (ops sys))" by (simp add: writing_def)
  ultimately show ?thesis
    using assms unfolding initiate_def by (intro live_try_send) (auto simp: w live_def)
qed

lemma live_release:
  assumes inv: "send_inv sys" and clean: "\<forall>op \<in> set (ops sys). op_clean op"
  shows "live (release_send_buf sys)"
proof (cases "send_cv (sess sys)")
  case Nil
  then show ?thesis using clean by (simp add: live_def release_send_buf_def cancel_one_def)
next
  case (Cons w ws)
  have rel: "release_send_buf sys = set_op w (\<lambda>op. op\<lparr>pc := Woken Operation_aborted\<rparr>)
      (sys\<lparr>sess := (sess sys)\<lparr>send_buf := [], send_cv := ws\<rparr>\<rparr>)" (is "_ = set_op w ?f ?s")
    by (simp add: release_send_buf_def cancel_one_def Cons)
  have w: "w < length (ops sys)" using send_invD(4) [OF inv] Cons by (auto simp: waiting_def)
  then have "op_clean (?f (ops ?s ! w))" using clean nth_mem [OF w] by (simp add: op_clean_def)
  then have "\<forall>op \<in> set (ops (release_send_buf sys)). op_clean op"
    unfolding rel by (intro ops_clean_set_op) (use clean w in simp_all)
  moreover have "woken (release_send_buf sys) w" using w by (simp add: rel woken_set_op)
  ultimately show ?thesis by (auto simp: live_def)
qed

lemma live_complete:
  assumes "live sys" "i < length (ops sys)" "\<not> writing sys i" "\<not> woken sys i"
  shows "live (complete i ec n sys)"
proof -
  have "op_clean ((ops sys ! i)\<lparr>pc := Completed ec n\<rparr>)"
    using assms nth_mem [OF assms(2)] by (simp add: live_def op_clean_def)
  then have "\<forall>op \<in> set (ops (complete i ec n sys)). op_clean op"
    using assms unfolding complete_def live_def by (intro ops_clean_set_op) simp_all
  moreover have "writing (complete i ec n sys) j = writing sys j"
    "woken (complete i ec n sys) j = woken sys j" for j
    using assms(3,4) by (auto simp: complete_def writing_set_op woken_set_op)
  ultimately show ?thesis using assms(1) by (simp add: live_def)
qed

lemma live_write_done:
  assumes inv: "send_inv sys" and live: "live sys" and w: "writing sys i" and ec: "ec \<noteq> Operation_aborted"
  shows "live (write_done i ec n sys)"
proof -
  have cv: "i \<notin> set (send_cv (sess sys))" using send_invD(4) [OF inv] not_both [OF w] by simp
  have i: "i < length (ops sys)" using w by (simp add: writing_def)
  have "op_clean ((ops sys ! i)\<lparr>pc := Completed ec m\<rparr>)" for m
    using live i nth_mem [OF i] by (simp add: live_def op_clean_def)
  then have "\<forall>op \<in> set (ops (complete i ec m sys)). op_clean op" for m
    using live i unfolding complete_def live_def by (intro ops_clean_set_op) simp_all
  then have "live (complete i ec m (release_send_buf sys))" for m
    unfolding complete_release_commute [OF cv]
    using live_release send_inv_complete [OF inv not_both [OF w]] by blast
  then show ?thesis using ec by (simp add: write_done_defs split: send_request.split)
qed

lemma live_step:
  assumes "send_step sys l sys'" "clean_label l" "send_inv sys" "live sys"
  shows "live sys'"
  using assms
proof (induction rule: send_step.induct)
  case (step_unbind sys)
  obtain n s where n: "next_sequence_number (sess sys) = (n, s)" by fastforce
  have "live (sys\<lparr>sess := s\<rparr>)"
    using step_unbind next_sequence_number_frame [OF n] by (simp add: live_def woken_def)
  then show ?case by (simp add: async_send_unbind_def n live_initiate)
next
  case (step_resume i sys ec)
  have "op_clean (ops sys ! i)" using step_resume by (simp add: live_def)
  moreover have "live (try_send i sys)"
    using step_resume by (intro live_try_send) (simp_all add: live_def writing_def)
  ultimately show ?case using step_resume by (simp add: resume_wait_def op_clean_def)
next
  case (step_written i sys n ec)
  then show ?case by (auto simp: writing_def intro: live_write_done)
qed (simp_all add: live_initiate)

lemma clean_reachable_live: "clean_reachable sys \<Longrightarrow> live sys"
proof (induction rule: clean_reachable.induct)
  case (clean_step sys l sys')
  then show ?case
    using live_step reachable_send_inv clean_reachable_reachable by blast
qed (simp add: live_def send_init_def)

text \<open>In a clean run a waiting operation is never left alone: a write or a resumption is pending.\<close>

lemma clean_waiting_progress:
  assumes "clean_reachable sys" "waiting sys i"
  shows "\<exists>j l sys'. (l = L_resume j \<or> l = L_written j No_error) \<and> send_step sys l sys' \<and> j \<noteq> i"
proof -
  have live: "live sys" by (rule clean_reachable_live) fact
  have "i \<in> set (send_cv (sess sys))"
    using send_invD(4) [OF reachable_send_inv] clean_reachable_reachable assms by blast
  then consider j where "writing sys j" | j where "woken sys j"
    using live unfolding live_def by (metis empty_iff empty_set)
  then show ?thesis
  proof cases
    case (1 j)
    then have "j \<noteq> i" using assms(2) not_both by blast
    moreover have "\<exists>n. send_step sys (L_written j No_error) (write_done j No_error n sys)"
      using 1 by (auto simp: writing_def intro: send_step.step_written)
    ultimately show ?thesis by blast
  next
    case (2 j)
    then have "j \<noteq> i" "send_step sys (L_resume j) (resume_wait j Operation_aborted sys)"
      using assms(2) by (auto simp: woken_def waiting_def intro: send_step.step_resume)
    then show ?thesis by blast
  qed
qed

end
