(* ===== verification/Session_Receive.thy ===== *)
theory Session_Receive
  imports Session
begin

text \<open>
  The receiving half of \<open>session.hpp\<close>: \<open>session::receive_op\<close>, the coroutine behind
  \<open>async_receive\<close>. Its data members are the record \<open>receive_op\<close>; the point it is suspended at is a
  \<open>receive_pc\<close>. \<open>receive_loop\<close> is the body of the \<open>for(;;)\<close> from its head, and there is one
  \<open>resume_*\<close> function for the code after each \<open>BOOST_ASIO_CORO_YIELD\<close>. Each returns what the coroutine
  does next: an asynchronous operation it starts, or its completion.

  The loop goes round without suspending when it consumes an \<open>enquire_link_resp\<close>, so it is a
  \<open>partial_function\<close>: \<open>None\<close> says that it never suspends nor completes. \<open>Undefined_behaviour\<close> is the
  construction of a \<open>std::span\<close> whose end lies before its beginning. The fixed-extent span over the
  receive buffer is read as its first 16 octets.
\<close>

datatype receive_pc =
  Recv_start | Recv_reading | Recv_unbinding | Recv_enquiring | Recv_answering_enquire
| Recv_answering_unbind | Recv_posted | Recv_done

record receive_op =
  op_command_length :: u32
  op_command_id :: command_id
  op_command_status :: command_status
  op_sequence_number :: u32
  needs_more :: bool
  needs_post :: bool
  pending_enquire_link :: bool

definition receive_op_new :: receive_op where
  "receive_op_new =
     \<lparr>op_command_length = 0, op_command_id = Command_id 0, op_command_status = Command_status 0,
      op_sequence_number = 0, needs_more = False, needs_post = True, pending_enquire_link = False\<rparr>"

text \<open>\<open>Read_some off n\<close>: \<open>async_read_some\<close> into the \<open>n\<close> octets at \<open>off\<close> of the receive buffer's array.\<close>

datatype receive_action =
  Read_some nat nat
| Send_cmd command_id u32
| Post
| Complete error_code pdu_variant u32 command_status
| Throws exn
| Undefined_behaviour

type_synonym receive_state = "receive_pc \<times> receive_op \<times> session"

type_synonym receive_result = "receive_action \<times> receive_state"

definition pdu_variant_default :: pdu_variant where
  "pdu_variant_default = Pdu_alert_notification alert_notification_default"

definition complete_with :: "error_code \<Rightarrow> receive_op \<Rightarrow> session \<Rightarrow> receive_result" where
  "complete_with ec op s =
     (Complete ec pdu_variant_default 0 (Command_status 0), Recv_done, op, s)"

definition consume :: "u32 \<Rightarrow> session \<Rightarrow> session" where
  "consume n s = s\<lparr>receive_buf := fb_consume (unat n) (receive_buf s)\<rparr>"

subsection \<open>The loop\<close>

text \<open>\<open>if(needs_more_)\<close>, up to the read.\<close>

definition start_read :: "receive_op \<Rightarrow> session \<Rightarrow> receive_result" where
  "start_read op s =
     (let op = op\<lparr>needs_more := False, needs_post := False\<rparr>;
          b = receive_buf s
      in case fb_prepare (fb_capacity b - fb_size b) b of
           (Inl e, b) \<Rightarrow> (Throws e, Recv_done, op, s\<lparr>receive_buf := b\<rparr>)
         | (Inr (off, n), b) \<Rightarrow> (Read_some off n, Recv_reading, op, s\<lparr>receive_buf := b\<rparr>))"

text \<open>From \<open>body_buf\<close> to the completion with a PDU.\<close>

definition deliver_pdu :: "receive_op \<Rightarrow> session \<Rightarrow> receive_result" where
  "deliver_pdu op s =
     (let len = unat (op_command_length op)
      in if len < header_length then (Undefined_behaviour, Recv_done, op, s)
         else (Complete No_error (decode_pdu (op_command_id op) (take len (fb_data (receive_buf s))))
                 (op_sequence_number op) (op_command_status op),
               Recv_done, op, consume (op_command_length op) s))"

text \<open>\<open>shutdown_socket\<close>, \<open>consume\<close> and the completion with \<open>unbinded\<close>.\<close>

definition finish_unbind :: "receive_op \<Rightarrow> session \<Rightarrow> receive_result" where
  "finish_unbind op s =
     complete_with (make_error_code error_unbinded) op
       (consume (op_command_length op) (shutdown_socket s))"

partial_function (option) receive_loop :: "receive_op \<Rightarrow> session \<Rightarrow> receive_result option" where
  "receive_loop op s =
     (if needs_more op then Some (start_read op s)
      else if fb_size (receive_buf s) < header_length
      then receive_loop (op\<lparr>needs_more := True\<rparr>) s
      else
        let (command_length, command_id, command_status, sequence_number) =
              deserialize_header (take header_length (fb_data (receive_buf s)));
            op = op\<lparr>op_command_length := command_length, op_command_id := command_id,
                   op_command_status := command_status, op_sequence_number := sequence_number\<rparr>
        in if fb_size (receive_buf s) < unat command_length
           then receive_loop (op\<lparr>needs_more := True\<rparr>) s
           else if command_id = command_id_enquire_link
           then Some (Send_cmd command_id_enquire_link_resp sequence_number,
                      Recv_answering_enquire, op, s)
           else if command_id = command_id_enquire_link_resp
           then receive_loop op (consume command_length s)
           else if command_id = command_id_unbind
           then Some (Send_cmd command_id_unbind_resp sequence_number, Recv_answering_unbind, op, s)
           else if command_id = command_id_unbind_resp
           then Some (finish_unbind op s)
           else if needs_post op then Some (Post, Recv_posted, op, s)
           else Some (deliver_pdu op s))"

subsection \<open>The code after each suspension\<close>

text \<open>\<open>async_receive\<close>: the coroutine's first run.\<close>

definition async_receive :: "session \<Rightarrow> receive_result option" where
  "async_receive s = receive_loop receive_op_new s"

text \<open>
  The socket stored \<open>bytes\<close> in the prepared region and completes the read with \<open>ec\<close>; \<open>cancelled\<close> tells
  that the client cancelled the operation, so that \<open>operation_aborted\<close> does not come from the timer.
\<close>

definition resume_read ::
    "octets \<Rightarrow> error_code \<Rightarrow> bool \<Rightarrow> receive_op \<Rightarrow> session \<Rightarrow> receive_result option" where
  "resume_read bytes ec cancelled op s =
     (let received = length bytes;
          b = memory_write (fb_out (receive_buf s)) bytes (receive_buf s);
          (op, s) = (if received \<noteq> 0
                     then (op\<lparr>pending_enquire_link := False\<rparr>, s\<lparr>receive_buf := fb_commit received b\<rparr>)
                     else (op, s))
      in if ec = Operation_aborted \<and> \<not> cancelled
         then if pending_enquire_link op
              then let (n, s) = next_sequence_number s
                   in Some (Send_cmd command_id_unbind n, Recv_unbinding, op, s)
              else let (n, s) = next_sequence_number s
                   in Some (Send_cmd command_id_enquire_link n, Recv_enquiring,
                            op\<lparr>pending_enquire_link := True\<rparr>, s)
         else if failed ec then Some (complete_with ec op s)
         else receive_loop op s)"

definition resume_unbinding :: "error_code \<Rightarrow> receive_op \<Rightarrow> session \<Rightarrow> receive_result option" where
  "resume_unbinding ec op s =
     Some (complete_with (make_error_code error_enquire_link_timeout) op (shutdown_socket s))"

definition resume_enquiring :: "error_code \<Rightarrow> receive_op \<Rightarrow> session \<Rightarrow> receive_result option" where
  "resume_enquiring ec op s =
     (if failed ec then Some (complete_with ec op s) else receive_loop op s)"

definition resume_answering_enquire ::
    "error_code \<Rightarrow> receive_op \<Rightarrow> session \<Rightarrow> receive_result option" where
  "resume_answering_enquire ec op s = receive_loop op (consume (op_command_length op) s)"

definition resume_answering_unbind ::
    "error_code \<Rightarrow> receive_op \<Rightarrow> session \<Rightarrow> receive_result option" where
  "resume_answering_unbind ec op s =
     Some (if failed ec then complete_with ec op s else finish_unbind op s)"

definition resume_posted :: "receive_op \<Rightarrow> session \<Rightarrow> receive_result option" where
  "resume_posted op s = Some (deliver_pdu op s)"

subsection \<open>Events\<close>

text \<open>What Asio reports back to the suspended coroutine.\<close>

datatype receive_event = Read_done octets error_code bool | Sent error_code | Posted

fun resume :: "receive_event \<Rightarrow> receive_state \<Rightarrow> receive_result option" where
  "resume (Read_done bytes ec cancelled) (Recv_reading, op, s) = resume_read bytes ec cancelled op s"
| "resume (Sent ec) (Recv_unbinding, op, s) = resume_unbinding ec op s"
| "resume (Sent ec) (Recv_enquiring, op, s) = resume_enquiring ec op s"
| "resume (Sent ec) (Recv_answering_enquire, op, s) = resume_answering_enquire ec op s"
| "resume (Sent ec) (Recv_answering_unbind, op, s) = resume_answering_unbind ec op s"
| "resume Posted (Recv_posted, op, s) = resume_posted op s"
| "resume _ st = None"

end
