(* ===== verification/Receive_Stream.thy ===== *)
theory Receive_Stream
  imports Session_Receive
begin

text \<open>
  What the receiver makes of a stream of octets, however the network cuts it into reads. \<open>drive\<close> runs
  the coroutine against an environment that answers every read with octets of the next chunk, lets
  every send succeed and calls \<open>async_receive\<close> again after every delivered PDU. \<open>expected\<close> is the
  abstract specification, on whole frames. The main lemma, \<open>drive_stream\<close>, says that \<open>drive\<close>
  implements \<open>expected\<close> for every chunking.
\<close>

subsection \<open>Sessions seen through the contents of the receive buffer\<close>

definition received :: "session \<Rightarrow> octets" where
  "received s = fb_data (receive_buf s)"

definition receive_inv :: "nat \<Rightarrow> session \<Rightarrow> bool" where
  "receive_inv cap s \<longleftrightarrow> fb_inv (receive_buf s) \<and> fb_capacity (receive_buf s) = cap"

lemma receive_inv_size: "receive_inv cap s \<Longrightarrow> fb_size (receive_buf s) = length (received s)"
  by (simp add: receive_inv_def received_def length_fb_data)

lemma receive_inv_bound: "receive_inv cap s \<Longrightarrow> length (received s) \<le> cap"
  using fb_size_le receive_inv_size by (fastforce simp: receive_inv_def)

lemma consume_effect:
  assumes "receive_inv cap s"
  shows "receive_inv cap (consume n s)" "received (consume n s) = drop (unat n) (received s)"
    "socket_open (consume n s) = socket_open s"
    "sequence_number (consume n s) = sequence_number s"
  using assms by (simp_all add: receive_inv_def received_def consume_def fb_consume_effect)

lemma start_read_effect:
  assumes "receive_inv cap s"
  shows "\<exists>off s'. start_read op s =
           (Read_some off (cap - length (received s)), Recv_reading,
            op\<lparr>needs_more := False, needs_post := False\<rparr>, s') \<and>
         receive_inv cap s' \<and> received s' = received s \<and> socket_open s' = socket_open s \<and>
         sequence_number s' = sequence_number s \<and>
         fb_out (receive_buf s') = off \<and> fb_last (receive_buf s') = off + (cap - length (received s))"
proof -
  have b: "fb_inv (receive_buf s)" "fb_capacity (receive_buf s) = cap"
    using assms by (simp_all add: receive_inv_def)
  obtain off b' where p: "fb_prepare (cap - length (received s)) (receive_buf s) =
      (Inr (off, cap - length (received s)), b')"
    using fb_prepare_fits [OF b(1), of "cap - length (received s)"] b receive_inv_size [OF assms] by auto
  show ?thesis
    using fb_prepare_effect [OF b(1) p] p b receive_inv_size [OF assms]
    by (simp add: start_read_def receive_inv_def received_def Let_def)
qed

text \<open>The read region, between \<open>start_read\<close> and its completion.\<close>

definition reading :: "nat \<Rightarrow> session \<Rightarrow> bool" where
  "reading cap s \<longleftrightarrow> receive_inv cap s \<and>
     fb_last (receive_buf s) = fb_out (receive_buf s) + (cap - length (received s))"

lemma resume_read_data:
  assumes "reading cap s" "length bytes \<le> cap - length (received s)" "bytes \<noteq> []"
  shows "\<exists>s'. resume_read bytes No_error cancelled op s =
                receive_loop (op\<lparr>pending_enquire_link := False\<rparr>) s' \<and>
              receive_inv cap s' \<and> received s' = received s @ bytes \<and>
              socket_open s' = socket_open s \<and> sequence_number s' = sequence_number s"
proof -
  let ?b = "fb_commit (length bytes) (memory_write (fb_out (receive_buf s)) bytes (receive_buf s))"
  let ?s = "s\<lparr>receive_buf := ?b\<rparr>"
  have "fb_inv (receive_buf s)" "length bytes \<le> fb_last (receive_buf s) - fb_out (receive_buf s)"
    using assms by (simp_all add: reading_def receive_inv_def)
  note w = fb_write_commit [OF this]
  have "resume_read bytes No_error cancelled op s =
      receive_loop (op\<lparr>pending_enquire_link := False\<rparr>) ?s"
    using assms(3) by (simp add: resume_read_def Let_def)
  moreover have "receive_inv cap ?s" "received ?s = received s @ bytes"
    using w assms(1) by (simp_all add: receive_inv_def received_def reading_def)
  ultimately show ?thesis by fastforce
qed

subsection \<open>One turn of the loop\<close>

definition frame_header :: "octets \<Rightarrow> u32 \<times> command_id \<times> command_status \<times> u32" where
  "frame_header data = deserialize_header (take header_length data)"

definition complete_frame :: "octets \<Rightarrow> bool" where
  "complete_frame data \<longleftrightarrow>
     header_length \<le> length data \<and> unat (fst (frame_header data)) \<le> length data"

definition with_header :: "octets \<Rightarrow> receive_op \<Rightarrow> receive_op" where
  "with_header data op =
     (case frame_header data of (len, cid, st, n) \<Rightarrow>
        op\<lparr>op_command_length := len, op_command_id := cid, op_command_status := st,
           op_sequence_number := n\<rparr>)"

lemma with_header_simps [simp]:
  "needs_more (with_header data op) = needs_more op"
  "needs_post (with_header data op) = needs_post op"
  "pending_enquire_link (with_header data op) = pending_enquire_link op"
  "op_command_length (with_header data op) = fst (frame_header data)"
  "op_command_id (with_header data op) = fst (snd (frame_header data))"
  "op_command_status (with_header data op) = fst (snd (snd (frame_header data)))"
  "op_sequence_number (with_header data op) = snd (snd (snd (frame_header data)))"
  by (simp_all add: with_header_def split: prod.split)

lemma receive_loop_needs_more: "needs_more op \<Longrightarrow> receive_loop op s = Some (start_read op s)"
  by (subst receive_loop.simps) simp

lemma receive_loop_incomplete:
  assumes "receive_inv cap s" "\<not> needs_more op" "\<not> complete_frame (received s)"
  shows "\<exists>op'. receive_loop op s = Some (start_read op' s) \<and> needs_more op' \<and>
               pending_enquire_link op' = pending_enquire_link op"
proof (cases "length (received s) < header_length")
  case True
  then have "receive_loop op s = receive_loop (op\<lparr>needs_more := True\<rparr>) s"
    using assms by (subst receive_loop.simps) (simp add: receive_inv_size)
  then show ?thesis using receive_loop_needs_more [of "op\<lparr>needs_more := True\<rparr>" s] by force
next
  case False
  then have "length (received s) < unat (fst (frame_header (received s)))"
    using assms(3) by (simp add: complete_frame_def)
  then have "receive_loop op s = receive_loop ((with_header (received s) op)\<lparr>needs_more := True\<rparr>) s"
    using assms False
    by (subst receive_loop.simps)
      (auto simp: receive_inv_size with_header_def frame_header_def received_def [symmetric]
        split: prod.splits)
  then show ?thesis
    using receive_loop_needs_more [of "(with_header (received s) op)\<lparr>needs_more := True\<rparr>" s] by force
qed

lemma receive_loop_complete:
  assumes "receive_inv cap s" "\<not> needs_more op" "complete_frame (received s)"
    "frame_header (received s) = (len, cid, st, n)"
  shows "receive_loop op s =
     (let op = with_header (received s) op
      in if cid = command_id_enquire_link
         then Some (Send_cmd command_id_enquire_link_resp n, Recv_answering_enquire, op, s)
         else if cid = command_id_enquire_link_resp then receive_loop op (consume len s)
         else if cid = command_id_unbind
         then Some (Send_cmd command_id_unbind_resp n, Recv_answering_unbind, op, s)
         else if cid = command_id_unbind_resp then Some (finish_unbind op s)
         else if needs_post op then Some (Post, Recv_posted, op, s)
         else Some (deliver_pdu op s))"
  using assms
  by (subst receive_loop.simps)
    (simp add: receive_inv_size complete_frame_def with_header_def frame_header_def
      received_def [symmetric] Let_def)

subsection \<open>The environment\<close>

fun emit :: "receive_action \<Rightarrow> (receive_action list \<times> receive_state) option \<Rightarrow>
    (receive_action list \<times> receive_state) option" where
  "emit a None = None"
| "emit a (Some (acts, st)) = Some (a # acts, st)"

fun drive :: "nat \<Rightarrow> octets list \<Rightarrow> receive_result option \<Rightarrow>
    (receive_action list \<times> receive_state) option" where
  "drive 0 chunks r = None"
| "drive (Suc fuel) chunks None = None"
| "drive (Suc fuel) chunks (Some (act, st)) =
     (case act of
        Read_some off n \<Rightarrow>
          (case chunks of
             [] \<Rightarrow> Some ([], st)
           | c # cs \<Rightarrow>
               drive fuel (if drop n c = [] then cs else drop n c # cs)
                 (resume (Read_done (take n c) No_error False) st))
      | Send_cmd _ _ \<Rightarrow> emit act (drive fuel chunks (resume (Sent No_error) st))
      | Post \<Rightarrow> drive fuel chunks (resume Posted st)
      | Complete ec _ _ _ \<Rightarrow>
          if failed ec then Some ([act], st)
          else emit act (drive fuel chunks (async_receive (snd (snd st))))
      | Throws _ \<Rightarrow> Some ([act], st)
      | Undefined_behaviour \<Rightarrow> Some ([act], st))"

subsection \<open>The specification on whole frames\<close>

definition good_frame :: "nat \<Rightarrow> octets \<Rightarrow> bool" where
  "good_frame cap w \<longleftrightarrow> header_length \<le> length w \<and> length w \<le> cap \<and>
     unat (fst (frame_header w)) = length w"

definition ends_session :: "octets \<Rightarrow> bool" where
  "ends_session w \<longleftrightarrow> fst (snd (frame_header w)) \<in> {command_id_unbind, command_id_unbind_resp}"

definition completed :: "error_code \<Rightarrow> receive_action" where
  "completed ec = Complete ec pdu_variant_default 0 (Command_status 0)"

definition frame_actions :: "octets \<Rightarrow> receive_action list" where
  "frame_actions w =
     (case frame_header w of (_, cid, st, n) \<Rightarrow>
        if cid = command_id_enquire_link then [Send_cmd command_id_enquire_link_resp n]
        else if cid = command_id_enquire_link_resp then []
        else if cid = command_id_unbind
        then [Send_cmd command_id_unbind_resp n, completed (make_error_code error_unbinded)]
        else if cid = command_id_unbind_resp then [completed (make_error_code error_unbinded)]
        else [Complete No_error (decode_pdu cid w) n st])"

fun expected :: "octets list \<Rightarrow> receive_action list" where
  "expected [] = []"
| "expected (w # ws) = frame_actions w @ (if ends_session w then [] else expected ws)"

lemma frame_header_append:
  "header_length \<le> length w \<Longrightarrow> frame_header (w @ d) = frame_header w"
  by (simp add: frame_header_def)

lemma frame_header_prefix:
  assumes "d @ e = w @ rest" "header_length \<le> length w" "header_length \<le> length d"
  shows "frame_header d = frame_header w"
proof -
  have "take header_length d = take header_length (d @ e)" using assms(3) by simp
  also have "\<dots> = take header_length w" unfolding assms(1) using assms(2) by simp
  finally have "take header_length d = take header_length w" .
  then show ?thesis by (simp add: frame_header_def)
qed

lemma complete_frame_prefix:
  assumes "d @ e = w @ rest" "good_frame cap w"
  shows "complete_frame d \<longleftrightarrow> length w \<le> length d"
proof (cases "header_length \<le> length d")
  case True
  then show ?thesis
    using assms frame_header_prefix [OF assms(1)] by (auto simp: complete_frame_def good_frame_def)
next
  case False
  then show ?thesis using assms by (auto simp: complete_frame_def good_frame_def)
qed

text \<open>The four commands the session handles itself have different numbers.\<close>

lemma session_commands_distinct [simp]:
  "command_id_enquire_link_resp \<noteq> command_id_enquire_link"
  "command_id_unbind \<noteq> command_id_enquire_link" "command_id_unbind \<noteq> command_id_enquire_link_resp"
  "command_id_unbind_resp \<noteq> command_id_enquire_link"
  "command_id_unbind_resp \<noteq> command_id_enquire_link_resp"
  "command_id_unbind_resp \<noteq> command_id_unbind"
  by (simp_all add: enum_values)

text \<open>A session at rest in the middle of a stream: what is left in the buffer and still to come.\<close>

definition stream_ok :: "nat \<Rightarrow> octets list \<Rightarrow> octets list \<Rightarrow> session \<Rightarrow> bool" where
  "stream_ok cap ws cs s \<longleftrightarrow>
     receive_inv cap s \<and> received s @ concat cs = concat ws \<and> list_all (good_frame cap) ws \<and>
     [] \<notin> set cs"

text \<open>What a run ends with: everything consumed and a read pending, or the socket shut down.\<close>

definition stream_end :: "nat \<Rightarrow> octets list \<Rightarrow> session \<Rightarrow> receive_state \<Rightarrow> bool" where
  "stream_end cap ws s st \<longleftrightarrow>
     (case st of (pc, op, s') \<Rightarrow>
        receive_inv cap s' \<and> sequence_number s' = sequence_number s \<and>
        (if list_ex ends_session ws then pc = Recv_done \<and> \<not> socket_open s'
         else pc = Recv_reading \<and> reading cap s' \<and> received s' = [] \<and>
              socket_open s' = socket_open s))"

lemma stream_end_trans:
  assumes "stream_end cap ws s' st" "sequence_number s' = sequence_number s"
    "socket_open s' = socket_open s" "list_ex ends_session ws = list_ex ends_session ws'"
  shows "stream_end cap ws' s st"
  using assms by (auto simp: stream_end_def split: prod.splits)

lemma drive_stream_read:
  assumes ok: "stream_ok cap (w # ws) cs s" and op: "\<not> needs_more op"
    and short: "length (received s) < length w"
  shows "\<exists>cs' op' s'. (\<forall>fuel. drive (Suc fuel) cs (receive_loop op s) = drive fuel cs' (receive_loop op' s')) \<and>
           stream_ok cap (w # ws) cs' s' \<and> length (concat cs') < length (concat cs) \<and>
           \<not> needs_more op' \<and> sequence_number s' = sequence_number s \<and>
           socket_open s' = socket_open s"
proof -
  have inv: "receive_inv cap s" and eq: "received s @ concat cs = w @ concat ws"
    and w: "good_frame cap w" and ne: "[] \<notin> set cs"
    using ok by (simp_all add: stream_ok_def)
  have "\<not> complete_frame (received s)" using complete_frame_prefix [OF eq w] short by simp
  then obtain op1 where loop: "receive_loop op s = Some (start_read op1 s)"
    using receive_loop_incomplete [OF inv op] by blast
  obtain off s1 where rd: "start_read op1 s = (Read_some off (cap - length (received s)), Recv_reading,
      op1\<lparr>needs_more := False, needs_post := False\<rparr>, s1)"
    and s1: "receive_inv cap s1" "received s1 = received s" "socket_open s1 = socket_open s"
      "sequence_number s1 = sequence_number s" "fb_out (receive_buf s1) = off"
      "fb_last (receive_buf s1) = off + (cap - length (received s))"
    using start_read_effect [OF inv] by blast
  let ?n = "cap - length (received s)" and ?op = "op1\<lparr>needs_more := False, needs_post := False\<rparr>"
  have n: "0 < ?n" using short w by (simp add: good_frame_def)
  have "cs \<noteq> []"
  proof
    assume "cs = []"
    then have "length (received s) = length w + length (concat ws)" using arg_cong [OF eq, of length] by simp
    then show False using short by simp
  qed
  then obtain c cs1 where cs: "cs = c # cs1" by (cases cs) auto
  then have c: "c \<noteq> []" using ne by auto
  let ?cs = "if drop ?n c = [] then cs1 else drop ?n c # cs1"
  have "reading cap s1" using s1 by (simp add: reading_def)
  moreover have "take ?n c \<noteq> []" using n c by simp
  moreover have "length (take ?n c) \<le> cap - length (received s1)" using s1 by simp
  ultimately obtain s2 where r: "resume_read (take ?n c) No_error False ?op s1 =
      receive_loop (?op\<lparr>pending_enquire_link := False\<rparr>) s2"
    and s2: "receive_inv cap s2" "received s2 = received s1 @ take ?n c"
      "socket_open s2 = socket_open s1" "sequence_number s2 = sequence_number s1"
    using resume_read_data [of cap s1 "take ?n c" False ?op] by blast
  have "\<forall>fuel. drive (Suc fuel) cs (receive_loop op s) =
      drive fuel ?cs (receive_loop (?op\<lparr>pending_enquire_link := False\<rparr>) s2)"
    by (simp add: loop rd cs r)
  moreover have "concat cs = take ?n c @ concat ?cs" using cs by simp
  then have "stream_ok cap (w # ws) ?cs s2" "length (concat ?cs) < length (concat cs)"
    using ok s1 s2 cs n c by (auto simp: stream_ok_def)
  moreover have "\<not> needs_more (?op\<lparr>pending_enquire_link := False\<rparr>)" by simp
  ultimately show ?thesis using s1 s2 by metis
qed

lemma received_frame:
  assumes ok: "stream_ok cap (w # ws) cs s" and long: "length w \<le> length (received s)"
    and len: "len = fst (frame_header w)"
  shows "take (length w) (received s) = w" "stream_ok cap ws cs (consume len s)"
    "unat len = length w" "complete_frame (received s)" "frame_header (received s) = frame_header w"
proof -
  have inv: "receive_inv cap s" and eq: "received s @ concat cs = w @ concat ws"
    and w: "good_frame cap w"
    using ok by (simp_all add: stream_ok_def)
  show tk: "take (length w) (received s) = w"
    using arg_cong [OF eq, of "take (length w)"] long by simp
  show u: "unat len = length w" using w len by (simp add: good_frame_def)
  have "received s = w @ drop (length w) (received s)" using tk by (metis append_take_drop_id)
  then have "drop (length w) (received s) @ concat cs = concat ws"
    using eq by (metis append.assoc same_append_eq)
  then show "stream_ok cap ws cs (consume len s)"
    using ok u consume_effect [OF inv] by (simp add: stream_ok_def)
  show "complete_frame (received s)" using complete_frame_prefix [OF eq w] long by simp
  show "frame_header (received s) = frame_header w"
    using frame_header_prefix [OF eq] w long by (simp add: good_frame_def)
qed

lemma deliver_good_frame:
  assumes "receive_inv cap s" "good_frame cap w" "take (length w) (received s) = w"
    "frame_header (received s) = frame_header w" "frame_header w = (len, cid, st, n)"
  shows "deliver_pdu (with_header (received s) op) s =
           (Complete No_error (decode_pdu cid w) n st, Recv_done, with_header (received s) op,
            consume len s)"
  using assms by (simp add: deliver_pdu_def Let_def good_frame_def received_def)

text \<open>A PDU for the client: with or without the \<open>asio::post\<close>, the run goes on in a new operation.\<close>

lemma drive_deliver:
  assumes ok: "stream_ok cap (w # ws) cs s" and op: "\<not> needs_more op"
    and long: "length w \<le> length (received s)" and h: "frame_header w = (len, cid, st, n)"
    and other: "cid \<noteq> command_id_enquire_link" "cid \<noteq> command_id_enquire_link_resp"
      "cid \<noteq> command_id_unbind" "cid \<noteq> command_id_unbind_resp"
  shows "\<exists>k. \<forall>fuel. drive (k + fuel) cs (receive_loop op s) =
           emit (Complete No_error (decode_pdu cid w) n st)
             (drive fuel cs (receive_loop receive_op_new (consume len s)))"
proof -
  have inv: "receive_inv cap s" and w: "good_frame cap w"
    using ok by (simp_all add: stream_ok_def)
  note rf = received_frame [OF ok long, of len, unfolded h, simplified]
  note loop = receive_loop_complete [OF inv op rf(4), unfolded rf(5), OF refl, unfolded Let_def]
  note deliver = deliver_good_frame [OF inv w rf(1) _ h, unfolded h, OF rf(5)]
  show ?thesis
  proof (cases "needs_post op")
    case True
    then have "\<forall>fuel. drive (2 + fuel) cs (receive_loop op s) =
        emit (Complete No_error (decode_pdu cid w) n st)
          (drive fuel cs (receive_loop receive_op_new (consume len s)))"
      using loop other by (simp add: resume_posted_def deliver async_receive_def)
    then show ?thesis by (rule exI)
  next
    case False
    then have "\<forall>fuel. drive (1 + fuel) cs (receive_loop op s) =
        emit (Complete No_error (decode_pdu cid w) n st)
          (drive fuel cs (receive_loop receive_op_new (consume len s)))"
      using loop other by (simp add: deliver async_receive_def)
    then show ?thesis by (rule exI)
  qed
qed

lemma drive_stream_frame:
  assumes ok: "stream_ok cap (w # ws) cs s" and op: "\<not> needs_more op"
    and long: "length w \<le> length (received s)" and go: "\<not> ends_session w"
  shows "\<exists>k op' s'. (\<forall>fuel acts st. drive fuel cs (receive_loop op' s') = Some (acts, st) \<longrightarrow>
             drive (k + fuel) cs (receive_loop op s) = Some (frame_actions w @ acts, st)) \<and>
           stream_ok cap ws cs s' \<and> \<not> needs_more op' \<and>
           sequence_number s' = sequence_number s \<and> socket_open s' = socket_open s"
proof -
  obtain len cid st n where h: "frame_header w = (len, cid, st, n)" by (metis prod_cases4)
  have inv: "receive_inv cap s" and w: "good_frame cap w"
    using ok by (simp_all add: stream_ok_def)
  note rf = received_frame [OF ok long, of len, unfolded h, simplified]
  let ?op = "with_header (received s) op" and ?s = "consume len s"
  note loop = receive_loop_complete [OF inv op rf(4), unfolded rf(5), OF refl, unfolded Let_def]
  note eff = consume_effect [OF inv, of len]
  have opcl: "op_command_length ?op = len" using rf(5) by simp
  consider "cid = command_id_enquire_link" | "cid = command_id_enquire_link_resp"
    | "cid \<noteq> command_id_enquire_link" "cid \<noteq> command_id_enquire_link_resp"
      "cid \<noteq> command_id_unbind" "cid \<noteq> command_id_unbind_resp"
    using go by (auto simp: ends_session_def h)
  then show ?thesis
  proof cases
    case 1
    then have "drive (Suc fuel) cs (receive_loop op s) =
        emit (Send_cmd command_id_enquire_link_resp n) (drive fuel cs (receive_loop ?op ?s))" for fuel
      using loop opcl by (simp add: resume_answering_enquire_def)
    then have "\<forall>fuel acts st. drive fuel cs (receive_loop ?op ?s) = Some (acts, st) \<longrightarrow>
        drive (1 + fuel) cs (receive_loop op s) = Some (frame_actions w @ acts, st)"
      using 1 by (simp add: frame_actions_def h)
    then show ?thesis using rf(2) op eff by (metis with_header_simps(1))
  next
    case 2
    then have "receive_loop op s = receive_loop ?op ?s" using loop by simp
    moreover have "frame_actions w = []" using 2 by (simp add: frame_actions_def h)
    ultimately have "\<forall>fuel acts st. drive fuel cs (receive_loop ?op ?s) = Some (acts, st) \<longrightarrow>
        drive (0 + fuel) cs (receive_loop op s) = Some (frame_actions w @ acts, st)"
      by simp
    then show ?thesis using rf(2) op eff by (metis with_header_simps(1))
  next
    case 3
    have acts: "frame_actions w = [Complete No_error (decode_pdu cid w) n st]"
      using 3 by (simp add: frame_actions_def h)
    obtain k where "\<And>fuel. drive (k + fuel) cs (receive_loop op s) =
        emit (Complete No_error (decode_pdu cid w) n st) (drive fuel cs (receive_loop receive_op_new ?s))"
      using drive_deliver [OF ok op long h 3] by blast
    then have "\<forall>fuel acts st. drive fuel cs (receive_loop receive_op_new ?s) = Some (acts, st) \<longrightarrow>
        drive (k + fuel) cs (receive_loop op s) = Some (frame_actions w @ acts, st)"
      by (simp add: acts)
    moreover have "\<not> needs_more receive_op_new" by (simp add: receive_op_new_def)
    ultimately show ?thesis using rf(2) eff by metis
  qed
qed

lemma drive_stream_unbind:
  assumes ok: "stream_ok cap (w # ws) cs s" and op: "\<not> needs_more op"
    and long: "length w \<le> length (received s)" and stop: "ends_session w"
  shows "\<exists>k st. drive k cs (receive_loop op s) = Some (frame_actions w, st) \<and>
           stream_end cap (w # ws) s st"
proof -
  obtain len cid st n where h: "frame_header w = (len, cid, st, n)" by (metis prod_cases4)
  have inv: "receive_inv cap s" using ok by (simp add: stream_ok_def)
  note rf = received_frame [OF ok long, of len, unfolded h, simplified]
  let ?op = "with_header (received s) op"
  let ?s = "consume len (shutdown_socket s)"
  note loop = receive_loop_complete [OF inv op rf(4), unfolded rf(5), OF refl, unfolded Let_def]
  have opcl: "op_command_length ?op = len" using rf(5) by simp
  have fin: "finish_unbind ?op s = (completed (make_error_code error_unbinded), Recv_done, ?op, ?s)"
    by (simp add: finish_unbind_def complete_with_def completed_def rf(5))
  have "receive_inv cap (shutdown_socket s)" using inv by (simp add: receive_inv_def shutdown_socket_def)
  then have e: "stream_end cap (w # ws) s (Recv_done, ?op, ?s)"
    using consume_effect [of cap "shutdown_socket s"] stop
    by (simp add: stream_end_def shutdown_socket_def)
  have f: "failed (make_error_code error_unbinded)"
    by (simp add: make_error_code_def error_unbinded_def)
  consider "cid = command_id_unbind" | "cid = command_id_unbind_resp"
    using stop by (auto simp: ends_session_def h)
  then show ?thesis
  proof cases
    case 1
    then have "drive 2 cs (receive_loop op s) = Some (frame_actions w, Recv_done, ?op, ?s)"
      using loop f
      by (simp add: resume_answering_unbind_def fin frame_actions_def h numeral_2_eq_2
          completed_def)
    then show ?thesis using e by blast
  next
    case 2
    then have "drive 1 cs (receive_loop op s) = Some (frame_actions w, Recv_done, ?op, ?s)"
      using loop f by (simp add: fin frame_actions_def h completed_def)
    then show ?thesis using e by blast
  qed
qed

lemma drive_stream_empty:
  assumes ok: "stream_ok cap [] cs s" and op: "\<not> needs_more op"
  shows "\<exists>st. drive 1 cs (receive_loop op s) = Some ([], st) \<and> stream_end cap [] s st"
proof -
  have inv: "receive_inv cap s" and e: "received s = []" and cs: "cs = []"
    using ok by (cases cs; fastforce simp: stream_ok_def)+
  have "\<not> complete_frame (received s)" by (simp add: e complete_frame_def header_length_def)
  then obtain op1 where loop: "receive_loop op s = Some (start_read op1 s)"
    using receive_loop_incomplete [OF inv op] by blast
  obtain off s1 where rd: "start_read op1 s = (Read_some off (cap - length (received s)), Recv_reading,
      op1\<lparr>needs_more := False, needs_post := False\<rparr>, s1)"
    and s1: "receive_inv cap s1" "received s1 = received s" "socket_open s1 = socket_open s"
      "sequence_number s1 = sequence_number s" "fb_out (receive_buf s1) = off"
      "fb_last (receive_buf s1) = off + (cap - length (received s))"
    using start_read_effect [OF inv] by blast
  then show ?thesis by (simp add: loop rd cs stream_end_def reading_def e)
qed

text \<open>The receiver implements the specification, whatever the chunks, and does so in finitely many steps.\<close>

lemma drive_stream:
  assumes "stream_ok cap ws cs s" "\<not> needs_more op"
  shows "\<exists>fuel st. drive fuel cs (receive_loop op s) = Some (expected ws, st) \<and> stream_end cap ws s st"
  using assms
proof (induction "length ws + length (concat cs)" arbitrary: ws cs s op rule: less_induct)
  case less
  show ?case
  proof (cases ws)
    case Nil
    then show ?thesis using drive_stream_empty less.prems by fastforce
  next
    case (Cons w ws1)
    note ok = less.prems(1) [unfolded Cons]
    consider "length (received s) < length w" | "length w \<le> length (received s)" "ends_session w"
      | "length w \<le> length (received s)" "\<not> ends_session w"
      by linarith
    then show ?thesis
    proof cases
      case 1
      obtain cs' op' s' where step: "\<forall>fuel. drive (Suc fuel) cs (receive_loop op s) = drive fuel cs' (receive_loop op' s')"
        and s': "stream_ok cap ws cs' s'" "length (concat cs') < length (concat cs)" "\<not> needs_more op'"
          "sequence_number s' = sequence_number s" "socket_open s' = socket_open s"
        using drive_stream_read [OF ok less.prems(2) 1] Cons by blast
      obtain fuel st where "drive fuel cs' (receive_loop op' s') = Some (expected ws, st)"
        "stream_end cap ws s' st"
        using less.hyps [OF _ s'(1,3)] s'(2) by auto
      then show ?thesis using step stream_end_trans s'(4,5) by metis
    next
      case 2
      then show ?thesis using drive_stream_unbind [OF ok less.prems(2)] Cons by fastforce
    next
      case 3
      obtain k op' s' where step: "\<forall>fuel acts st. drive fuel cs (receive_loop op' s') = Some (acts, st) \<longrightarrow>
            drive (k + fuel) cs (receive_loop op s) = Some (frame_actions w @ acts, st)"
        and s': "stream_ok cap ws1 cs s'" "\<not> needs_more op'"
          "sequence_number s' = sequence_number s" "socket_open s' = socket_open s"
        using drive_stream_frame [OF ok less.prems(2) 3] by blast
      obtain fuel st where d: "drive fuel cs (receive_loop op' s') = Some (expected ws1, st)"
        "stream_end cap ws1 s' st"
        using less.hyps [OF _ s'(1,2)] Cons by auto
      have "drive (k + fuel) cs (receive_loop op s) = Some (expected ws, st)"
        using step [rule_format, OF d(1)] 3 Cons by simp
      moreover have "stream_end cap ws s st"
        using stream_end_trans [OF d(2) s'(3,4)] 3 Cons by simp
      ultimately show ?thesis by blast
    qed
  qed
qed

end
