(* ===== verification/Session_Transfer.thy ===== *)
theory Session_Transfer
  imports Send_Progress Receive_Stream
begin

text \<open>
  From one session's send buffer to the other session's completion handlers. Every frame the sender
  puts on the wire belongs to one operation, carries the sequence number the operation reports, and is
  read back by the receiver as the PDU that was sent.
\<close>

subsection \<open>The frame of a request\<close>

definition pdu_frame :: "pdu_variant \<Rightarrow> u32 \<Rightarrow> command_status \<Rightarrow> octets" where
  "pdu_frame pdu n st =
     (let vec = snd (pdu_serialize_to (replicate header_length 0) pdu)
      in serialize_header vec (of_nat (length vec)) (the (pdu_command_id pdu)) n st)"

fun request_frame :: "send_request \<Rightarrow> u32 \<Rightarrow> octets" where
  "request_frame (Send_request pdu) n = pdu_frame pdu n command_status_rok"
| "request_frame (Send_response pdu _ st) n = pdu_frame pdu n st"
| "request_frame (Send_command cid _) n =
     serialize_header (replicate header_length 0) (of_nat header_length) cid n command_status_rok"

fun request_ok :: "send_request \<Rightarrow> bool" where
  "request_ok (Send_request pdu) = pdu_ok pdu"
| "request_ok (Send_response pdu _ _) = pdu_ok pdu"
| "request_ok (Send_command _ _) = True"

fun request_number :: "send_request \<Rightarrow> u32 option" where
  "request_number (Send_request _) = None"
| "request_number (Send_response _ n _) = Some n"
| "request_number (Send_command _ n) = Some n"

lemma build_frame_request:
  assumes "build_frame r s = (Inr n, s')"
  shows "send_buf s' = request_frame r n" "request_number r = None \<or> request_number r = Some n"
  using assms
  by (cases r; auto simp: build_frame_defs pdu_frame_def split: prod.splits sum.splits)+

lemma command_frame_octets:
  "request_frame (Send_command cid m) n = header_octets (of_nat header_length) cid n command_status_rok"
  using serialize_header_octets [of "replicate header_length 0" "[]"] by (simp add: header_length_def)

lemma pdu_ok_serialized:
  assumes "pdu_ok pdu"
  shows "\<exists>bs cid. pdu_command_id pdu = Some cid \<and> deserialize_alternative cid bs = Inr pdu \<and>
           (\<forall>n st. pdu_frame pdu n st =
              header_octets (of_nat (header_length + length bs)) cid n st @ bs)"
proof -
  obtain bs cid where "pdu_command_id pdu = Some cid" "deserialize_alternative cid bs = Inr pdu"
    "pdu_serialize_to (replicate header_length 0) pdu = (Inr (), replicate header_length 0 @ bs)"
    using pdu_variant_rt [OF assms] by blast
  then show ?thesis
    using serialize_header_octets [of "replicate header_length 0" bs]
    by (auto simp: pdu_frame_def header_length_def)
qed

subsection \<open>What the receiver makes of it\<close>

lemma pdu_command_not_session:
  "pdu_command_id pdu = Some cid \<Longrightarrow>
     cid \<notin> {command_id_enquire_link, command_id_enquire_link_resp, command_id_unbind, command_id_unbind_resp}"
  by (cases pdu) (auto simp: command_id_defs enum_values)

fun request_actions :: "send_request \<Rightarrow> u32 \<Rightarrow> receive_action list" where
  "request_actions (Send_request pdu) n = [Complete No_error pdu n command_status_rok]"
| "request_actions (Send_response pdu _ st) n = [Complete No_error pdu n st]"
| "request_actions (Send_command cid m) n = frame_actions (request_frame (Send_command cid m) n)"

fun request_ends :: "send_request \<Rightarrow> bool" where
  "request_ends (Send_command cid _) \<longleftrightarrow> cid = command_id_unbind \<or> cid = command_id_unbind_resp"
| "request_ends _ \<longleftrightarrow> False"

lemma frame_header_octets: "frame_header (header_octets len cid n st @ body) = (len, cid, st, n)"
  by (simp add: frame_header_def header_length_def)
    (simp add: deserialize_header_octets [where body = "[]", simplified])

lemma unat_length_u32: "k < 4294967296 \<Longrightarrow> unat (of_nat k :: u32) = k"
  by (simp add: unat_of_nat)

lemma pdu_frame_read:
  assumes "pdu_ok pdu"
  shows "frame_actions (pdu_frame pdu n st) = [Complete No_error pdu n st]"
    "\<not> ends_session (pdu_frame pdu n st)"
    "length (pdu_frame pdu n st) \<le> cap \<Longrightarrow> cap < 4294967296 \<Longrightarrow> good_frame cap (pdu_frame pdu n st)"
proof -
  obtain bs cid where c: "pdu_command_id pdu = Some cid" and d: "deserialize_alternative cid bs = Inr pdu"
    and w: "pdu_frame pdu n st = header_octets (of_nat (header_length + length bs)) cid n st @ bs"
    using pdu_ok_serialized [OF assms] by blast
  let ?len = "of_nat (header_length + length bs) :: u32"
  have h: "frame_header (pdu_frame pdu n st) = (?len, cid, st, n)" by (simp add: w frame_header_octets)
  have "decode_pdu cid (pdu_frame pdu n st) = pdu" by (simp add: decode_pdu_def w d)
  then show "frame_actions (pdu_frame pdu n st) = [Complete No_error pdu n st]"
    using pdu_command_not_session [OF c] by (simp add: frame_actions_def h)
  show "\<not> ends_session (pdu_frame pdu n st)"
    using pdu_command_not_session [OF c] by (simp add: ends_session_def h)
  assume "length (pdu_frame pdu n st) \<le> cap" "cap < 4294967296"
  then show "good_frame cap (pdu_frame pdu n st)"
    using unat_length_u32 [of "length bs + 16"]
    by (simp add: good_frame_def h) (simp add: w header_length_def add.commute)
qed

lemma request_frame_read:
  assumes "request_ok r"
  shows "frame_actions (request_frame r n) = request_actions r n"
    "ends_session (request_frame r n) = request_ends r"
    "length (request_frame r n) \<le> cap \<Longrightarrow> cap < 4294967296 \<Longrightarrow> good_frame cap (request_frame r n)"
proof -
  have c: "frame_header (request_frame (Send_command cid m) n) =
      (of_nat header_length, cid, command_status_rok, n)" for cid m n
    using frame_header_octets [where body = "[]"] by (simp only: command_frame_octets) simp
  have l: "length (request_frame (Send_command cid m) n) = header_length" for cid m n
    by (simp only: command_frame_octets) (simp add: header_length_def)
  show "frame_actions (request_frame r n) = request_actions r n"
    using assms by (cases r) (simp_all add: pdu_frame_read)
  show "ends_session (request_frame r n) = request_ends r"
    using assms pdu_frame_read(2)
    by (cases r) (simp_all add: ends_session_def c del: request_frame.simps(3))
  show "length (request_frame r n) \<le> cap \<Longrightarrow> cap < 4294967296 \<Longrightarrow> good_frame cap (request_frame r n)"
    using assms
    by (cases r) (simp_all add: pdu_frame_read del: request_frame.simps(3),
        simp add: good_frame_def c l header_length_def del: request_frame.simps(3))
qed

subsection \<open>Every frame on the wire belongs to one operation\<close>

text \<open>
  \<open>log\<close> names the operation and the sequence number of each frame. An operation that has not written
  is not in it; one that completed without error is, with the number it reported.
\<close>

definition op_logged :: "(nat \<times> u32) list \<Rightarrow> nat \<Rightarrow> send_op \<Rightarrow> bool" where
  "op_logged log i op \<longleftrightarrow>
     (case pc op of
        Waiting \<Rightarrow> i \<notin> fst ` set log
      | Woken ec \<Rightarrow> i \<notin> fst ` set log \<and> ec = Operation_aborted
      | Writing n \<Rightarrow> (i, n) \<in> set log
      | Completed ec m \<Rightarrow> \<not> failed ec \<longrightarrow>
          (\<exists>n. (i, n) \<in> set log \<and> (request_number (request op) = None \<longrightarrow> m = n)))"

definition own_number :: "send_request \<Rightarrow> u32 \<Rightarrow> bool" where
  "own_number r n \<longleftrightarrow> request_number r = None \<or> request_number r = Some n"

definition send_log :: "send_system \<Rightarrow> (nat \<times> u32) list \<Rightarrow> bool" where
  "send_log sys log \<longleftrightarrow>
     wire sys = map (\<lambda>(i, n). request_frame (request (ops sys ! i)) n) log \<and>
     distinct (map fst log) \<and>
     (\<forall>(i, n) \<in> set log. i < length (ops sys) \<and> own_number (request (ops sys ! i)) n) \<and>
     (\<forall>i < length (ops sys). op_logged log i (ops sys ! i))"

lemma send_log_sess [simp]: "send_log (sys\<lparr>sess := s\<rparr>) log = send_log sys log"
  by (simp add: send_log_def)

lemma send_log_set_op:
  assumes "send_log sys log" "i < length (ops sys) \<Longrightarrow> request (f (ops sys ! i)) = request (ops sys ! i)"
    "i < length (ops sys) \<Longrightarrow> op_logged log i (f (ops sys ! i))"
  shows "send_log (set_op i f sys) log"
proof -
  have r: "j < length (ops sys) \<Longrightarrow> request (ops (set_op i f sys) ! j) = request (ops sys ! j)" for j
    using assms(2) by (cases "j = i") simp_all
  have "j < length (ops sys) \<Longrightarrow> op_logged log j (ops (set_op i f sys) ! j)" for j
    using assms(1,3) by (cases "j = i") (simp_all add: send_log_def)
  moreover have "map (\<lambda>(i, n). request_frame (request (ops sys ! i)) n) log =
      map (\<lambda>(j, n). request_frame (request (ops (set_op i f sys) ! j)) n) log"
    using assms(1) r by (auto simp: send_log_def)
  moreover have "\<forall>(j, n) \<in> set log. j < length (ops sys) \<and> own_number (request (ops (set_op i f sys) ! j)) n"
    using assms(1) r by (auto simp: send_log_def)
  ultimately show ?thesis using assms(1) by (simp add: send_log_def)
qed

text \<open>A step puts at most one frame on the wire.\<close>

definition log_grows :: "(nat \<times> u32) list \<Rightarrow> (nat \<times> u32) list \<Rightarrow> bool" where
  "log_grows log log' \<longleftrightarrow> log' = log \<or> (\<exists>entry. log' = log @ [entry])"

lemma log_grows_simps [simp]: "log_grows log log" "log_grows log (log @ [entry])"
  by (simp_all add: log_grows_def)

lemma send_log_try_send:
  assumes log: "send_log sys log" and i: "i < length (ops sys)" "i \<notin> fst ` set log"
  shows "\<exists>log'. send_log (try_send i sys) log' \<and> log_grows log log'"
proof (cases "send_buf (sess sys) = []")
  case False
  then have "send_log (try_send i sys) log"
    using log i by (auto simp: try_send_def op_logged_def intro!: send_log_set_op)
  then show ?thesis using log_grows_simps by blast
next
  case True
  obtain x s where bf: "build_frame (request (ops sys ! i)) (sess sys) = (x, s)" by fastforce
  show ?thesis
  proof (cases x)
    case (Inl e)
    then have "send_log (try_send i sys) log"
      using log by (auto simp: try_send_def True bf complete_def op_logged_def make_error_code_def enum_values
          intro!: send_log_set_op)
    then show ?thesis using log_grows_simps by blast
  next
    case (Inr n)
    let ?f = "\<lambda>op. op\<lparr>cancelled := False, pc := Writing n\<rparr>"
    let ?mid = "sys\<lparr>sess := s, wire := wire sys @ [send_buf s]\<rparr>" and ?log = "log @ [(i, n)]"
    have t: "try_send i sys = set_op i ?f ?mid" by (simp add: try_send_def True bf Inr)
    have keep: "op_logged ?log j op = op_logged log j op" if "j \<noteq> i" for j op
      using that by (auto simp: op_logged_def image_iff split: send_pc.split)
    have r: "j < length (ops sys) \<Longrightarrow> request (ops (try_send i sys) ! j) = request (ops sys ! j)" for j
      using i by (cases "j = i") (simp_all add: t)
    have "j < length (ops sys) \<Longrightarrow> op_logged ?log j (ops (try_send i sys) ! j)" for j
      using log i by (cases "j = i") (simp_all add: t keep send_log_def, simp add: op_logged_def)
    moreover have "wire (try_send i sys) = map (\<lambda>(j, n). request_frame (request (ops (try_send i sys) ! j)) n) ?log"
      using log r i build_frame_request(1) [OF bf [unfolded Inr]] by (auto simp: t send_log_def)
    moreover have "length (ops (try_send i sys)) = length (ops sys)" by (simp add: t)
    moreover have "\<forall>(j, n) \<in> set ?log. j < length (ops sys) \<and> own_number (request (ops (try_send i sys) ! j)) n"
      using log r i build_frame_request(2) [OF bf [unfolded Inr]] by (auto simp: send_log_def own_number_def)
    ultimately have "send_log (try_send i sys) ?log"
      using log i by (auto simp: send_log_def)
    then show ?thesis using log_grows_simps by blast
  qed
qed

lemma send_log_initiate:
  assumes log: "send_log sys log"
  shows "\<exists>log'. send_log (initiate r sys) log' \<and> log_grows log log'"
proof -
  let ?op = "\<lparr>request = r, cancelled = False, pc = Woken Operation_aborted\<rparr>"
  let ?sys = "sys\<lparr>ops := ops sys @ [?op]\<rparr>"
  have new: "length (ops sys) \<notin> fst ` set log" using log by (auto simp: send_log_def)
  have "op_logged log (length (ops sys)) ?op" using new by (simp add: op_logged_def)
  moreover have "map (\<lambda>(i, n). request_frame (request (ops sys ! i)) n) log =
      map (\<lambda>(i, n). request_frame (request (ops ?sys ! i)) n) log"
    using log by (auto simp: send_log_def nth_append)
  ultimately have "send_log ?sys log"
    using log by (auto simp: send_log_def nth_append less_Suc_eq)
  then show ?thesis unfolding initiate_def using new by (intro send_log_try_send) simp_all
qed

lemma send_log_release:
  assumes log: "send_log sys log" and inv: "send_inv sys"
  shows "send_log (release_send_buf sys) log"
proof (cases "send_cv (sess sys)")
  case Nil
  then show ?thesis using log by (simp add: release_send_buf_def cancel_one_def)
next
  case (Cons w ws)
  then have w: "waiting sys w" using send_invD(4) [OF inv] by auto
  then have "op_logged log w (ops sys ! w)" using log by (simp add: waiting_def send_log_def)
  then have "w \<notin> fst ` set log" using w by (simp add: waiting_def op_logged_def)
  then show ?thesis
    using log by (auto simp: release_send_buf_def cancel_one_def Cons op_logged_def intro!: send_log_set_op)
qed

lemma send_log_complete_write:
  assumes log: "send_log sys log" and w: "pc (ops sys ! i) = Writing n" "i < length (ops sys)"
    and m: "request_number (request (ops sys ! i)) = None \<longrightarrow> \<not> failed ec \<longrightarrow> m = n"
  shows "send_log (complete i ec m sys) log"
proof -
  have "op_logged log i (ops sys ! i)" using log w by (simp add: send_log_def)
  then have "(i, n) \<in> set log" using w by (simp add: op_logged_def)
  then show ?thesis
    using log m by (auto simp: complete_def op_logged_def intro!: send_log_set_op)
qed

lemma send_log_write_done:
  assumes log: "send_log sys log" and inv: "send_inv sys"
    and w: "pc (ops sys ! i) = Writing n" "i < length (ops sys)"
  shows "send_log (write_done i ec n sys) log"
proof -
  have wr: "writing sys i" using w by (simp add: writing_def)
  have "i \<notin> set (send_cv (sess sys))" using send_invD(4) [OF inv] not_both [OF wr] by simp
  note swap = complete_release_commute [OF this]
  have "send_log (complete i ec m (release_send_buf sys)) log"
    if "request_number (request (ops sys ! i)) = None \<longrightarrow> \<not> failed ec \<longrightarrow> m = n" for m
    unfolding swap
    using send_log_release [OF send_log_complete_write [OF log w that]]
      send_inv_complete [OF inv not_both [OF wr]] by blast
  moreover have "send_log (complete i (make_error_code error_enquire_link_timeout) 0 sys) log"
    by (rule send_log_complete_write [OF log w]) (simp add: make_error_code_def enum_values)
  ultimately show ?thesis by (cases "request (ops sys ! i)") (simp_all add: write_done_defs)
qed

lemma send_log_cancel_op:
  assumes log: "send_log sys log" and i: "i < length (ops sys)"
  shows "send_log (cancel_op i sys) log"
proof -
  have "op_logged log i (ops sys ! i)" using log i by (simp add: send_log_def)
  then show ?thesis
    using log by (auto simp: cancel_op_def op_logged_def split: send_pc.splits intro!: send_log_set_op)
qed

lemma send_log_step:
  "send_step sys l sys' \<Longrightarrow> send_inv sys \<Longrightarrow> send_log sys log \<Longrightarrow>
     \<exists>log'. send_log sys' log' \<and> log_grows log log'"
proof (induction rule: send_step.induct)
  case (step_unbind sys)
  obtain n s where n: "next_sequence_number (sess sys) = (n, s)" by fastforce
  show ?case using step_unbind send_log_initiate by (simp add: async_send_unbind_def n)
next
  case (step_resume i sys ec)
  then have op: "op_logged log i (ops sys ! i)" by (simp add: send_log_def)
  then have "i \<notin> fst ` set log" "ec = Operation_aborted" using step_resume by (simp_all add: op_logged_def)
  moreover have "send_log (complete i Operation_aborted 0 sys) log"
    unfolding complete_def using step_resume by (intro send_log_set_op) (simp_all add: op_logged_def)
  ultimately show ?case
    using step_resume send_log_try_send [of sys log i] by (auto simp: resume_wait_def)
next
  case (step_written i sys n ec)
  then show ?case using send_log_write_done log_grows_simps by blast
next
  case (step_cancel i sys)
  then show ?case using send_log_cancel_op log_grows_simps by blast
qed (rule send_log_initiate)

lemma reachable_send_log: "reachable sys \<Longrightarrow> \<exists>log. send_log sys log"
proof (induction rule: reachable.induct)
  case (reachable_init s)
  have "send_log (send_init s) []" by (simp add: send_log_def send_init_def)
  then show ?case ..
next
  case (reachable_step sys l sys')
  then show ?case using send_log_step reachable_send_inv by blast
qed

subsection \<open>From one session to the other\<close>

lemma expected_requests:
  "\<forall>(r, n) \<in> set rs. request_ok r \<and> \<not> request_ends r \<Longrightarrow>
     expected (map (\<lambda>(r, n). request_frame r n) rs) = concat (map (\<lambda>(r, n). request_actions r n) rs) \<and>
     \<not> list_ex ends_session (map (\<lambda>(r, n). request_frame r n) rs)"
  by (induction rs) (auto simp: request_frame_read)

definition empty_session :: "nat \<Rightarrow> session \<Rightarrow> bool" where
  "empty_session cap s \<longleftrightarrow> receive_inv cap s \<and> received s = []"

lemma session_new_empty: "empty_session (128 * 1024) (session_new interval)"
  by (simp add: empty_session_def session_new_def receive_inv_def received_def fb_new)

lemma receive_requests:
  assumes "empty_session cap s" "cap < 4294967296"
    and "\<forall>(r, n) \<in> set rs. request_ok r \<and> \<not> request_ends r \<and> length (request_frame r n) \<le> cap"
    and "concat chunks = concat (map (\<lambda>(r, n). request_frame r n) rs)" "[] \<notin> set chunks"
  shows "\<exists>fuel st. drive fuel chunks (async_receive s) =
             Some (concat (map (\<lambda>(r, n). request_actions r n) rs), st) \<and>
           stream_end cap [] s st"
proof -
  let ?ws = "map (\<lambda>(r, n). request_frame r n) rs"
  have "list_all (good_frame cap) ?ws"
    using assms(2,3) by (auto simp: list_all_iff request_frame_read)
  then have "stream_ok cap ?ws chunks s"
    using assms by (simp add: stream_ok_def empty_session_def)
  moreover have "\<not> needs_more receive_op_new" by (simp add: receive_op_new_def)
  moreover have e: "expected ?ws = concat (map (\<lambda>(r, n). request_actions r n) rs)"
    "\<not> list_ex ends_session ?ws"
    using expected_requests [of rs] assms(3) by (auto simp: case_prod_unfold)
  ultimately obtain fuel st where
    "drive fuel chunks (async_receive s) = Some (expected ?ws, st)" "stream_end cap ?ws s st"
    using drive_stream by (metis async_receive_def)
  then show ?thesis using e by (auto simp: stream_end_def)
qed

text \<open>A session command alone on the wire.\<close>

lemma drive_command:
  assumes "empty_session cap s" "16 \<le> cap"
    and "concat chunks = request_frame (Send_command cid m) n" "[] \<notin> set chunks"
  shows "\<exists>fuel st. drive fuel chunks (async_receive s) =
             Some (frame_actions (request_frame (Send_command cid m) n), st) \<and>
           stream_end cap [request_frame (Send_command cid m) n] s st"
proof -
  let ?w = "request_frame (Send_command cid m) n"
  have w: "?w = header_octets (of_nat header_length) cid n command_status_rok"
    by (rule command_frame_octets)
  have "good_frame cap ?w"
    using assms(2) frame_header_octets [where body = "[]"]
    by (simp only: w good_frame_def) (simp add: header_length_def)
  then have "stream_ok cap [?w] chunks s"
    using assms by (simp add: stream_ok_def empty_session_def del: request_frame.simps)
  moreover have "\<not> needs_more receive_op_new" by (simp add: receive_op_new_def)
  moreover have "expected [?w] = frame_actions ?w" by simp
  ultimately show ?thesis
    using drive_stream [of cap "[?w]" chunks s receive_op_new]
    by (simp only: async_receive_def simp_thms)
qed

lemma command_frame_actions:
  "frame_actions (request_frame (Send_command command_id_unbind m) n) =
     [Send_cmd command_id_unbind_resp n, completed (make_error_code error_unbinded)]"
  "frame_actions (request_frame (Send_command command_id_unbind_resp m) n) =
     [completed (make_error_code error_unbinded)]"
  "ends_session (request_frame (Send_command command_id_unbind m) n)"
  "ends_session (request_frame (Send_command command_id_unbind_resp m) n)"
  using frame_header_octets [where body = "[]"]
  by (simp_all only: command_frame_octets frame_actions_def ends_session_def) simp_all

end
