(* ===== verification/Send_Findings.thy ===== *)
theory Send_Findings
  imports Send_Progress
begin

text \<open>
  Concrete runs of the sending half in which a waiting operation is left alone or overtaken for ever,
  and what is true of every system in such a state. \<open>run_labels\<close> executes a list of labels; it is sound for the step
  relation.
\<close>

subsection \<open>Executing labels\<close>

fun exec_label :: "send_label \<Rightarrow> send_system \<Rightarrow> send_system option" where
  "exec_label (L_initiate r) sys = (if admissible_request r then Some (initiate r sys) else None)"
| "exec_label L_unbind sys = Some (async_send_unbind sys)"
| "exec_label (L_resume i) sys =
     (if i < length (ops sys)
      then case pc (ops sys ! i) of Woken ec \<Rightarrow> Some (resume_wait i ec sys) | _ \<Rightarrow> None
      else None)"
| "exec_label (L_written i ec) sys =
     (if i < length (ops sys)
      then case pc (ops sys ! i) of Writing n \<Rightarrow> Some (write_done i ec n sys) | _ \<Rightarrow> None
      else None)"
| "exec_label (L_cancel i) sys =
     (if i < length (ops sys)
      then case pc (ops sys ! i) of Completed ec n \<Rightarrow> None | _ \<Rightarrow> Some (cancel_op i sys)
      else None)"

fun run_labels :: "send_label list \<Rightarrow> send_system \<Rightarrow> send_system option" where
  "run_labels [] sys = Some sys"
| "run_labels (l # ls) sys =
     (case exec_label l sys of None \<Rightarrow> None | Some sys \<Rightarrow> run_labels ls sys)"

lemma exec_label_iff: "exec_label l sys = Some sys' \<longleftrightarrow> send_step sys l sys'"
  by (cases l) (auto simp: send_step.simps split: send_pc.splits if_splits)

lemma send_steps_trans: "send_steps b c \<Longrightarrow> send_steps a b \<Longrightarrow> send_steps a c"
  by (induction rule: send_steps.induct) (auto intro: send_steps.intros)

lemma run_labels_steps: "run_labels ls sys = Some sys' \<Longrightarrow> send_steps sys sys'"
proof (induction ls arbitrary: sys)
  case Nil
  then show ?case by (simp add: send_steps.intros)
next
  case (Cons l ls)
  then obtain mid where "send_step sys l mid" "send_steps mid sys'"
    by (auto simp: exec_label_iff split: option.splits)
  then show ?case using send_steps_trans send_steps.intros by blast
qed

lemma run_labels_reachable:
  "send_buf s = [] \<Longrightarrow> send_cv s = [] \<Longrightarrow> sequence_inv s \<Longrightarrow>
     run_labels ls (send_init s) = Some sys \<Longrightarrow> reachable sys"
  using reachable_steps [OF run_labels_steps reachable_init] .

lemma build_frame_command:
  "build_frame (Send_command cid n) s =
     (Inr n, s\<lparr>send_buf := header_octets 16 cid n command_status_rok\<rparr>)"
  using serialize_header_octets [of "replicate header_length 0" "[]"]
  by (simp add: build_frame_defs header_length_def)

lemma header_octets_nonempty [simp]: "header_octets len cid n st \<noteq> []"
  by (simp add: header_octets_def u32_octets_def)

lemmas send_eval =
  send_init_def initiate_def try_send_def set_op_def complete_def build_frame_command
  resume_wait_def write_done_defs release_send_buf_def cancel_one_def cancel_op_def

subsection \<open>Sleeping systems: waiting operations and nothing pending\<close>

definition asleep :: "send_system \<Rightarrow> bool" where
  "asleep sys \<longleftrightarrow>
     (\<exists>op \<in> set (ops sys). pc op = Waiting) \<and>
     (\<forall>op \<in> set (ops sys). pc op = Waiting \<or> (\<exists>ec n. pc op = Completed ec n))"

lemma asleepD:
  "asleep sys \<Longrightarrow> i < length (ops sys) \<Longrightarrow>
     pc (ops sys ! i) \<noteq> Woken ec \<and> pc (ops sys ! i) \<noteq> Writing n"
  unfolding asleep_def using nth_mem [of i "ops sys"] by fastforce

text \<open>Nothing moves in a sleeping system unless the client starts or cancels an operation.\<close>

lemma asleep_no_step:
  assumes "asleep sys" "send_step sys l sys'"
  shows "(\<exists>r. l = L_initiate r) \<or> l = L_unbind \<or> (\<exists>i. l = L_cancel i)"
  using assms(2)
proof (cases rule: send_step.cases)
  case (step_resume i ec)
  then show ?thesis using asleepD [OF assms(1), of i] by simp
next
  case (step_written i n ec)
  then show ?thesis using asleepD [OF assms(1), of i] by simp
qed simp_all

text \<open>
  Three sends, the second with a PDU that does not serialize. The first write releases the buffer and
  wakes the second operation, which fails and completes; the third is never woken though the buffer is
  free.
\<close>

definition lost_wakeup_run :: "send_request \<Rightarrow> send_label list" where
  "lost_wakeup_run bad =
     [L_initiate (Send_command command_id_enquire_link 1), L_initiate bad,
      L_initiate (Send_command command_id_enquire_link_resp 2),
      L_written 0 No_error, L_resume 1]"

lemma lost_wakeup:
  assumes s: "send_buf s = []" "send_cv s = []" and bad: "admissible_request bad" "\<not> request_fits bad"
  shows "\<exists>sys. run_labels (lost_wakeup_run bad) (send_init s) = Some sys \<and>
               send_buf (sess sys) = [] \<and> asleep sys"
proof -
  obtain e where e: "\<And>s. build_frame bad s = (Inl e, s\<lparr>send_buf := []\<rparr>)"
    using build_frame_not_fits [OF bad(2)] by blast
  show ?thesis
    using s bad(1) by (simp add: lost_wakeup_run_def send_eval e asleep_def)
qed

text \<open>The same loss when the woken operation was cancelled in the meantime.\<close>

definition cancelled_wakeup_run :: "send_label list" where
  "cancelled_wakeup_run =
     [L_initiate (Send_command command_id_enquire_link 1),
      L_initiate (Send_command command_id_enquire_link 2),
      L_initiate (Send_command command_id_enquire_link_resp 3),
      L_written 0 No_error, L_cancel 1, L_resume 1]"

lemma cancelled_wakeup:
  assumes "send_buf s = []" "send_cv s = []"
  shows "\<exists>sys. run_labels cancelled_wakeup_run (send_init s) = Some sys \<and>
               send_buf (sess sys) = [] \<and> asleep sys"
  using assms by (simp add: cancelled_wakeup_run_def send_eval asleep_def)

subsection \<open>A command whose write times out stalls the session\<close>

definition timed_out_write_run :: "send_label list" where
  "timed_out_write_run =
     [L_initiate (Send_command command_id_enquire_link 1), L_written 0 Operation_aborted]"

lemma timed_out_write_stalls:
  assumes "send_buf s = []" "send_cv s = []"
  shows "\<exists>sys. run_labels timed_out_write_run (send_init s) = Some sys \<and> stalled sys"
  using assms by (simp add: timed_out_write_run_def send_eval stalled_def)

subsection \<open>A busy sender starves the others\<close>

text \<open>
  A client that starts its next send from the completion handler of the last one finds the buffer
  empty: the handler runs before the waiter that \<open>cancel_one\<close> woke, which then finds the buffer in use
  and goes to the end of the queue. One round of this: the write completes, the next send starts, the
  woken operation resumes.
\<close>

definition starving_round :: "send_request \<Rightarrow> nat \<Rightarrow> send_label list" where
  "starving_round r i = [L_written i No_error, L_initiate r, L_resume 1]"

fun starving_run :: "send_request \<Rightarrow> nat \<Rightarrow> send_label list" where
  "starving_run r 0 = []"
| "starving_run r (Suc k) = starving_run r k @ starving_round r (if k = 0 then 0 else Suc k)"

definition starved :: "send_request \<Rightarrow> nat \<Rightarrow> send_system \<Rightarrow> bool" where
  "starved w k sys \<longleftrightarrow>
     length (ops sys) = k + 2 \<and> length (wire sys) = Suc k \<and> writing sys (if k = 0 then 0 else Suc k) \<and>
     pc (ops sys ! 1) = Waiting \<and> \<not> cancelled (ops sys ! 1) \<and> request (ops sys ! 1) = w \<and>
     send_buf (sess sys) \<noteq> [] \<and> send_cv (sess sys) = [1]"

lemma run_labels_append:
  "run_labels (ls @ ms) sys = (case run_labels ls sys of None \<Rightarrow> None | Some sys \<Rightarrow> run_labels ms sys)"
  by (induction ls arbitrary: sys) (simp_all split: option.split)

lemma initiate_free:
  assumes "request_fits r" "send_buf (sess sys) = []"
  shows "\<exists>n s. initiate r sys = sys\<lparr>sess := s, wire := wire sys @ [send_buf s],
             ops := ops sys @ [\<lparr>request = r, cancelled = False, pc = Writing n\<rparr>]\<rparr> \<and>
           send_buf s \<noteq> [] \<and> send_cv s = send_cv (sess sys)"
proof -
  obtain n s where bf: "build_frame r (sess sys) = (Inr n, s)" using build_frame_fits [OF assms(1)] by blast
  have "send_buf s \<noteq> [] \<and> send_cv s = send_cv (sess sys)"
    using build_frame_ok [OF bf] frame_ok_nonempty by blast
  then show ?thesis
    using assms(2) bf by (intro exI [of _ n] exI [of _ s]) (simp add: initiate_def try_send_def set_op_def)
qed

lemma written_wakes:
  assumes "starved w k sys" "pc (ops sys ! i) = Writing n" "i < length (ops sys)" "i \<noteq> 1"
  shows "\<exists>m s. write_done i No_error n sys = sys\<lparr>sess := s,
             ops := (ops sys)[1 := (ops sys ! 1)\<lparr>pc := Woken Operation_aborted\<rparr>, i := (ops sys ! i)\<lparr>pc := Completed No_error m\<rparr>]\<rparr> \<and>
           send_buf s = [] \<and> send_cv s = []"
  using assms
  by (intro exI [of _ "case request (ops sys ! i) of Send_request _ \<Rightarrow> n | _ \<Rightarrow> 0"]
      exI [of _ "(sess sys)\<lparr>send_buf := [], send_cv := []\<rparr>"], cases "request (ops sys ! i)")
    (simp_all add: starved_def write_done_defs release_send_buf_def cancel_one_def set_op_def complete_def)

lemma starving_round:
  assumes r: "admissible_request r" "request_fits r" and st: "starved w k sys"
  shows "\<exists>sys'. run_labels (starving_round r (if k = 0 then 0 else Suc k)) sys = Some sys' \<and> starved w (Suc k) sys'"
proof -
  define i where "i = (if k = 0 then 0 else Suc k)"
  have len: "length (ops sys) = k + 2" and c: "\<not> cancelled (ops sys ! 1)" "request (ops sys ! 1) = w" and wi: "length (wire sys) = Suc k"
    using st by (simp_all add: starved_def)
  obtain n where i: "i < length (ops sys)" "pc (ops sys ! i) = Writing n" "i \<noteq> 1"
    using st by (auto simp: starved_def writing_def i_def)
  define sys1 where "sys1 = write_done i No_error n sys"
  obtain m s where w: "sys1 = sys\<lparr>sess := s, ops := (ops sys)
      [1 := (ops sys ! 1)\<lparr>pc := Woken Operation_aborted\<rparr>, i := (ops sys ! i)\<lparr>pc := Completed No_error m\<rparr>]\<rparr>"
    and s: "send_buf s = []" "send_cv s = []"
    using written_wakes [OF st i(2,1,3)] unfolding sys1_def by blast
  have o1: "length (ops sys1) = k + 2" "pc (ops sys1 ! 1) = Woken Operation_aborted"
    "\<not> cancelled (ops sys1 ! 1)" "request (ops sys1 ! 1) = w" "wire sys1 = wire sys" "send_buf (sess sys1) = []" "send_cv (sess sys1) = []"
    using len c i(3) s by (simp_all add: w)
  define sys2 where "sys2 = initiate r sys1"
  obtain n' s' where t: "sys2 = sys1\<lparr>sess := s', wire := wire sys1 @ [send_buf s'],
      ops := ops sys1 @ [\<lparr>request = r, cancelled = False, pc = Writing n'\<rparr>]\<rparr>"
    and s': "send_buf s' \<noteq> []" "send_cv s' = []"
    using initiate_free [OF r(2) o1(6)] o1(7) unfolding sys2_def by auto
  have o2: "length (ops sys2) = k + 3" "pc (ops sys2 ! 1) = Woken Operation_aborted" "\<not> cancelled (ops sys2 ! 1)"
    "length (wire sys2) = k + 2" "writing sys2 (k + 2)" "request (ops sys2 ! 1) = w"
    using o1 wi by (simp_all add: t nth_append writing_def)
  have res: "resume_wait 1 Operation_aborted sys2 =
      set_op 1 (\<lambda>op. op\<lparr>pc := Waiting\<rparr>) (sys2\<lparr>sess := s'\<lparr>send_cv := [1]\<rparr>\<rparr>)"
    using o2(3) s' by (simp add: resume_wait_def try_send_def) (simp add: t)
  have "starved w (Suc k) (resume_wait 1 Operation_aborted sys2)"
    unfolding res using o2 s' by (simp add: starved_def writing_set_op)
  moreover have "run_labels (starving_round r i) sys = Some (resume_wait 1 Operation_aborted sys2)"
    using i r(1) o2(1,2) by (simp add: starving_round_def sys1_def [symmetric] sys2_def [symmetric])
  ultimately show ?thesis unfolding i_def by blast
qed

lemma starving_run:
  assumes "admissible_request r" "request_fits r" "starved w 0 sys"
  shows "\<exists>sys'. run_labels (starving_run r k) sys = Some sys' \<and> starved w k sys'"
proof (induction k)
  case (Suc k)
  then obtain sys1 where "run_labels (starving_run r k) sys = Some sys1" "starved w k sys1" by blast
  then show ?case
    using starving_round [OF assms(1,2), of w k sys1] by (simp only: starving_run.simps run_labels_append option.case)
qed (simp add: assms(3))

lemma starving_start:
  assumes r: "admissible_request r" "request_fits r" and w: "admissible_request w"
    and s: "send_buf s = []" "send_cv s = []"
  shows "\<exists>sys. run_labels [L_initiate r, L_initiate w] (send_init s) = Some sys \<and> starved w 0 sys"
proof -
  have f: "send_buf (sess (send_init s)) = []" using s by (simp add: send_init_def)
  obtain n s' where t: "initiate r (send_init s) = \<lparr>sess = s',
      ops = [\<lparr>request = r, cancelled = False, pc = Writing n\<rparr>], wire = [send_buf s']\<rparr>"
    and s': "send_buf s' \<noteq> []" "send_cv s' = []"
    using initiate_free [OF r(2) f] s by (auto simp: send_init_def)
  show ?thesis
    using r(1) w s' by (simp add: t) (simp add: initiate_def try_send_def set_op_def starved_def writing_def)
qed

lemma run_labels_clean:
  "run_labels ls sys = Some sys' \<Longrightarrow> list_all clean_label ls \<Longrightarrow> clean_reachable sys \<Longrightarrow> clean_reachable sys'"
proof (induction ls arbitrary: sys)
  case (Cons l ls)
  then obtain mid where "send_step sys l mid" "run_labels ls mid = Some sys'"
    by (auto simp: exec_label_iff split: option.splits)
  then show ?case using Cons clean_step by simp
qed simp

lemma starving_run_clean: "request_fits r \<Longrightarrow> list_all clean_label (starving_run r k)"
  by (induction k) (simp_all add: starving_round_def)

end
