(* ===== verification/Receive_Behaviour.thy ===== *)
theory Receive_Behaviour
  imports Receive_Stream
begin

text \<open>
  The receiver outside the well-behaved streams of \<open>Receive_Stream\<close>: when its loop returns at all,
  what two silent intervals, a cancellation and a network error do, and what frames whose length field
  is too small or too large for the buffer do to it. \<open>play\<close> feeds a list of completions to the
  suspended coroutine and collects what it does after each.
\<close>

fun play :: "receive_event list \<Rightarrow> receive_state \<Rightarrow> (receive_action list \<times> receive_state) option" where
  "play [] st = Some ([], st)"
| "play (e # es) st =
     (case resume e st of None \<Rightarrow> None | Some (a, st) \<Rightarrow> emit a (play es st))"

subsection \<open>When the loop returns\<close>

text \<open>What is left of the buffer once the \<open>enquire_link_resp\<close> frames at its head are consumed.\<close>

function skip_enquire_link_resp :: "octets \<Rightarrow> octets" where
  "skip_enquire_link_resp data =
     (if complete_frame data \<and> fst (snd (frame_header data)) = command_id_enquire_link_resp \<and>
         0 < unat (fst (frame_header data))
      then skip_enquire_link_resp (drop (unat (fst (frame_header data))) data)
      else data)"
  by pat_completeness auto
termination
  by (relation "measure length") (auto simp: complete_frame_def header_length_def)

declare skip_enquire_link_resp.simps [simp del]

definition zero_length_resp :: "octets \<Rightarrow> bool" where
  "zero_length_resp data \<longleftrightarrow> complete_frame data \<and> fst (frame_header data) = 0 \<and>
     fst (snd (frame_header data)) = command_id_enquire_link_resp"

definition spinning :: "nat \<Rightarrow> receive_op \<Rightarrow> session \<Rightarrow> bool" where
  "spinning cap op s \<longleftrightarrow> receive_inv cap s \<and> \<not> needs_more op \<and> zero_length_resp (received s)"

lemma spinning_never_returns: "receive_loop op s = Some r \<Longrightarrow> \<not> spinning cap op s"
proof (induction rule: receive_loop.raw_induct [rotated 1, consumes 1])
  case (1 loop op s r)
  show ?case
  proof
    assume sp: "spinning cap op s"
    then have inv: "receive_inv cap s" and op: "\<not> needs_more op"
      and z: "zero_length_resp (received s)"
      by (simp_all add: spinning_def)
    obtain st n where h: "frame_header (received s) = (0, command_id_enquire_link_resp, st, n)"
      using z by (metis prod.collapse zero_length_resp_def)
    have c: "complete_frame (received s)" using z by (simp add: zero_length_resp_def)
    let ?op = "op\<lparr>op_command_length := 0, op_command_id := command_id_enquire_link_resp,
        op_command_status := st, op_sequence_number := n\<rparr>"
    have "loop ?op (consume 0 s) = Some r"
      using 1(2) op c h [unfolded frame_header_def]
      by (simp add: receive_inv_size [OF inv] complete_frame_def received_def [symmetric]
          frame_header_def)
    then have "\<not> spinning cap ?op (consume 0 s)" by (rule 1(1))
    then show False
      using sp consume_effect [OF inv, of 0] by (simp add: spinning_def)
  qed
qed

lemma receive_loop_returns_iff:
  assumes "receive_inv cap s" "\<not> needs_more op"
  shows "(\<exists>r. receive_loop op s = Some r) \<longleftrightarrow> \<not> zero_length_resp (skip_enquire_link_resp (received s))"
  using assms
proof (induction "received s" arbitrary: s op rule: skip_enquire_link_resp.induct)
  case 1
  note inv = 1(2) and op = 1(3)
  obtain len cid st n where h: "frame_header (received s) = (len, cid, st, n)" by (metis prod_cases4)
  show ?case
  proof (cases "complete_frame (received s)")
    case False
    then have "skip_enquire_link_resp (received s) = received s"
      by (simp add: skip_enquire_link_resp.simps [of "received s"])
    then show ?thesis
      using receive_loop_incomplete [OF inv op False] False unfolding zero_length_resp_def by metis
  next
    case True
    note loop = receive_loop_complete [OF inv op True h, unfolded Let_def]
    show ?thesis
    proof (cases "cid = command_id_enquire_link_resp")
      case False
      then have "\<exists>r. receive_loop op s = Some r" using loop by (simp del: split_paired_Ex)
      moreover have "skip_enquire_link_resp (received s) = received s"
        using False h by (simp add: skip_enquire_link_resp.simps [of "received s"])
      ultimately show ?thesis using False h by (simp add: zero_length_resp_def)
    next
      case resp: True
      show ?thesis
      proof (cases "len = 0")
        case zero: True
        then have "spinning cap op s"
          using inv op True resp h by (simp add: spinning_def zero_length_resp_def)
        moreover have "skip_enquire_link_resp (received s) = received s"
          using zero h by (simp add: skip_enquire_link_resp.simps [of "received s"])
        ultimately show ?thesis using spinning_never_returns by (fastforce simp: spinning_def)
      next
        case False
        then have pos: "0 < unat len" by (simp add: unat_gt_0)
        let ?op = "with_header (received s) op"
        have "receive_loop op s = receive_loop ?op (consume len s)" using loop resp by simp
        moreover have "skip_enquire_link_resp (received s) =
            skip_enquire_link_resp (received (consume len s))"
          using True resp pos h consume_effect(2) [OF inv]
          by (simp add: skip_enquire_link_resp.simps [of "received s"])
        moreover have "\<not> needs_more ?op" using op by simp
        ultimately show ?thesis
          using 1(1) [of "consume len s" ?op] consume_effect [OF inv, of len] True resp pos h by simp
      qed
    qed
  qed
qed

subsection \<open>Inactivity\<close>

text \<open>Suspended in a read with nothing but the beginning of a frame in the buffer.\<close>

definition idle_reading :: "nat \<Rightarrow> receive_op \<Rightarrow> session \<Rightarrow> bool" where
  "idle_reading cap op s \<longleftrightarrow>
     reading cap s \<and> \<not> needs_more op \<and> \<not> complete_frame (received s)"

lemma receive_loop_idle:
  assumes "receive_inv cap s" "\<not> needs_more op" "\<not> complete_frame (received s)"
  shows "\<exists>off op' s'. receive_loop op s =
             Some (Read_some off (cap - length (received s)), Recv_reading, op', s') \<and>
           idle_reading cap op' s' \<and> received s' = received s \<and> sequence_number s' = sequence_number s \<and>
           socket_open s' = socket_open s \<and> pending_enquire_link op' = pending_enquire_link op"
proof -
  obtain op1 where loop: "receive_loop op s = Some (start_read op1 s)"
    "pending_enquire_link op1 = pending_enquire_link op"
    using receive_loop_incomplete [OF assms] by blast
  then show ?thesis
    using start_read_effect [OF assms(1), of op1] assms(3)
    by (auto simp: idle_reading_def reading_def)
qed

lemma next_sequence_number_keeps:
  assumes "next_sequence_number s = (n, s')"
  shows "receive_inv cap s' = receive_inv cap s" "received s' = received s"
    "reading cap s' = reading cap s" "sequence_number s' = n" "socket_open s' = socket_open s"
  using next_sequence_number_frame [OF assms]
  by (simp_all add: receive_inv_def received_def reading_def)

lemma silent_interval_enquires:
  assumes "idle_reading cap op s" "\<not> pending_enquire_link op"
  shows "\<exists>n s1 off op' s'. next_sequence_number s = (n, s1) \<and>
           play [Read_done [] Operation_aborted False, Sent No_error] (Recv_reading, op, s) =
             Some ([Send_cmd command_id_enquire_link n, Read_some off (cap - length (received s))],
                   Recv_reading, op', s') \<and>
           idle_reading cap op' s' \<and> pending_enquire_link op' \<and> received s' = received s \<and>
           sequence_number s' = n \<and> socket_open s' = socket_open s"
proof -
  obtain n s1 where n: "next_sequence_number s = (n, s1)" by fastforce
  note k = next_sequence_number_keeps(2,4,5) [OF n] next_sequence_number_keeps(1,3) [OF n, of cap]
  have idle: "receive_inv cap s1" "\<not> needs_more (op\<lparr>pending_enquire_link := True\<rparr>)"
    "\<not> complete_frame (received s1)"
    using assms(1) k by (simp_all add: idle_reading_def reading_def)
  then show ?thesis
    using receive_loop_idle [OF idle] n assms(2) k
    by (auto simp: resume_read_def resume_enquiring_def)
qed

lemma second_silent_interval_unbinds:
  assumes "idle_reading cap op s" "pending_enquire_link op"
  shows "\<exists>n s1 st. next_sequence_number s = (n, s1) \<and>
           play [Read_done [] Operation_aborted False, Sent ec] (Recv_reading, op, s) =
             Some ([Send_cmd command_id_unbind n, completed (make_error_code error_enquire_link_timeout)],
                   Recv_done, op, st) \<and> \<not> socket_open st"
  using assms(2)
  by (simp add: resume_read_def resume_unbinding_def complete_with_def completed_def shutdown_socket_def
      split: prod.split)

lemma play_append:
  "play es1 st = Some (acts1, st1) \<Longrightarrow> play es2 st1 = Some (acts2, st2) \<Longrightarrow>
     play (es1 @ es2) st = Some (acts1 @ acts2, st2)"
proof (induction es1 arbitrary: st acts1)
  case (Cons e es1)
  then obtain a mid acts where "resume e st = Some (a, mid)" "play es1 mid = Some (acts, st1)"
    "acts1 = a # acts"
    by (auto split: option.splits elim!: emit.elims)
  then show ?case using Cons by simp
qed simp

text \<open>Octets that arrive clear the pending enquiry: the next silence asks again instead of giving up.\<close>

lemma data_resets_enquiry:
  assumes "reading cap s" "length bytes \<le> cap - length (received s)" "bytes \<noteq> []"
    and "\<not> complete_frame (received s @ bytes)" "\<not> needs_more op"
  shows "\<exists>off op' s'. play [Read_done bytes No_error cancelled] (Recv_reading, op, s) =
             Some ([Read_some off (cap - length (received s @ bytes))], Recv_reading, op', s') \<and>
           idle_reading cap op' s' \<and> \<not> pending_enquire_link op' \<and>
           received s' = received s @ bytes \<and> sequence_number s' = sequence_number s"
proof -
  obtain s1 where r: "resume_read bytes No_error cancelled op s =
      receive_loop (op\<lparr>pending_enquire_link := False\<rparr>) s1"
    and s1: "receive_inv cap s1" "received s1 = received s @ bytes"
      "sequence_number s1 = sequence_number s"
    using resume_read_data [OF assms(1-3)] by blast
  have "\<not> needs_more (op\<lparr>pending_enquire_link := False\<rparr>)" "\<not> complete_frame (received s1)"
    using assms(4,5) s1(2) by simp_all
  from receive_loop_idle [OF s1(1) this] show ?thesis using r s1 by auto
qed

text \<open>A failed or cancelled read ends the operation with its error; octets that came with it stay.\<close>

lemma failed_read_completes:
  assumes "reading cap s" "length bytes \<le> cap - length (received s)"
    and "failed ec" "ec = Operation_aborted \<longrightarrow> cancelled"
  shows "\<exists>op' s'. resume_read bytes ec cancelled op s = Some (completed ec, Recv_done, op', s') \<and>
           receive_inv cap s' \<and> received s' = received s @ bytes \<and>
           sequence_number s' = sequence_number s \<and> socket_open s' = socket_open s"
proof (cases "bytes = []")
  case True
  then show ?thesis
    using assms by (auto simp: resume_read_def complete_with_def completed_def reading_def)
next
  case False
  let ?b = "fb_commit (length bytes) (memory_write (fb_out (receive_buf s)) bytes (receive_buf s))"
  have "fb_inv (receive_buf s)" "length bytes \<le> fb_last (receive_buf s) - fb_out (receive_buf s)"
    using assms(1,2) by (simp_all add: reading_def receive_inv_def)
  note w = fb_write_commit [OF this]
  then show ?thesis
    using False assms
    by (auto simp: resume_read_def complete_with_def completed_def Let_def receive_inv_def received_def
        reading_def)
qed

subsection \<open>Length fields out of range\<close>

text \<open>
  A frame longer than the buffer fills it; then the receiver asks for reads of no octets, which
  complete at once with none.
\<close>

definition overfull :: "nat \<Rightarrow> receive_op \<Rightarrow> session \<Rightarrow> bool" where
  "overfull cap op s \<longleftrightarrow> idle_reading cap op s \<and> length (received s) = cap"

lemma overfull_read:
  assumes "overfull cap op s"
  shows "\<exists>off op' s'. resume (Read_done [] No_error False) (Recv_reading, op, s) =
           Some (Read_some off 0, Recv_reading, op', s') \<and> overfull cap op' s'"
proof -
  have "receive_inv cap s" "\<not> needs_more op" "\<not> complete_frame (received s)" "length (received s) = cap"
    using assms by (simp_all add: overfull_def idle_reading_def reading_def)
  with receive_loop_idle [OF this(1-3)] show ?thesis
    by (auto simp: resume_read_def overfull_def)
qed

lemma overfull_forever:
  "overfull cap op s \<Longrightarrow> \<exists>acts st. play (replicate k (Read_done [] No_error False)) (Recv_reading, op, s) = Some (acts, st) \<and>
     length acts = k \<and> (\<forall>a \<in> set acts. \<exists>off. a = Read_some off 0)"
proof (induction k arbitrary: op s)
  case (Suc k)
  obtain off op' s' where r: "resume (Read_done [] No_error False) (Recv_reading, op, s) =
      Some (Read_some off 0, Recv_reading, op', s')" and o: "overfull cap op' s'"
    using overfull_read [OF Suc.prems] by blast
  obtain acts st where "play (replicate k (Read_done [] No_error False)) (Recv_reading, op', s') = Some (acts, st)"
    "length acts = k" "\<forall>a \<in> set acts. \<exists>off. a = Read_some off 0"
    using Suc.IH [OF o] by blast
  then show ?case using r by (auto simp del: resume.simps split_paired_Ex)
qed simp

text \<open>An \<open>enquire_link\<close> of length 0 is answered over and over: nothing of it is consumed.\<close>

lemma zero_length_enquire_link:
  assumes "receive_inv cap s" "\<not> needs_more op" "header_length \<le> length (received s)"
    "frame_header (received s) = (0, command_id_enquire_link, st, n)"
  shows "\<exists>op' s'. receive_loop op s =
             Some (Send_cmd command_id_enquire_link_resp n, Recv_answering_enquire, op', s') \<and>
           receive_inv cap s' \<and> \<not> needs_more op' \<and> received s' = received s \<and>
           op_command_length op' = 0"
  using receive_loop_complete [OF assms(1,2) _ assms(4)] assms
  by (simp add: complete_frame_def)

lemma zero_length_enquire_link_forever:
  assumes "receive_inv cap s" "\<not> needs_more op" "header_length \<le> length (received s)"
    "frame_header (received s) = (0, command_id_enquire_link, st, n)" "op_command_length op = 0"
  shows "\<exists>st'. play (replicate k (Sent No_error)) (Recv_answering_enquire, op, s) =
           Some (replicate k (Send_cmd command_id_enquire_link_resp n), st')"
  using assms
proof (induction k arbitrary: op s)
  case (Suc k)
  let ?s = "consume 0 s"
  have s: "receive_inv cap ?s" "received ?s = received s"
    using consume_effect [OF Suc.prems(1), of 0] by simp_all
  obtain op' s' where r: "receive_loop op ?s =
      Some (Send_cmd command_id_enquire_link_resp n, Recv_answering_enquire, op', s')"
    and s': "receive_inv cap s'" "\<not> needs_more op'" "received s' = received ?s"
      "op_command_length op' = 0"
    using zero_length_enquire_link [OF s(1) Suc.prems(2)] Suc.prems(3,4) s(2) by metis
  have "\<exists>st'. play (replicate k (Sent No_error)) (Recv_answering_enquire, op', s') =
      Some (replicate k (Send_cmd command_id_enquire_link_resp n), st')"
    using Suc.IH [OF s'(1,2)] s' s(2) Suc.prems(3,4) by simp
  then show ?case
    using r Suc.prems(5) by (auto simp: resume_answering_enquire_def)
qed simp

text \<open>Any other PDU whose length field is below 16 has a body that ends before it begins.\<close>

lemma short_length_undefined:
  assumes "receive_inv cap s" "header_length \<le> length (received s)"
    "frame_header (received s) = (len, cid, st, n)" "unat len < header_length"
    "cid \<notin> {command_id_enquire_link, command_id_enquire_link_resp, command_id_unbind, command_id_unbind_resp}"
  shows "\<exists>r. async_receive s = Some (Post, r) \<and>
           play [Posted] r = Some ([Undefined_behaviour], Recv_done, snd r)"
proof -
  have "complete_frame (received s)" using assms(2-4) by (simp add: complete_frame_def)
  from receive_loop_complete [OF assms(1) _ this assms(3), of receive_op_new] show ?thesis
    using assms(3-5)
    by (simp add: async_receive_def receive_op_new_def resume_posted_def deliver_pdu_def)
qed

end
