(* ===== verification/Sample_Runs.thy ===== *)
theory Sample_Runs
  imports Session_Transfer Send_Findings Receive_Behaviour
begin

text \<open>
  A small concrete exchange, on which the properties of the root theory are instantiated: one
  \<open>submit_sm_resp\<close> sent over a new session, its frame, and the same frame cut into three reads.
\<close>

definition sample_response :: pdu_variant where
  "sample_response = Pdu_submit_sm_resp \<lparr>submit_sm_resp.message_id = [0x41, 0x42]\<rparr>"

definition sample_request :: send_request where
  "sample_request = Send_response sample_response 7 command_status_rok"

definition sample_system :: send_system where
  "sample_system = initiate sample_request (send_init (session_new 60))"

definition sample_frame :: octets where
  "sample_frame = [0,0,0,19, 0x80,0,0,4, 0,0,0,0, 0,0,0,7, 0x41,0x42,0]"

lemma sample_request_ok:
  "admissible_request sample_request" "request_ok sample_request" "\<not> request_ends sample_request"
  by (simp_all add: sample_request_def sample_response_def command_id_defs enum_values response_pdu_def
      is_response_def submit_sm_resp_ok_def c_str_ok_def)

lemma sample_reachable: "reachable sample_system"
  unfolding sample_system_def
  by (rule reachable_step [OF reachable_init step_initiate])
    (simp_all add: session_new_def sequence_inv_def sample_request_ok)

lemma sample_request_frame: "request_frame sample_request 7 = sample_frame"
  by code_simp

lemma sample_build_frame: "\<exists>s'. build_frame sample_request s = (Inr 7, s') \<and> send_buf s' = sample_frame"
proof -
  have "request_fits sample_request"
    by (simp add: sample_request_def sample_response_def submit_sm_resp_fits_def)
  then obtain n s' where bf: "build_frame sample_request s = (Inr n, s')" using build_frame_fits by blast
  then have "n = 7" using build_frame_request(2) [OF bf] by (simp add: sample_request_def)
  then show ?thesis using bf build_frame_request(1) [OF bf] sample_request_frame by simp
qed

lemma sample_system_fields:
  "wire sample_system = [sample_frame]" "length (ops sample_system) = 1"
  "request (ops sample_system ! 0) = sample_request" "pc (ops sample_system ! 0) = Writing 7"
  "send_buf (sess sample_system) = sample_frame"
proof -
  obtain s' where "build_frame sample_request (session_new 60) = (Inr 7, s')" "send_buf s' = sample_frame"
    using sample_build_frame by blast
  moreover have "send_buf (session_new 60) = []" by (simp add: session_new_def)
  ultimately show "wire sample_system = [sample_frame]" "length (ops sample_system) = 1"
    "request (ops sample_system ! 0) = sample_request" "pc (ops sample_system ! 0) = Writing 7"
    "send_buf (sess sample_system) = sample_frame"
    by (simp_all add: sample_system_def send_init_def initiate_def try_send_def set_op_def)
qed

lemma sample_frame_length: "length sample_frame = 19"
  by (simp add: sample_frame_def)

lemma sample_good_frame: "good_frame (128 * 1024) sample_frame"
  using request_frame_read(3) [OF sample_request_ok(2), of 7 "128 * 1024"]
  by (simp add: sample_request_frame sample_frame_length)

definition sample_chunks :: "octets list" where
  "sample_chunks = [[0,0,0,19, 0x80], [0,0,4, 0,0,0,0, 0,0,0,7, 0x41], [0x42,0]]"

lemma sample_chunks: "concat sample_chunks = sample_frame" "[] \<notin> set sample_chunks"
  by (simp_all add: sample_chunks_def sample_frame_def)

text \<open>A session whose buffer has just the size of the given octets and is full of them.\<close>

definition session_with :: "octets \<Rightarrow> session" where
  "session_with bytes =
     (session_new 60)\<lparr>receive_buf :=
        \<lparr>fb_array = bytes, fb_in = 0, fb_out = length bytes, fb_last = length bytes\<rparr>\<rparr>"

lemma session_with:
  "receive_inv (length bytes) (session_with bytes)" "received (session_with bytes) = bytes"
  "reading (length bytes) (session_with bytes)" "sequence_number (session_with bytes) = 0"
  by (simp_all add: session_with_def receive_inv_def received_def reading_def fb_inv_def fb_defs
      session_new_def)

text \<open>A header alone, with length field \<open>len\<close> and command \<open>cid\<close>.\<close>

lemma header_frame:
  "frame_header (header_octets len cid n st) = (len, cid, st, n)"
  "header_length \<le> length (header_octets len cid n st)"
  using frame_header_octets [where body = "[]"] by (simp_all add: header_length_def)

definition oversized_password :: send_request where
  "oversized_password = Send_request (Pdu_outbind \<lparr>system_id = [], password = replicate 9 0x41\<rparr>)"

lemma oversized_password: "admissible_request oversized_password" "\<not> request_fits oversized_password"
  by (simp_all add: oversized_password_def command_id_defs enum_values request_pdu_def is_response_def
      outbind_fits_def)

end
