(* ===== verification/Receive_Safety.thy ===== *)
theory Receive_Safety
  imports Receive_Behaviour
begin

text \<open>
  What holds of the receiver whatever the peer sends and whatever Asio reports: it asks the socket only
  for octets that fit the array, \<open>prepare\<close> never throws, the buffer keeps its invariant, and the
  octets left in the buffer are the last ones that arrived. \<open>admissible_events\<close> are the completions Asio
  may report to a suspended receiver: those of the operation it waits for, and for a read no more octets
  than the region it was given.
\<close>

fun event_ok :: "receive_event \<Rightarrow> receive_state \<Rightarrow> bool" where
  "event_ok (Read_done bytes ec by_client) (Recv_reading, op, s) \<longleftrightarrow>
     length bytes \<le> fb_last (receive_buf s) - fb_out (receive_buf s)"
| "event_ok _ st \<longleftrightarrow> True"

fun admissible_events :: "receive_event list \<Rightarrow> receive_state \<Rightarrow> bool" where
  "admissible_events [] st \<longleftrightarrow> True"
| "admissible_events (e # es) st \<longleftrightarrow> event_ok e st \<and>
     (case resume e st of None \<Rightarrow> True | Some (a, st) \<Rightarrow> admissible_events es st)"

fun arrived :: "receive_event \<Rightarrow> octets" where
  "arrived (Read_done bytes _ _) = bytes"
| "arrived _ = []"

fun action_safe :: "nat \<Rightarrow> receive_action \<Rightarrow> bool" where
  "action_safe cap (Read_some off n) \<longleftrightarrow> off + n \<le> cap"
| "action_safe cap (Throws e) \<longleftrightarrow> False"
| "action_safe cap _ \<longleftrightarrow> True"

definition result_safe :: "nat \<Rightarrow> octets \<Rightarrow> receive_result \<Rightarrow> bool" where
  "result_safe cap data r \<longleftrightarrow>
     (case r of (a, pc, op, s) \<Rightarrow>
        action_safe cap a \<and> receive_inv cap s \<and> (pc = Recv_reading \<longrightarrow> reading cap s) \<and>
        suffix (received s) data)"

subsection \<open>The loop\<close>

lemma start_read_safe:
  assumes "receive_inv cap s"
  shows "result_safe cap (received s) (start_read op s)"
proof -
  obtain off s' where s': "start_read op s = (Read_some off (cap - length (received s)), Recv_reading,
      op\<lparr>needs_more := False, needs_post := False\<rparr>, s')"
    "receive_inv cap s'" "received s' = received s" "fb_out (receive_buf s') = off"
    "fb_last (receive_buf s') = off + (cap - length (received s))"
    using start_read_effect [OF assms, of op] by blast
  then show ?thesis by (auto simp: result_safe_def reading_def receive_inv_def fb_inv_def fb_capacity_def)
qed

lemma shutdown_keeps [simp]:
  "receive_inv cap (shutdown_socket s) = receive_inv cap s" "received (shutdown_socket s) = received s"
  by (simp_all add: shutdown_socket_def receive_inv_def received_def)

lemma complete_with_safe [simp]:
  "result_safe cap data (complete_with ec op s) \<longleftrightarrow> receive_inv cap s \<and> suffix (received s) data"
  by (simp add: complete_with_def result_safe_def)

lemma finish_unbind_safe: "receive_inv cap s \<Longrightarrow> result_safe cap (received s) (finish_unbind op s)"
  by (simp add: finish_unbind_def consume_effect suffix_drop)

lemma deliver_pdu_safe: "receive_inv cap s \<Longrightarrow> result_safe cap (received s) (deliver_pdu op s)"
  by (simp add: deliver_pdu_def result_safe_def Let_def consume_effect suffix_drop)

lemma result_safe_suffix: "result_safe cap data r \<Longrightarrow> suffix data data' \<Longrightarrow> result_safe cap data' r"
  by (auto simp: result_safe_def intro: suffix_order.trans)

lemma receive_loop_safe:
  "receive_loop op s = Some r \<Longrightarrow> receive_inv cap s \<longrightarrow> result_safe cap (received s) r"
proof (induction rule: receive_loop.raw_induct [rotated 1, consumes 1])
  case (1 loop op s r)
  have again: "result_safe cap (received s) r"
    if "loop op' (consume n s) = Some r" "receive_inv cap s" for op' n
    using 1(1) [OF that(1)] consume_effect [OF that(2), of n] suffix_drop [of "unat n" "received s"]
      result_safe_suffix that(2)
    by metis
  show ?case
  proof
    assume inv: "receive_inv cap s"
    note safe = start_read_safe [OF inv] finish_unbind_safe [OF inv] deliver_pdu_safe [OF inv]
    show "result_safe cap (received s) r"
      using 1(2) safe 1(1) again inv
      by (auto simp: Let_def result_safe_def [of cap _ "(Post, _)"] result_safe_def [of cap _ "(Send_cmd _ _, _)"]
          split: if_splits prod.splits)
  qed
qed

subsection \<open>After each suspension\<close>

text \<open>Storing what a read delivered, as the code after \<open>async_read_some\<close> does.\<close>

definition store_received :: "octets \<Rightarrow> session \<Rightarrow> session" where
  "store_received bytes s =
     (if bytes = [] then s
      else s\<lparr>receive_buf := fb_commit (length bytes)
             (memory_write (fb_out (receive_buf s)) bytes (receive_buf s))\<rparr>)"

lemma store_received_effect:
  assumes "receive_inv cap s" "length bytes \<le> fb_last (receive_buf s) - fb_out (receive_buf s)"
  shows "receive_inv cap (store_received bytes s)" "received (store_received bytes s) = received s @ bytes"
  using assms fb_write_commit [of "receive_buf s" bytes]
  by (auto simp: store_received_def receive_inv_def received_def)

lemma resume_read_eq:
  "resume_read bytes ec by_client op s =
     (let op = (if bytes = [] then op else op\<lparr>pending_enquire_link := False\<rparr>);
          s = store_received bytes s;
          (n, s1) = next_sequence_number s
      in if ec = Operation_aborted \<and> \<not> by_client
         then if pending_enquire_link op
              then Some (Send_cmd command_id_unbind n, Recv_unbinding, op, s1)
              else Some (Send_cmd command_id_enquire_link n, Recv_enquiring,
                         op\<lparr>pending_enquire_link := True\<rparr>, s1)
         else if failed ec then Some (complete_with ec op s)
         else receive_loop op s)"
  by (cases "bytes = []"; cases "ec = Operation_aborted \<and> \<not> by_client")
    (auto simp: resume_read_def store_received_def Let_def split: prod.split)

lemma resume_read_cases:
  assumes "resume_read bytes ec by_client op s = Some r"
  obtains
    (command) cid n s' pc op' where "r = (Send_cmd cid n, pc, op', s')" "pc \<noteq> Recv_reading"
      "next_sequence_number (store_received bytes s) = (n, s')"
  | (error) op' where "r = complete_with ec op' (store_received bytes s)"
  | (loop) op' where "receive_loop op' (store_received bytes s) = Some r"
  using assms that
  by (auto simp: resume_read_eq Let_def split: if_splits prod.splits)

lemma resume_read_safe:
  assumes "resume_read bytes ec by_client op s = Some r" "receive_inv cap s"
    and "length bytes \<le> fb_last (receive_buf s) - fb_out (receive_buf s)"
  shows "result_safe cap (received s @ bytes) r"
  using assms(1)
proof (cases rule: resume_read_cases)
  case (command cid n s' pc op')
  then show ?thesis
    using store_received_effect [OF assms(2,3)] next_sequence_number_keeps(1,2) [of "store_received bytes s"]
    by (simp add: result_safe_def)
next
  case (loop op')
  then show ?thesis using receive_loop_safe store_received_effect [OF assms(2,3)] by metis
qed (simp add: store_received_effect [OF assms(2,3)])

lemma consume_loop_safe:
  assumes "receive_loop op (consume n s) = Some r" "receive_inv cap s"
  shows "result_safe cap (received s) r"
  using receive_loop_safe [OF assms(1), of cap] consume_effect [OF assms(2), of n]
  by (auto intro: result_safe_suffix suffix_drop)

fun_cases resume_elims: "resume e st = Some r"

lemma resume_safe:
  assumes "resume e (pc, op, s) = Some r" "receive_inv cap s" "event_ok e (pc, op, s)"
  shows "result_safe cap (received s @ arrived e) r"
  using assms(1)
proof (rule resume_elims)
  fix bytes ec by_client op' s'
  assume "e = Read_done bytes ec by_client" "(pc, op, s) = (Recv_reading, op', s')"
    "Some r = resume_read bytes ec by_client op' s'"
  then show ?thesis using resume_read_safe [of bytes ec by_client op s r cap] assms(2,3) by simp
qed (use assms(2) in \<open>auto simp: resume_unbinding_def resume_enquiring_def resume_answering_enquire_def
    resume_answering_unbind_def resume_posted_def finish_unbind_safe deliver_pdu_safe
    intro: consume_loop_safe [OF sym] dest: receive_loop_safe [OF sym] split: if_splits\<close>)

lemma play_safe:
  assumes "play es (pc, op, s) = Some (acts, pc', op', s')" "receive_inv cap s"
    and "admissible_events es (pc, op, s)"
  shows "(\<forall>a \<in> set acts. action_safe cap a) \<and> receive_inv cap s' \<and>
         suffix (received s') (received s @ concat (map arrived es))"
  using assms
proof (induction es arbitrary: pc op s acts)
  case (Cons e es)
  obtain a pc1 op1 s1 acts1 where r: "resume e (pc, op, s) = Some (a, pc1, op1, s1)"
    and p: "play es (pc1, op1, s1) = Some (acts1, pc', op', s')" and acts: "acts = a # acts1"
    using Cons.prems(1) by (auto split: option.splits elim!: emit.elims)
  have ok: "event_ok e (pc, op, s)" "admissible_events es (pc1, op1, s1)"
    using Cons.prems(3) r by simp_all
  have safe: "action_safe cap a" "receive_inv cap s1" "suffix (received s1) (received s @ arrived e)"
    using resume_safe [OF r Cons.prems(2) ok(1)] by (simp_all add: result_safe_def)
  note IH = Cons.IH [OF p safe(2) ok(2)]
  have "suffix (received s1 @ concat (map arrived es)) (received s @ arrived e @ concat (map arrived es))"
    using safe(3) by (auto simp: suffix_def)
  then show ?case using IH safe acts by (auto intro: suffix_order.trans)
qed simp

end
