(* ===== verification/Data_Coding_Unicode.thy ===== *)
theory Data_Coding_Unicode
  imports Param_Enums
begin

text \<open>
  \<open>include/smpp/utility/data_coding_unicode.hpp\<close>: the alphabet a \<open>data_coding\<close> octet announces, by the
  coding groups of its upper four bits.
\<close>

datatype data_coding_unicode = Ascii_7_bit | Ascii_8_bit | Binary | Ucs2

definition extract_unicode :: "data_coding \<Rightarrow> data_coding_unicode" where
  "extract_unicode data_coding =
     (let b = data_coding_u8 data_coding; group = b AND 0xF0
      in if group = 0x00
         then (let low = b AND 0x0F
               in if low \<in> {0x00, 0x01, 0x03, 0x05, 0x06, 0x07, 0x0D, 0x0E, 0x0B, 0x0C, 0x0F} then Ascii_8_bit
                  else if low \<in> {0x02, 0x04, 0x09, 0x0A} then Binary
                  else if low = 0x08 then Ucs2
                  else Ascii_7_bit)
         else if group \<in> {0x10, 0x20, 0x30, 0x40, 0x50, 0x60, 0x70}
         then (let alphabet = b AND 0x0C
               in if alphabet = 0x04 then Binary
                  else if alphabet = 0x08 then Ucs2
                  else Ascii_7_bit)
         else if group \<in> {0x80, 0x90, 0xA0, 0xB0, 0xC0, 0xD0} then Ascii_7_bit
         else if group = 0xE0 then Ucs2
         else if group = 0xF0 then (if b AND 0x04 \<noteq> 0 then Binary else Ascii_7_bit)
         else Ascii_7_bit)"

text \<open>An octet is one of 256: what holds of each in turn holds of all.\<close>

lemma all_octets: "list_all (\<lambda>n. P (of_nat n :: octet)) [0..<256] \<Longrightarrow> P b"
proof -
  assume "list_all (\<lambda>n. P (of_nat n :: octet)) [0..<256]"
  then have "\<forall>n \<in> set [0..<256]. P (of_nat n :: octet)" by (simp only: list_all_iff)
  moreover have "unat b \<in> set [0..<256]" by simp
  ultimately have "P (of_nat (unat b))" by blast
  then show "P b" by simp
qed

subsection \<open>The masks as arithmetic\<close>

lemma bit_octet_eqI:
  fixes a b :: octet
  assumes "\<And>n. n \<in> {0, 1, 2, 3, 4, 5, 6, 7} \<Longrightarrow> bit a n = bit b n"
  shows "a = b"
proof (rule bit_word_eqI)
  fix n assume "n < LENGTH(8)"
  then have "n \<in> {0, 1, 2, 3, 4, 5, 6, 7}" by auto
  then show "bit a n = bit b n" by (rule assms)
qed

lemma of_nat_unat_octet: "of_nat (unat b) = b" for b :: octet
  by simp

lemma unat_field:
  assumes "i < 8" "j \<le> 8" "i \<le> j"
  shows "unat (push_bit i (drop_bit i (take_bit j b)) :: octet) = 2 ^ i * (unat b mod 2 ^ j div 2 ^ i)"
proof -
  have "unat b mod 2 ^ j div 2 ^ i < 2 ^ (8 - i)"
  proof -
    have "unat b mod 2 ^ j < 2 ^ j" by simp
    also have "(2 :: nat) ^ j \<le> 2 ^ 8" using assms(2) by (intro power_increasing) simp_all
    also have "(2 :: nat) ^ 8 = 2 ^ (8 - i) * 2 ^ i" using assms(1) by (simp flip: power_add)
    finally show ?thesis by (simp add: less_mult_imp_div_less)
  qed
  then have "unat b mod 2 ^ j div 2 ^ i * 2 ^ i < 2 ^ (8 - i) * 2 ^ i" by simp
  also have "\<dots> = 256" using assms(1) by (simp flip: power_add)
  finally have less: "unat b mod 2 ^ j div 2 ^ i * 2 ^ i < 256" .
  have "unat b mod 2 ^ j < 256"
    using unat_octet_less [of b] mod_less_eq_dividend [of "unat b" "2 ^ j"] by linarith
  then show ?thesis using less
    by (simp only: unsigned_push_bit_eq unsigned_drop_bit_eq unsigned_take_bit_eq)
      (simp add: push_bit_eq_mult drop_bit_eq_div take_bit_eq_mod mult.commute)
qed

lemma unat_and_F0: "unat (b AND 0xF0) = 16 * (unat b div 16)" for b :: octet
proof -
  have "b AND 0xF0 = push_bit 4 (drop_bit 4 (take_bit 8 b))"
    by (rule bit_octet_eqI) (auto simp: bit_simps)
  then show ?thesis using unat_field [of 4 8 b] by simp
qed

lemma unat_and_0F: "unat (b AND 0x0F) = unat b mod 16" for b :: octet
proof -
  have "b AND 0x0F = push_bit 0 (drop_bit 0 (take_bit 4 b))"
    by (rule bit_octet_eqI) (auto simp: bit_simps)
  then show ?thesis using unat_field [of 0 4 b] by simp
qed

lemma unat_and_0C: "unat (b AND 0x0C) = 4 * (unat b mod 16 div 4)" for b :: octet
proof -
  have "b AND 0x0C = push_bit 2 (drop_bit 2 (take_bit 4 b))"
    by (rule bit_octet_eqI) (auto simp: bit_simps, simp_all add: numeral_2_eq_2 numeral_3_eq_3)
  then show ?thesis using unat_field [of 2 4 b] by simp
qed

lemma unat_and_04: "unat (b AND 0x04) = 4 * (unat b mod 8 div 4)" for b :: octet
proof -
  have "b AND 0x04 = push_bit 2 (drop_bit 2 (take_bit 3 b))"
    by (rule bit_octet_eqI) (auto simp: bit_simps, simp_all add: numeral_2_eq_2)
  then show ?thesis using unat_field [of 2 3 b] by simp
qed

subsection \<open>The same function on the two halves of the octet\<close>

definition unicode_of_nibbles :: "nat \<Rightarrow> nat \<Rightarrow> data_coding_unicode" where
  "unicode_of_nibbles grp low =
     (if grp = 0 then (if low = 8 then Ucs2 else if low \<in> {2, 4, 9, 10} then Binary else Ascii_8_bit)
      else if grp < 8 then (if low div 4 = 1 then Binary else if low div 4 = 2 then Ucs2 else Ascii_7_bit)
      else if grp = 14 then Ucs2
      else if grp = 15 \<and> low mod 8 div 4 = 1 then Binary
      else Ascii_7_bit)"

lemma nibble_cases: "n < 16 \<Longrightarrow> n \<in> {0,1,2,3,4,5,6,7,8,9,10,11,12,13,14,15}" for n :: nat
  by (auto simp: numeral_eq_Suc less_Suc_eq)

lemma masked_octet:
  "b AND 0xF0 = of_nat (16 * (unat b div 16))" "b AND 0x0F = of_nat (unat b mod 16)"
  "b AND 0x0C = of_nat (4 * (unat b mod 16 div 4))" "b AND 0x04 = of_nat (4 * (unat b mod 8 div 4))"
  for b :: octet
  using of_nat_unat_octet [of "b AND 0xF0"] of_nat_unat_octet [of "b AND 0x0F"]
    of_nat_unat_octet [of "b AND 0x0C"] of_nat_unat_octet [of "b AND 0x04"]
  unfolding unat_and_F0 unat_and_0F unat_and_0C unat_and_04 by (simp_all only:)

text \<open>The three inner switches.\<close>

lemma general_group:
  "(let low = b AND 0x0F
    in if low \<in> {0x00, 0x01, 0x03, 0x05, 0x06, 0x07, 0x0D, 0x0E, 0x0B, 0x0C, 0x0F} then Ascii_8_bit
       else if low \<in> {0x02, 0x04, 0x09, 0x0A} then Binary
       else if low = 0x08 then Ucs2
       else Ascii_7_bit) = unicode_of_nibbles 0 (unat b mod 16)" for b :: octet
proof -
  have "unat b mod 16 \<in> {0,1,2,3,4,5,6,7,8,9,10,11,12,13,14,15}" by (rule nibble_cases) simp
  then show ?thesis
    unfolding masked_octet unicode_of_nibbles_def by (elim insertE emptyE; simp)
qed

lemma alphabet_group:
  "(let alphabet = b AND 0x0C
    in if alphabet = 0x04 then Binary else if alphabet = 0x08 then Ucs2 else Ascii_7_bit) =
   (if unat b mod 16 div 4 = 1 then Binary else if unat b mod 16 div 4 = 2 then Ucs2 else Ascii_7_bit)"
  for b :: octet
proof -
  have "unat b mod 16 div 4 < 4" by (simp add: less_mult_imp_div_less)
  then have "unat b mod 16 div 4 \<in> {0, 1, 2, 3}" by auto
  then show ?thesis unfolding masked_octet by (elim insertE emptyE; simp)
qed

lemma message_class_group:
  "(b AND 0x04 \<noteq> 0) = (unat b mod 16 mod 8 div 4 = 1)" for b :: octet
proof -
  have "unat b mod 8 div 4 < 2" by (simp add: less_mult_imp_div_less)
  then have "unat b mod 8 div 4 \<in> {0, 1}" by auto
  moreover have "unat b mod 16 mod 8 = unat b mod 8" by (simp add: mod_mod_cancel)
  ultimately show ?thesis unfolding masked_octet by (elim insertE emptyE; simp)
qed

lemma extract_unicode_nibbles:
  "extract_unicode (Data_coding b) = unicode_of_nibbles (unat b div 16) (unat b mod 16)"
proof -
  have "unat b div 16 \<in> {0,1,2,3,4,5,6,7,8,9,10,11,12,13,14,15}"
    by (rule nibble_cases) (simp add: less_mult_imp_div_less)
  then show ?thesis
    unfolding extract_unicode_def data_coding.sel Let_def [of b] general_group alphabet_group
      message_class_group masked_octet(1) unfolding Let_def
    by (elim insertE emptyE; simp add: unicode_of_nibbles_def)
qed

end
