(* ===== verification/Short_Message.thy ===== *)
theory Short_Message
  imports Flags Data_Coding_Unicode
begin

text \<open>
  \<open>include/smpp/utility/short_message.hpp\<close>: the user data header in front of a segmented message,
  \<open>pack_short_message\<close> and \<open>unpack_short_message\<close>. Whether \<open>char\<close> is signed is up to the platform
  and matters in \<open>get_multi_part_data\<close>, where a \<open>char\<close> is converted to \<open>uint16_t\<close>: it is the
  parameter \<open>signed_char\<close>.
\<close>

record multi_part_data =
  concat_sm_ref_num :: u16
  number_of_parts :: octet
  part_sequence_number :: octet

record user_data_header =
  headers :: "(octet \<times> octets) list"

definition concatenated_sm_8bit_ref :: octet where
  "concatenated_sm_8bit_ref = 0x00"

definition concatenated_sm_16bit_ref :: octet where
  "concatenated_sm_16bit_ref = 0x08"

definition user_data_header_default :: user_data_header where
  "user_data_header_default = \<lparr>headers = []\<rparr>"

subsection \<open>user_data_header\<close>

fun udh_read :: "(octet \<times> octets) list \<Rightarrow> octets \<Rightarrow> exn + (octet \<times> octets) list" where
  "udh_read hs (tag # val_length # rest) =
     (if length rest < unat val_length
      then Inl (Length_error ''user_data_header val length is bigger than available buf'')
      else let val_buf = take (unat val_length) rest in
        if (tag = concatenated_sm_8bit_ref \<and> length val_buf \<noteq> 3) \<or>
           (tag = concatenated_sm_16bit_ref \<and> length val_buf \<noteq> 4)
        then Inl (Length_error ''user_data_header multi_part_data length is invalid'')
        else udh_read (hs @ [(tag, val_buf)]) (drop (unat val_length) rest))"
| "udh_read hs buf = Inr hs"

definition user_data_header_construct :: "octets \<Rightarrow> exn + user_data_header" where
  "user_data_header_construct buf =
     (case udh_read [] buf of Inl e \<Rightarrow> Inl e | Inr hs \<Rightarrow> Inr \<lparr>headers = hs\<rparr>)"

definition user_data_header_serialize :: "user_data_header \<Rightarrow> octets" where
  "user_data_header_serialize this =
     foldl (\<lambda>buf (tag, val). (buf @ [tag, of_nat (length val)]) @ val) [] (headers this)"

definition set_multi_part_data :: "multi_part_data \<Rightarrow> user_data_header \<Rightarrow> user_data_header" where
  "set_multi_part_data mpd this =
     (if concat_sm_ref_num mpd > 0xFF
      then this\<lparr>headers := headers this @
             [(concatenated_sm_16bit_ref,
               [byte_of 1 (concat_sm_ref_num mpd), byte_of 0 (concat_sm_ref_num mpd),
                number_of_parts mpd, part_sequence_number mpd])]\<rparr>
      else this\<lparr>headers := headers this @
             [(concatenated_sm_8bit_ref,
               [ucast (concat_sm_ref_num mpd), number_of_parts mpd, part_sequence_number mpd])]\<rparr>)"

definition user_data_header_of_mpd :: "multi_part_data \<Rightarrow> user_data_header" where
  "user_data_header_of_mpd mpd = set_multi_part_data mpd user_data_header_default"

definition char_to_u16 :: "bool \<Rightarrow> octet \<Rightarrow> u16" where
  "char_to_u16 signed_char c = (if signed_char then signed_take_bit 7 (ucast c) else ucast c)"

definition get_multi_part_data :: "bool \<Rightarrow> user_data_header \<Rightarrow> multi_part_data" where
  "get_multi_part_data signed_char this =
     (case find (\<lambda>h. fst h = concatenated_sm_8bit_ref) (headers this) of
        Some (_, val) \<Rightarrow>
          \<lparr>concat_sm_ref_num = char_to_u16 signed_char (val ! 0),
           number_of_parts = val ! 1, part_sequence_number = val ! 2\<rparr>
      | None \<Rightarrow>
          (case find (\<lambda>h. fst h = concatenated_sm_16bit_ref) (headers this) of
             Some (_, val) \<Rightarrow>
               \<lparr>concat_sm_ref_num =
                  push_bit 8 (char_to_u16 signed_char (val ! 0)) OR char_to_u16 signed_char (val ! 1),
                number_of_parts = val ! 2, part_sequence_number = val ! 3\<rparr>
           | None \<Rightarrow> \<lparr>concat_sm_ref_num = 0, number_of_parts = 1, part_sequence_number = 1\<rparr>))"

subsection \<open>Packing and unpacking\<close>

definition length_limit :: "data_coding \<Rightarrow> octets \<Rightarrow> exn option" where
  "length_limit data_coding short_message =
     (if extract_unicode data_coding = Ascii_8_bit
      then (if length short_message > 160
            then Some (Length_error ''short_message length is larger than 160'') else None)
      else (if length short_message > 140
            then Some (Length_error ''short_message length is larger than 140'') else None))"

definition unpack_short_message ::
    "esm_class \<Rightarrow> data_coding \<Rightarrow> octets \<Rightarrow> exn + user_data_header \<times> octets" where
  "unpack_short_message esm_class data_coding short_message =
     (case length_limit data_coding short_message of
        Some e \<Rightarrow> Inl e
      | None \<Rightarrow>
          if gsm_network_features esm_class = gsm_network_features_uhdi \<or>
             gsm_network_features esm_class = gsm_network_features_both
          then let udh_length = (case short_message of [] \<Rightarrow> 0 | c # _ \<Rightarrow> unat c)
               in if length short_message \<le> udh_length
                  then Inl (Length_error ''UDH lenght is larger than short_message'')
                  else case user_data_header_construct (take udh_length (drop 1 short_message)) of
                         Inl e \<Rightarrow> Inl e
                       | Inr udh \<Rightarrow> Inr (udh, drop (1 + udh_length) short_message)
          else Inr (user_data_header_default, short_message))"

definition pack_short_message :: "user_data_header \<Rightarrow> octets \<Rightarrow> data_coding \<Rightarrow> exn + octets" where
  "pack_short_message udh body data_coding =
     (let serialized_udh = user_data_header_serialize udh;
          short_message = (if length serialized_udh \<noteq> 0
                           then [of_nat (length serialized_udh)] @ serialized_udh else []);
          short_message = short_message @ body
      in case length_limit data_coding short_message of
           Some e \<Rightarrow> Inl e
         | None \<Rightarrow> Inr short_message)"

subsection \<open>The header's octets\<close>

definition header_ok :: "octet \<times> octets \<Rightarrow> bool" where
  "header_ok h \<longleftrightarrow> length (snd h) < 256 \<and>
     (fst h = concatenated_sm_8bit_ref \<longrightarrow> length (snd h) = 3) \<and>
     (fst h = concatenated_sm_16bit_ref \<longrightarrow> length (snd h) = 4)"

definition udh_ok :: "user_data_header \<Rightarrow> bool" where
  "udh_ok this \<longleftrightarrow> list_all header_ok (headers this)"

definition header_bytes :: "octet \<times> octets \<Rightarrow> octets" where
  "header_bytes h = fst h # of_nat (length (snd h)) # snd h"

lemma serialize_headers:
  "user_data_header_serialize this = concat (map header_bytes (headers this))"
proof -
  have "foldl (\<lambda>buf (tag, val). (buf @ [tag, of_nat (length val)]) @ val) buf hs =
      buf @ concat (map header_bytes hs)" for buf :: octets and hs
    by (induction hs arbitrary: buf) (auto simp: header_bytes_def)
  then show ?thesis by (simp add: user_data_header_serialize_def)
qed

lemma udh_read_header:
  assumes "header_ok h"
  shows "udh_read hs (header_bytes h @ rest) = udh_read (hs @ [h]) rest"
  using assms by (cases h) (auto simp: header_bytes_def header_ok_def Let_def unat_of_nat_octet)

lemma udh_read_headers:
  "list_all header_ok hs \<Longrightarrow> length rest < 2 \<Longrightarrow>
     udh_read acc (concat (map header_bytes hs) @ rest) = Inr (acc @ hs)"
proof (induction hs arbitrary: acc)
  case Nil
  then show ?case by (cases "(acc, rest)" rule: udh_read.cases) auto
next
  case (Cons h hs)
  then show ?case by (simp add: udh_read_header)
qed

lemma udh_construct_serialized:
  assumes "udh_ok this" "length rest < 2"
  shows "user_data_header_construct (user_data_header_serialize this @ rest) = Inr this"
  using udh_read_headers [of "headers this" rest "[]"] assms
  by (simp add: user_data_header_construct_def serialize_headers udh_ok_def)

lemma udh_read_canonical:
  "udh_read acc buf = Inr hs \<Longrightarrow>
     \<exists>hs' rest. hs = acc @ hs' \<and> list_all header_ok hs' \<and> buf = concat (map header_bytes hs') @ rest \<and>
       length rest < 2"
proof (induction acc buf rule: udh_read.induct)
  case (1 acc tag len rest)
  let ?v = "take (unat len) rest"
  have len: "unat len \<le> length rest" and ok: "header_ok (tag, ?v)"
    and rec: "udh_read (acc @ [(tag, ?v)]) (drop (unat len) rest) = Inr hs"
    using 1(2) by (auto simp: header_ok_def Let_def split: if_splits)
  have "\<not> length rest < unat len" "\<not> ((tag = concatenated_sm_8bit_ref \<and> length ?v \<noteq> 3) \<or>
      (tag = concatenated_sm_16bit_ref \<and> length ?v \<noteq> 4))"
    using len ok by (auto simp: header_ok_def)
  then obtain hs' rest' where "hs = (acc @ [(tag, ?v)]) @ hs'" "list_all header_ok hs'"
    "drop (unat len) rest = concat (map header_bytes hs') @ rest'" "length rest' < 2"
    using 1(1) [OF _ refl _ rec] by blast
  moreover have "header_bytes (tag, ?v) = tag # len # ?v"
    using len by (simp add: header_bytes_def min_absorb2)
  then have "tag # len # rest = header_bytes (tag, ?v) @ drop (unat len) rest" by simp
  ultimately have "hs = acc @ (tag, ?v) # hs' \<and> list_all header_ok ((tag, ?v) # hs') \<and>
      tag # len # rest = concat (map header_bytes ((tag, ?v) # hs')) @ rest' \<and> length rest' < 2"
    using ok by simp
  then show ?case by blast
qed auto

lemma udh_construct_canonical:
  assumes "user_data_header_construct buf = Inr this"
  shows "udh_ok this \<and> (\<exists>rest. buf = user_data_header_serialize this @ rest \<and> length rest < 2)"
proof -
  obtain hs where "udh_read [] buf = Inr hs" "this = \<lparr>headers = hs\<rparr>"
    using assms by (auto simp: user_data_header_construct_def split: sum.splits)
  then show ?thesis
    using udh_read_canonical [of "[]" buf hs] by (auto simp: udh_ok_def serialize_headers)
qed

subsection \<open>Multi-part data\<close>

text \<open>A signed \<open>char\<close> from 0x80 on converts to \<open>uint16_t\<close> with its upper octet set.\<close>

lemma char_to_u16_unsigned [simp]: "char_to_u16 False c = ucast c"
  by (simp add: char_to_u16_def)

lemma char_to_u16_signed:
  "char_to_u16 True c = (if c < 0x80 then ucast c else be_u16 0xFF c)"
  by (rule all_octets [where P = "\<lambda>c. char_to_u16 True c = (if c < 0x80 then ucast c else be_u16 0xFF c)"])
    code_simp

lemma push_char_to_u16: "push_bit 8 (char_to_u16 signed_char c) = push_bit 8 (ucast c)"
proof (cases signed_char)
  case True
  have "push_bit 8 (char_to_u16 True c) = push_bit 8 (ucast c)"
    by (rule all_octets [where P = "\<lambda>c. push_bit 8 (char_to_u16 True c) = push_bit 8 (ucast c)"]) code_simp
  then show ?thesis using True by simp
qed simp

lemma be_u16_word: "be_u16 (byte_of 1 w) (byte_of 0 w) = w"
  by (rule be_u16_bytes)

lemma octet_or_FF [simp]: "b OR 0xFF = (0xFF :: octet)"
  by (rule bit_word_eqI) (auto simp: word_FF_eq_mask bit_simps simp del: mask_numeral)

lemma be_u16_inject: "be_u16 a b = be_u16 c d \<longleftrightarrow> a = c \<and> b = d"
proof
  assume "be_u16 a b = be_u16 c d"
  from arg_cong [OF this, of "byte_of 1"] arg_cong [OF this, of "byte_of 0"]
  show "a = c \<and> b = d" by simp
qed simp

lemma or_be_u16: "push_bit 8 (ucast hi) OR be_u16 x lo = be_u16 (hi OR x) lo"
  by (rule bit_word_eqI) (auto simp: be_u16_def bit_simps)

lemma signed_low_octet:
  "push_bit 8 (ucast hi) OR char_to_u16 True lo = be_u16 hi lo \<longleftrightarrow> lo < 0x80 \<or> hi = 0xFF"
proof (cases "lo < 0x80")
  case True
  then show ?thesis by (simp add: char_to_u16_signed be_u16_def)
next
  case False
  then have "push_bit 8 (ucast hi) OR char_to_u16 True lo = be_u16 0xFF lo"
    by (simp add: char_to_u16_signed or_be_u16)
  then show ?thesis using False by (auto simp: be_u16_inject)
qed

lemma signed_single_octet: "char_to_u16 True c = ucast c \<longleftrightarrow> c < 0x80"
proof (cases "c < 0x80")
  case False
  then have "char_to_u16 True c = be_u16 0xFF c" by (simp add: char_to_u16_signed)
  moreover have "ucast c = be_u16 0 c" by (simp add: be_u16_def)
  ultimately show ?thesis using False by (simp add: be_u16_inject)
qed (simp add: char_to_u16_signed)

text \<open>When the reference number of a part survives the way out and back.\<close>

definition ref_num_survives :: "bool \<Rightarrow> u16 \<Rightarrow> bool" where
  "ref_num_survives signed_char r \<longleftrightarrow>
     \<not> signed_char \<or> byte_of 0 r < 0x80 \<or> (r > 0xFF \<and> byte_of 1 r = 0xFF)"

lemma ucast_low_octet:
  assumes "r \<le> 0xFF"
  shows "ucast (byte_of 0 r) = (r :: u16)" "ucast r = byte_of 0 r"
proof -
  have "unat r \<le> 255" using assms by (simp add: word_le_nat_alt)
  then have "(ucast (ucast r :: octet) :: u16) = r"
    by (intro unsigned_word_eqI [where ?'a = nat])
      (simp only: unsigned_ucast_eq unsigned_take_bit_eq, simp add: take_bit_eq_mod)
  moreover show "ucast r = byte_of 0 r"
    by (rule bit_word_eqI) (auto simp: bit_byte_of bit_simps)
  ultimately show "ucast (byte_of 0 r) = r" by simp
qed

lemma get_set_multi_part_data:
  "get_multi_part_data signed_char (user_data_header_of_mpd mpd) = mpd \<longleftrightarrow>
     ref_num_survives signed_char (concat_sm_ref_num mpd)"
proof (cases mpd)
  case (fields r parts n)
  show ?thesis
  proof (cases "r > 0xFF")
    case True
    have "push_bit 8 (char_to_u16 signed_char (byte_of 1 r)) OR char_to_u16 signed_char (byte_of 0 r) = r \<longleftrightarrow>
        ref_num_survives signed_char r"
    proof (cases signed_char)
      case False
      then show ?thesis using be_u16_word [of r] by (simp add: be_u16_def ref_num_survives_def)
    next
      case s: True
      then show ?thesis
        using signed_low_octet [of "byte_of 1 r" "byte_of 0 r"] True
        by (simp add: be_u16_word push_char_to_u16 ref_num_survives_def del: One_nat_def)
    qed
    then show ?thesis using True
      by (simp add: fields get_multi_part_data_def user_data_header_of_mpd_def set_multi_part_data_def
          user_data_header_default_def concatenated_sm_8bit_ref_def concatenated_sm_16bit_ref_def)
  next
    case False
    then have "r \<le> 0xFF" by simp
    note u = ucast_low_octet [OF this]
    have "char_to_u16 signed_char (ucast r) = r \<longleftrightarrow> ref_num_survives signed_char r"
      using signed_single_octet [of "byte_of 0 r"] False
      by (cases signed_char) (simp_all add: ref_num_survives_def u)
    then show ?thesis using False
      by (simp add: fields get_multi_part_data_def user_data_header_of_mpd_def set_multi_part_data_def
          user_data_header_default_def concatenated_sm_8bit_ref_def)
  qed
qed

text \<open>\<open>set_multi_part_data\<close> appends: a part that is already there keeps counting.\<close>

lemma get_multi_part_data_first:
  assumes "concat_sm_ref_num mpd \<le> 0xFF"
  shows "get_multi_part_data signed_char (set_multi_part_data mpd' (user_data_header_of_mpd mpd)) =
         get_multi_part_data signed_char (user_data_header_of_mpd mpd)"
  using assms
  by (simp add: get_multi_part_data_def user_data_header_of_mpd_def set_multi_part_data_def
      user_data_header_default_def concatenated_sm_8bit_ref_def not_less)

lemma set_multi_part_data_ok: "udh_ok this \<Longrightarrow> udh_ok (set_multi_part_data mpd this)"
  by (simp add: udh_ok_def set_multi_part_data_def header_ok_def concatenated_sm_8bit_ref_def
      concatenated_sm_16bit_ref_def)

subsection \<open>Packing and unpacking are inverse\<close>

definition has_udh :: "esm_class \<Rightarrow> bool" where
  "has_udh e \<longleftrightarrow> gsm_network_features e \<in> {gsm_network_features_uhdi, gsm_network_features_both}"

definition packed :: "user_data_header \<Rightarrow> octets \<Rightarrow> octets" where
  "packed udh body =
     (let s = user_data_header_serialize udh
      in (if s = [] then [] else of_nat (length s) # s) @ body)"

definition max_length :: "data_coding \<Rightarrow> nat" where
  "max_length dc = (if extract_unicode dc = Ascii_8_bit then 160 else 140)"

lemma length_limit_None: "length_limit dc m = None \<longleftrightarrow> length m \<le> max_length dc"
  by (simp add: length_limit_def max_length_def)

lemma pack_short_message_iff:
  "pack_short_message udh body dc = Inr m \<longleftrightarrow> m = packed udh body \<and> length m \<le> max_length dc"
  by (auto simp: pack_short_message_def packed_def Let_def length_limit_None [symmetric]
      split: option.splits)

lemma serialize_empty_iff: "user_data_header_serialize udh = [] \<longleftrightarrow> headers udh = []"
  by (cases "headers udh") (auto simp: serialize_headers header_bytes_def)

lemma unpack_packed:
  assumes "udh_ok udh" "has_udh e \<longleftrightarrow> headers udh \<noteq> []" "length (packed udh body) \<le> max_length dc"
  shows "unpack_short_message e dc (packed udh body) = Inr (udh, body)"
proof (cases "headers udh = []")
  case True
  then show ?thesis
    using assms by (cases udh) (simp add: unpack_short_message_def length_limit_None [THEN iffD2] has_udh_def
        packed_def serialize_empty_iff [THEN iffD2] user_data_header_default_def)
next
  case False
  let ?s = "user_data_header_serialize udh"
  have p: "packed udh body = of_nat (length ?s) # ?s @ body"
    using False by (simp add: packed_def serialize_empty_iff Let_def)
  then have "length ?s < 256" using assms(3) by (simp add: max_length_def split: if_splits)
  then have u: "unat (of_nat (length ?s) :: octet) = length ?s" by (rule unat_of_nat_octet)
  have "user_data_header_construct ?s = Inr udh"
    using udh_construct_serialized [OF assms(1), of "[]"] by simp
  then show ?thesis
    using assms(2,3) False
    by (auto simp: unpack_short_message_def length_limit_None [THEN iffD2] has_udh_def p u Let_def)
qed

end
