(* ===== verification/Unicode_Converter.thy ===== *)
theory Unicode_Converter
  imports Smpp_Prelude
begin

text \<open>
  \<open>include/smpp/utility/unicode_converter.hpp\<close>: GSM 03.38 septets and ASCII to big-endian UCS-2. The
  two tables are the source's, entry by entry; \<open>gsm_loop\<close> is the loop of \<open>convert_gsm_to_ucs2\<close> with
  its two local variables, the output string and the flag that the escape septet sets.
\<close>

definition gsm_03_38_to_ucs2 :: "(octet \<times> octet) list" where
  "gsm_03_38_to_ucs2 = [
      (0x00, 0x40), (0x00, 0xA3), (0x00, 0x24), (0x00, 0xA5),
      (0x00, 0xE8), (0x00, 0xE9), (0x00, 0xF9), (0x00, 0xEC),
      (0x00, 0xF2), (0x00, 0xE7), (0x00, 0x0A), (0x00, 0xD8),
      (0x00, 0xF8), (0x00, 0x0D), (0x00, 0xC5), (0x00, 0xE5),
      (0x03, 0x94), (0x00, 0x5F), (0x03, 0xA6), (0x03, 0x93),
      (0x03, 0x9B), (0x03, 0xA9), (0x03, 0xA0), (0x03, 0xA8),
      (0x03, 0xA3), (0x03, 0x98), (0x03, 0x9E), (0x00, 0xA0),
      (0x00, 0xC6), (0x00, 0xE6), (0x00, 0xDF), (0x00, 0xC9),
      (0x00, 0x20), (0x00, 0x21), (0x00, 0x22), (0x00, 0x23),
      (0x00, 0xA4), (0x00, 0x25), (0x00, 0x26), (0x00, 0x27),
      (0x00, 0x28), (0x00, 0x29), (0x00, 0x2A), (0x00, 0x2B),
      (0x00, 0x2C), (0x00, 0x2D), (0x00, 0x2E), (0x00, 0x2F),
      (0x00, 0x30), (0x00, 0x31), (0x00, 0x32), (0x00, 0x33),
      (0x00, 0x34), (0x00, 0x35), (0x00, 0x36), (0x00, 0x37),
      (0x00, 0x38), (0x00, 0x39), (0x00, 0x3A), (0x00, 0x3B),
      (0x00, 0x3C), (0x00, 0x3D), (0x00, 0x3E), (0x00, 0x3F),
      (0x00, 0xA1), (0x00, 0x41), (0x00, 0x42), (0x00, 0x43),
      (0x00, 0x44), (0x00, 0x45), (0x00, 0x46), (0x00, 0x47),
      (0x00, 0x48), (0x00, 0x49), (0x00, 0x4A), (0x00, 0x4B),
      (0x00, 0x4C), (0x00, 0x4D), (0x00, 0x4E), (0x00, 0x4F),
      (0x00, 0x50), (0x00, 0x51), (0x00, 0x52), (0x00, 0x53),
      (0x00, 0x54), (0x00, 0x55), (0x00, 0x56), (0x00, 0x57),
      (0x00, 0x58), (0x00, 0x59), (0x00, 0x5A), (0x00, 0xC4),
      (0x00, 0xD6), (0x00, 0xD1), (0x00, 0xDC), (0x00, 0xA7),
      (0x00, 0xBF), (0x00, 0x61), (0x00, 0x62), (0x00, 0x63),
      (0x00, 0x64), (0x00, 0x65), (0x00, 0x66), (0x00, 0x67),
      (0x00, 0x68), (0x00, 0x69), (0x00, 0x6A), (0x00, 0x6B),
      (0x00, 0x6C), (0x00, 0x6D), (0x00, 0x6E), (0x00, 0x6F),
      (0x00, 0x70), (0x00, 0x71), (0x00, 0x72), (0x00, 0x73),
      (0x00, 0x74), (0x00, 0x75), (0x00, 0x76), (0x00, 0x77),
      (0x00, 0x78), (0x00, 0x79), (0x00, 0x7A), (0x00, 0xE4),
      (0x00, 0xF6), (0x00, 0xF1), (0x00, 0xFC), (0x00, 0xE0)]"

definition extended_gsm_03_38_to_ucs2 :: "(octet \<times> octet) list" where
  "extended_gsm_03_38_to_ucs2 = [
      (0x00, 0x20), (0x00, 0x20), (0x00, 0x20), (0x00, 0x20),
      (0x00, 0x20), (0x00, 0x20), (0x00, 0x20), (0x00, 0x20),
      (0x00, 0x20), (0x00, 0x20), (0x00, 0x0C), (0x00, 0x20),
      (0x00, 0x20), (0x00, 0x20), (0x00, 0x20), (0x00, 0x20),
      (0x00, 0x20), (0x00, 0x20), (0x00, 0x20), (0x00, 0x20),
      (0x00, 0x5E), (0x00, 0x20), (0x00, 0x20), (0x00, 0x20),
      (0x00, 0x20), (0x00, 0x20), (0x00, 0x20), (0x00, 0x20),
      (0x00, 0x20), (0x00, 0x20), (0x00, 0x20), (0x00, 0x20),
      (0x00, 0x20), (0x00, 0x20), (0x00, 0x20), (0x00, 0x20),
      (0x00, 0x20), (0x00, 0x20), (0x00, 0x20), (0x00, 0x20),
      (0x00, 0x7B), (0x00, 0x7D), (0x00, 0x20), (0x00, 0x20),
      (0x00, 0x20), (0x00, 0x20), (0x00, 0x20), (0x00, 0x5C),
      (0x00, 0x20), (0x00, 0x20), (0x00, 0x20), (0x00, 0x20),
      (0x00, 0x20), (0x00, 0x20), (0x00, 0x20), (0x00, 0x20),
      (0x00, 0x20), (0x00, 0x20), (0x00, 0x20), (0x00, 0x20),
      (0x00, 0x5B), (0x00, 0x7E), (0x00, 0x5D), (0x00, 0x20),
      (0x00, 0x7C), (0x00, 0x20), (0x00, 0x20), (0x00, 0x20),
      (0x00, 0x20), (0x00, 0x20), (0x00, 0x20), (0x00, 0x20),
      (0x00, 0x20), (0x00, 0x20), (0x00, 0x20), (0x00, 0x20),
      (0x00, 0x20), (0x00, 0x20), (0x00, 0x20), (0x00, 0x20),
      (0x00, 0x20), (0x00, 0x20), (0x00, 0x20), (0x00, 0x20),
      (0x00, 0x20), (0x00, 0x20), (0x00, 0x20), (0x00, 0x20),
      (0x00, 0x20), (0x00, 0x20), (0x00, 0x20), (0x00, 0x20),
      (0x00, 0x20), (0x00, 0x20), (0x00, 0x20), (0x00, 0x20),
      (0x00, 0x20), (0x00, 0x20), (0x00, 0x20), (0x00, 0x20),
      (0x00, 0x20), (0x20, 0xAC), (0x00, 0x20), (0x00, 0x20),
      (0x00, 0x20), (0x00, 0x20), (0x00, 0x20), (0x00, 0x20),
      (0x00, 0x20), (0x00, 0x20), (0x00, 0x20), (0x00, 0x20),
      (0x00, 0x20), (0x00, 0x20), (0x00, 0x20), (0x00, 0x20),
      (0x00, 0x20), (0x00, 0x20), (0x00, 0x20), (0x00, 0x20),
      (0x00, 0x20), (0x00, 0x20), (0x00, 0x20), (0x00, 0x20),
      (0x00, 0x20), (0x00, 0x20), (0x00, 0x20), (0x00, 0x20)]"

definition gsm_word :: "bool \<Rightarrow> octet \<Rightarrow> octet \<times> octet" where
  "gsm_word extended septet =
     (if extended then extended_gsm_03_38_to_ucs2 ! unat septet
      else gsm_03_38_to_ucs2 ! unat septet)"

fun gsm_loop :: "bool \<Rightarrow> octets \<Rightarrow> octets \<Rightarrow> bool \<times> octets" where
  "gsm_loop extended ucs2 [] = (extended, ucs2)"
| "gsm_loop extended ucs2 (septet # body) =
     (if septet > 127 then gsm_loop extended ucs2 body
      else if \<not> extended \<and> septet = 0x1B then gsm_loop True ucs2 body
      else let (h, l) = gsm_word extended septet
           in gsm_loop False (ucs2 @ [h, l]) body)"

definition convert_gsm_to_ucs2 :: "octets \<Rightarrow> octets" where
  "convert_gsm_to_ucs2 body = snd (gsm_loop False [] body)"

fun convert_ascii_loop :: "octets \<Rightarrow> octets \<Rightarrow> octets" where
  "convert_ascii_loop ucs2 [] = ucs2"
| "convert_ascii_loop ucs2 (ch # body) = convert_ascii_loop (ucs2 @ [0x00, ch]) body"

definition convert_ascii_to_ucs2 :: "octets \<Rightarrow> octets" where
  "convert_ascii_to_ucs2 body = convert_ascii_loop [] body"

subsection \<open>The loops as functions of their input alone\<close>

lemma gsm_tables_length: "length gsm_03_38_to_ucs2 = 128" "length extended_gsm_03_38_to_ucs2 = 128"
  by (simp_all add: gsm_03_38_to_ucs2_def extended_gsm_03_38_to_ucs2_def)

lemma gsm_loop_acc:
  "gsm_loop extended ucs2 body =
     (fst (gsm_loop extended [] body), ucs2 @ snd (gsm_loop extended [] body))"
proof (induction body arbitrary: extended ucs2)
  case (Cons septet body)
  obtain h l where hl: "gsm_word extended septet = (h, l)" by fastforce
  then show ?case
    using Cons.IH [of False "ucs2 @ [h, l]"] Cons.IH [of False "[h, l]"] Cons.IH [of extended ucs2]
      Cons.IH [of True ucs2]
    by (cases extended) simp_all
qed simp

lemma gsm_loop_append:
  "gsm_loop extended ucs2 (a @ b) =
     (let (extended, ucs2) = gsm_loop extended ucs2 a in gsm_loop extended ucs2 b)"
proof (induction a arbitrary: extended ucs2)
  case (Cons septet a)
  obtain h l where hl: "gsm_word extended septet = (h, l)" by fastforce
  then show ?case using Cons by (cases extended) simp_all
qed simp

text \<open>Converting a text piece by piece: only an escape at the very end of a piece reaches into the next.\<close>

lemma convert_gsm_append:
  "\<not> fst (gsm_loop False [] a) \<Longrightarrow>
     convert_gsm_to_ucs2 (a @ b) = convert_gsm_to_ucs2 a @ convert_gsm_to_ucs2 b"
  using gsm_loop_acc [of False "snd (gsm_loop False [] a)" b]
  by (simp add: convert_gsm_to_ucs2_def gsm_loop_append case_prod_unfold)

lemma gsm_loop_even: "even (length (snd (gsm_loop extended ucs2 body))) = even (length ucs2)"
proof (induction body arbitrary: extended ucs2)
  case (Cons septet body)
  obtain h l where hl: "gsm_word extended septet = (h, l)" by fastforce
  then show ?case using Cons by (cases extended) simp_all
qed simp

lemma gsm_loop_length:
  "length (snd (gsm_loop extended ucs2 body)) \<le> length ucs2 + 2 * length (filter (\<lambda>c. c \<le> 127) body)"
proof (induction body arbitrary: extended ucs2)
  case (Cons septet body)
  obtain h l where hl: "gsm_word extended septet = (h, l)" by fastforce
  have "septet > 127 \<longleftrightarrow> \<not> septet \<le> 127" by (rule not_le [symmetric])
  then show ?case
    using hl Cons.IH [of False "ucs2 @ [h, l]"] Cons.IH [of extended ucs2] Cons.IH [of True ucs2]
    by (cases extended) simp_all
qed simp

lemma convert_ascii_loop: "convert_ascii_loop ucs2 body = ucs2 @ concat (map (\<lambda>ch. [0, ch]) body)"
  by (induction body arbitrary: ucs2) simp_all

lemma convert_ascii: "convert_ascii_to_ucs2 body = concat (map (\<lambda>ch. [0, ch]) body)"
  by (simp add: convert_ascii_to_ucs2_def convert_ascii_loop)

lemma convert_ascii_length: "length (convert_ascii_to_ucs2 body) = 2 * length body"
  by (induction body) (simp_all add: convert_ascii)

lemma convert_ascii_nth:
  "i < length body \<Longrightarrow>
     convert_ascii_to_ucs2 body ! (2 * i) = 0 \<and> convert_ascii_to_ucs2 body ! Suc (2 * i) = body ! i"
  unfolding convert_ascii by (induction body arbitrary: i) (auto simp: nth_Cons split: nat.split)

text \<open>The digits and the letters of the basic table are those of ASCII.\<close>

definition gsm_plain :: "octet \<Rightarrow> bool" where
  "gsm_plain c \<longleftrightarrow> (0x30 \<le> c \<and> c \<le> 0x39) \<or> (0x41 \<le> c \<and> c \<le> 0x5A) \<or> (0x61 \<le> c \<and> c \<le> 0x7A)"

lemma gsm_plain_table:
  "list_all (\<lambda>n. gsm_plain (of_nat n) \<longrightarrow> gsm_03_38_to_ucs2 ! n = (0, of_nat n)) [0..<128]"
  by code_simp

lemma gsm_plain_entry:
  assumes "gsm_plain c"
  shows "gsm_03_38_to_ucs2 ! unat c = (0, c)" "\<not> c > 127" "c \<noteq> 0x1B"
proof -
  have le: "c \<le> 0x7A" using assms by (auto simp: gsm_plain_def intro: order_trans)
  then have "unat c \<le> 122" by (simp add: word_le_nat_alt)
  then have "unat c \<in> set [0..<128]" by simp
  then have "gsm_plain (of_nat (unat c)) \<longrightarrow> gsm_03_38_to_ucs2 ! unat c = (0, of_nat (unat c))"
    using gsm_plain_table unfolding list_all_iff by blast
  then show "gsm_03_38_to_ucs2 ! unat c = (0, c)" using assms by simp
  show "\<not> c > 127" using \<open>unat c \<le> 122\<close> by (simp add: word_less_nat_alt)
  show "c \<noteq> 0x1B" using assms by (auto simp: gsm_plain_def)
qed

lemma gsm_loop_plain:
  "list_all gsm_plain body \<Longrightarrow>
     gsm_loop False ucs2 body = (False, ucs2 @ concat (map (\<lambda>c. [0, c]) body))"
  by (induction body arbitrary: ucs2) (simp_all add: gsm_word_def gsm_plain_entry)

end
