(* ===== verification/Receive_Position.thy ===== *)
theory Receive_Position
  imports Receive_Safety
begin

text \<open>
  The receiver as a reader of frames. While the octets that reach it are those of a list of whole
  frames, its buffer always begins at a frame boundary: after \<open>k\<close> frames, what is buffered and what is
  still to come are the frames from the \<open>k\<close>-th on. \<open>advances\<close> says what one run of the coroutine
  between two suspensions may do: move to a later boundary, having delivered and answered exactly the
  frames in between. It holds after every event, in any order: reads of any size, errors, time-outs,
  cancellations; and on such a stream the coroutine always suspends or completes, without undefined
  behaviour.
\<close>

definition whole_frame :: "octets \<Rightarrow> bool" where
  "whole_frame w \<longleftrightarrow> good_frame (length w) w"

fun delivery :: "receive_action \<Rightarrow> (pdu_variant \<times> u32 \<times> command_status) list" where
  "delivery (Complete No_error pdu n st) = [(pdu, n, st)]"
| "delivery _ = []"

fun answered :: "receive_action \<Rightarrow> u32 list" where
  "answered (Send_cmd cid n) = (if cid = command_id_enquire_link_resp then [n] else [])"
| "answered _ = []"

definition session_command :: "command_id \<Rightarrow> bool" where
  "session_command cid \<longleftrightarrow>
     cid \<in> {command_id_enquire_link, command_id_enquire_link_resp, command_id_unbind, command_id_unbind_resp}"

definition frame_delivery :: "octets \<Rightarrow> (pdu_variant \<times> u32 \<times> command_status) list" where
  "frame_delivery w =
     (case frame_header w of (_, cid, st, n) \<Rightarrow>
        if session_command cid then [] else [(decode_pdu cid w, n, st)])"

definition frame_answer :: "octets \<Rightarrow> u32 list" where
  "frame_answer w =
     (case frame_header w of (_, cid, _, n) \<Rightarrow> if cid = command_id_enquire_link then [n] else [])"

definition deliveries :: "nat \<Rightarrow> octets list \<Rightarrow> (pdu_variant \<times> u32 \<times> command_status) list" where
  "deliveries k ws = concat (map frame_delivery (take k ws))"

text \<open>An \<open>enquire_link\<close> is answered before it is consumed.\<close>

definition answers :: "receive_pc \<Rightarrow> nat \<Rightarrow> octets list \<Rightarrow> u32 list" where
  "answers pc k ws =
     concat (map frame_answer (take (if pc = Recv_answering_enquire then Suc k else k) ws))"

text \<open>The suspended coroutine remembers the header of the frame at the head of the buffer.\<close>

definition op_at :: "receive_pc \<Rightarrow> receive_op \<Rightarrow> octets \<Rightarrow> bool" where
  "op_at pc op data \<longleftrightarrow>
     (pc \<notin> {Recv_start, Recv_done} \<longrightarrow> \<not> needs_more op) \<and>
     (pc \<in> {Recv_answering_enquire, Recv_answering_unbind, Recv_posted} \<longrightarrow>
        complete_frame data \<and>
        frame_header data =
          (op_command_length op, op_command_id op, op_command_status op, op_sequence_number op)) \<and>
     (pc = Recv_answering_enquire \<longrightarrow> op_command_id op = command_id_enquire_link) \<and>
     (pc = Recv_answering_unbind \<longrightarrow> op_command_id op = command_id_unbind) \<and>
     (pc = Recv_posted \<longrightarrow> \<not> session_command (op_command_id op))"

definition at_frame :: "octets list \<Rightarrow> nat \<Rightarrow> session \<Rightarrow> octets \<Rightarrow> bool" where
  "at_frame ws k s rest \<longleftrightarrow> k \<le> length ws \<and> received s @ rest = concat (drop k ws)"

definition position :: "nat \<Rightarrow> octets list \<Rightarrow> octets \<Rightarrow> nat \<Rightarrow> receive_state \<Rightarrow> bool" where
  "position cap ws rest k st \<longleftrightarrow>
     (case st of (pc, op, s) \<Rightarrow>
        at_frame ws k s rest \<and> receive_inv cap s \<and> op_at pc op (received s) \<and>
        (pc = Recv_reading \<longrightarrow> reading cap s \<and> \<not> complete_frame (received s)))"

definition advances ::
    "nat \<Rightarrow> octets list \<Rightarrow> octets \<Rightarrow> (pdu_variant \<times> u32 \<times> command_status) list \<Rightarrow> u32 list \<Rightarrow>
     receive_result \<Rightarrow> bool" where
  "advances cap ws rest ds as r \<longleftrightarrow>
     (case r of (a, st) \<Rightarrow>
        (\<exists>k. position cap ws rest k st \<and> deliveries k ws = ds @ delivery a \<and>
             answers (fst st) k ws = as @ answered a) \<and>
        a \<noteq> Undefined_behaviour \<and> (\<forall>e. a \<noteq> Throws e))"

lemma deliveries_Suc:
  "k < length ws \<Longrightarrow> deliveries (Suc k) ws = deliveries k ws @ frame_delivery (ws ! k)"
  by (simp add: deliveries_def take_Suc_conv_app_nth)

lemma answers_Suc:
  "k < length ws \<Longrightarrow> pc \<noteq> Recv_answering_enquire \<Longrightarrow>
     answers pc (Suc k) ws = answers pc k ws @ frame_answer (ws ! k)"
  by (simp add: answers_def take_Suc_conv_app_nth)

lemma answers_idle:
  "pc \<noteq> Recv_answering_enquire \<Longrightarrow> answers pc k ws = answers Recv_done k ws"
  "answers Recv_answering_enquire k ws = answers Recv_done (Suc k) ws"
  by (simp_all add: answers_def)

subsection \<open>The frame at the head of the buffer\<close>

lemma head_frame:
  assumes "list_all whole_frame ws" "at_frame ws k s rest" "receive_inv cap s"
    and "complete_frame (received s)"
  shows "k < length ws" "frame_header (received s) = frame_header (ws ! k)"
    "unat (fst (frame_header (received s))) = length (ws ! k)"
    "take (length (ws ! k)) (received s) = ws ! k"
    "at_frame ws (Suc k) (consume (fst (frame_header (received s))) s) rest"
    "header_length \<le> length (ws ! k)"
proof -
  have k: "k \<le> length ws" and eq: "received s @ rest = concat (drop k ws)"
    using assms(2) by (simp_all add: at_frame_def)
  have "received s \<noteq> []" using assms(4) by (auto simp: complete_frame_def header_length_def)
  then have "drop k ws \<noteq> []" using eq by auto
  then show lt: "k < length ws" by simp
  let ?w = "ws ! k"
  have d: "drop k ws = ?w # drop (Suc k) ws" using lt by (simp add: Cons_nth_drop_Suc)
  have w: "good_frame (length ?w) ?w"
    using assms(1) lt by (simp add: list_all_length whole_frame_def)
  have eq: "received s @ rest = ?w @ concat (drop (Suc k) ws)" using eq d by simp
  have long: "length ?w \<le> length (received s)" using complete_frame_prefix [OF eq w] assms(4) by simp
  show h: "frame_header (received s) = frame_header ?w"
    using frame_header_prefix [OF eq] w assms(4) by (simp add: good_frame_def complete_frame_def)
  show u: "unat (fst (frame_header (received s))) = length ?w" using w h by (simp add: good_frame_def)
  show tk: "take (length ?w) (received s) = ?w"
    using arg_cong [OF eq, of "take (length ?w)"] long by simp
  show "header_length \<le> length ?w" using w by (simp add: good_frame_def)
  have "received s = ?w @ drop (length ?w) (received s)" using tk by (metis append_take_drop_id)
  then have "drop (length ?w) (received s) @ rest = concat (drop (Suc k) ws)"
    using eq by (metis append.assoc same_append_eq)
  then show "at_frame ws (Suc k) (consume (fst (frame_header (received s))) s) rest"
    using lt u consume_effect(2) [OF assms(3)] by (simp add: at_frame_def)
qed

subsection \<open>The loop\<close>

lemma advancesI:
  assumes "position cap ws rest k (pc, op, s)" "deliveries k ws = ds @ delivery a"
    "answers pc k ws = as @ answered a" "a \<noteq> Undefined_behaviour" "\<forall>e. a \<noteq> Throws e"
  shows "advances cap ws rest ds as (a, pc, op, s)"
  using assms by (auto simp: advances_def)

text \<open>Completing with an error, at any boundary.\<close>

lemma complete_with_advances:
  assumes "at_frame ws k s rest" "receive_inv cap s" "ec \<noteq> No_error"
  shows "advances cap ws rest (deliveries k ws) (answers Recv_done k ws) (complete_with ec op s)"
  unfolding complete_with_def
  by (rule advancesI [of _ _ _ k]) (use assms in \<open>simp_all add: position_def op_at_def, cases ec, simp_all\<close>)

lemma start_read_advances:
  assumes "at_frame ws k s rest" "receive_inv cap s" "\<not> complete_frame (received s)"
  shows "advances cap ws rest (deliveries k ws) (answers Recv_done k ws) (start_read op s)"
proof -
  obtain off s' where s': "start_read op s = (Read_some off (cap - length (received s)), Recv_reading,
      op\<lparr>needs_more := False, needs_post := False\<rparr>, s')"
    "receive_inv cap s'" "received s' = received s" "fb_out (receive_buf s') = off"
    "fb_last (receive_buf s') = off + (cap - length (received s))"
    using start_read_effect [OF assms(2), of op] by blast
  let ?op = "op\<lparr>needs_more := False, needs_post := False\<rparr>"
  have "at_frame ws k s' rest" using assms(1) by (simp add: at_frame_def s'(3))
  moreover have "op_at Recv_reading ?op (received s')" by (simp add: op_at_def)
  moreover have "reading cap s'" using s'(2,4,5) by (simp add: reading_def s'(3))
  moreover have "\<not> complete_frame (received s')" using assms(3) by (simp add: s'(3))
  ultimately have "position cap ws rest k (Recv_reading, ?op, s')"
    using s'(2) by (simp add: position_def)
  then show ?thesis unfolding s'(1)
    by (rule advancesI) (simp_all add: answers_idle(1) [of Recv_reading])
qed

lemma at_frame_shutdown [simp]: "at_frame ws k (shutdown_socket s) rest = at_frame ws k s rest"
  by (simp add: at_frame_def)

lemma finish_unbind_advances:
  assumes ws: "list_all whole_frame ws" and at: "at_frame ws k s rest" and inv: "receive_inv cap s"
    and c: "complete_frame (received s)" and op: "op_command_length op = fst (frame_header (received s))"
    and cid: "fst (snd (frame_header (received s))) \<in> {command_id_unbind, command_id_unbind_resp}"
  shows "advances cap ws rest (deliveries k ws) (answers Recv_done k ws) (finish_unbind op s)"
proof -
  note h = head_frame [OF ws at inv c]
  let ?s = "shutdown_socket s"
  have "at_frame ws (Suc k) (consume (fst (frame_header (received ?s))) ?s) rest"
    by (rule head_frame(5) [OF ws]) (use at inv c in simp_all)
  then have "advances cap ws rest (deliveries (Suc k) ws) (answers Recv_done (Suc k) ws) (finish_unbind op s)"
    unfolding finish_unbind_def op
    by (intro complete_with_advances) (use inv in \<open>simp_all add: consume_effect make_error_code_def\<close>)
  moreover have "frame_delivery (ws ! k) = []" "frame_answer (ws ! k) = []"
    using cid h(2) by (auto simp: frame_delivery_def frame_answer_def session_command_def
        session_commands_distinct [symmetric] split: prod.splits)
  ultimately show ?thesis using h(1) by (simp add: deliveries_Suc answers_Suc)
qed

lemma deliver_pdu_advances:
  assumes ws: "list_all whole_frame ws" and at: "at_frame ws k s rest" and inv: "receive_inv cap s"
    and c: "complete_frame (received s)"
    and op: "frame_header (received s) =
      (op_command_length op, op_command_id op, op_command_status op, op_sequence_number op)"
    and cid: "\<not> session_command (op_command_id op)"
  shows "advances cap ws rest (deliveries k ws) (answers Recv_done k ws) (deliver_pdu op s)"
proof -
  note h = head_frame [OF ws at inv c, unfolded op fst_conv]
  have "take (unat (op_command_length op)) (fb_data (receive_buf s)) = ws ! k"
    using h(3,4) by (simp add: received_def)
  then have d: "deliver_pdu op s = (Complete No_error (decode_pdu (op_command_id op) (ws ! k))
      (op_sequence_number op) (op_command_status op), Recv_done, op, consume (op_command_length op) s)"
    using h(3,6) by (simp add: deliver_pdu_def Let_def)
  have f: "frame_delivery (ws ! k) = [(decode_pdu (op_command_id op) (ws ! k), op_sequence_number op, op_command_status op)]"
    "frame_answer (ws ! k) = []"
    using h(2) cid by (auto simp: frame_delivery_def frame_answer_def session_command_def split: prod.splits)
  show ?thesis unfolding d
    by (rule advancesI [of _ _ _ "Suc k"])
      (use h f inv in \<open>simp_all add: position_def op_at_def consume_effect deliveries_Suc answers_Suc\<close>)
qed

lemma receive_loop_advances:
  assumes ws: "list_all whole_frame ws"
  shows "at_frame ws k s rest \<Longrightarrow> receive_inv cap s \<Longrightarrow> \<not> needs_more op \<Longrightarrow>
    \<exists>r. receive_loop op s = Some r \<and> advances cap ws rest (deliveries k ws) (answers Recv_done k ws) r"
proof (induction "length ws - k" arbitrary: k op s rule: less_induct)
  case less
  note at = less.prems(1) and inv = less.prems(2) and op = less.prems(3)
  show ?case
  proof (cases "complete_frame (received s)")
    case False
    then show ?thesis
      using receive_loop_incomplete [OF inv op False] start_read_advances [OF at inv False] by metis
  next
    case True
    obtain len cid st n where h: "frame_header (received s) = (len, cid, st, n)" by (metis prod_cases4)
    note hf = head_frame [OF ws at inv True, unfolded h fst_conv]
    let ?op = "with_header (received s) op"
    note loop = receive_loop_complete [OF inv op True h, unfolded Let_def]
    have stop: "advances cap ws rest (deliveries k ws) (answers Recv_done k ws) (a, pc, ?op, s)"
      if "pc \<noteq> Recv_reading" "op_at pc ?op (received s)" "delivery a = []"
        "answers pc k ws = answers Recv_done k ws @ answered a" "a \<noteq> Undefined_behaviour" "\<forall>e. a \<noteq> Throws e"
      for a pc
      by (rule advancesI [of _ _ _ k]) (use that at inv in \<open>simp_all add: position_def\<close>)
    consider "cid = command_id_enquire_link" | "cid = command_id_enquire_link_resp" | "cid = command_id_unbind"
      | "cid = command_id_unbind_resp" | "\<not> session_command cid"
      by (auto simp: session_command_def)
    then show ?thesis
    proof cases
      case 1
      have "answers Recv_answering_enquire k ws = answers Recv_done k ws @ [n]"
        using hf(1) 1 by (simp add: answers_idle(2) answers_Suc frame_answer_def hf(2) [symmetric])
      then show ?thesis using loop 1 h op True by (simp add: stop op_at_def)
    next
      case 2
      have "frame_delivery (ws ! k) = []" "frame_answer (ws ! k) = []"
        using 2 by (simp_all add: frame_delivery_def frame_answer_def session_command_def hf(2) [symmetric])
      then have "deliveries (Suc k) ws = deliveries k ws" "answers Recv_done (Suc k) ws = answers Recv_done k ws"
        using hf(1) by (simp_all add: deliveries_Suc answers_Suc)
      moreover have "receive_loop op s = receive_loop ?op (consume len s)" using loop 2 by simp
      moreover have "\<exists>r. receive_loop ?op (consume len s) = Some r \<and>
          advances cap ws rest (deliveries (Suc k) ws) (answers Recv_done (Suc k) ws) r"
        by (rule less.hyps) (use hf(1,5) op consume_effect(1) [OF inv] in simp_all)
      ultimately show ?thesis by (simp only:)
    next
      case 3
      have "answers Recv_answering_unbind k ws = answers Recv_done k ws" by (rule answers_idle) simp
      then show ?thesis using loop 3 h op True by (simp add: stop op_at_def)
    next
      case 4
      then show ?thesis
        using loop h finish_unbind_advances [OF ws at inv True, of ?op] by simp
    next
      case 5
      have "answers Recv_posted k ws = answers Recv_done k ws" by (rule answers_idle) simp
      then have p: "advances cap ws rest (deliveries k ws) (answers Recv_done k ws) (Post, Recv_posted, ?op, s)"
        using 5 h op True by (intro stop) (simp_all add: op_at_def)
      have "advances cap ws rest (deliveries k ws) (answers Recv_done k ws) (deliver_pdu ?op s)"
        by (rule deliver_pdu_advances [OF ws at inv True]) (use h 5 in simp_all)
      then show ?thesis using loop 5 p by (auto simp: session_command_def simp del: split_paired_Ex)
    qed
  qed
qed

subsection \<open>Every event\<close>

text \<open>The event that answers what the coroutine waits for.\<close>

fun expects :: "receive_pc \<Rightarrow> receive_event \<Rightarrow> bool" where
  "expects Recv_reading (Read_done _ _ _) = True"
| "expects pc (Sent _) \<longleftrightarrow>
     pc \<in> {Recv_unbinding, Recv_enquiring, Recv_answering_enquire, Recv_answering_unbind}"
| "expects Recv_posted Posted = True"
| "expects _ _ = False"

lemma resume_expected:
  assumes "resume e (pc, op, s) = Some r"
  shows "expects pc e"
  using assms by (rule resume_elims) auto

text \<open>Storing octets moves them from what is to come into the buffer.\<close>

lemma at_frame_store:
  assumes "at_frame ws k s (bytes @ rest)" "receive_inv cap s"
    and "length bytes \<le> fb_last (receive_buf s) - fb_out (receive_buf s)"
  shows "at_frame ws k (store_received bytes s) rest"
  using assms(1) store_received_effect(2) [OF assms(2,3)] by (simp add: at_frame_def)

lemma resume_read_advances:
  assumes ws: "list_all whole_frame ws" and pos: "position cap ws (bytes @ rest) k (Recv_reading, op, s)"
    and fit: "length bytes \<le> fb_last (receive_buf s) - fb_out (receive_buf s)"
  shows "\<exists>r. resume_read bytes ec by_client op s = Some r \<and>
           advances cap ws rest (deliveries k ws) (answers Recv_done k ws) r"
proof -
  have inv: "receive_inv cap s" and op: "\<not> needs_more op"
    using pos by (simp_all add: position_def op_at_def)
  let ?s = "store_received bytes s"
  have at: "at_frame ws k ?s rest"
    using pos by (intro at_frame_store [OF _ inv fit]) (simp add: position_def)
  note inv' = store_received_effect(1) [OF inv fit]
  let ?op = "if bytes = [] then op else op\<lparr>pending_enquire_link := False\<rparr>"
  have op1: "\<not> needs_more ?op" using op by simp
  obtain n s1 where n: "next_sequence_number ?s = (n, s1)" by fastforce
  note r = resume_read_eq [of bytes ec by_client op s, unfolded Let_def n prod.case]
  have at1: "at_frame ws k s1 rest" "receive_inv cap s1"
    using at inv' next_sequence_number_keeps(1,2) [OF n] by (simp_all add: at_frame_def)
  have send: "advances cap ws rest (deliveries k ws) (answers Recv_done k ws) (Send_cmd cid n, pc, op2, s1)"
    if "pc \<in> {Recv_unbinding, Recv_enquiring}" "cid \<noteq> command_id_enquire_link_resp" "\<not> needs_more op2"
    for cid pc op2
  proof (rule advancesI)
    show "answers pc k ws = answers Recv_done k ws @ answered (Send_cmd cid n)"
      using that answers_idle(1) [of pc] by auto
    show "position cap ws rest k (pc, op2, s1)"
      using that at1 by (auto simp: position_def op_at_def)
  qed simp_all
  show ?thesis
  proof (cases "ec = Operation_aborted \<and> \<not> by_client")
    case True
    then show ?thesis using r op1 send [of Recv_unbinding command_id_unbind ?op]
        send [of Recv_enquiring command_id_enquire_link "?op\<lparr>pending_enquire_link := True\<rparr>"]
      by (simp add: session_commands_distinct [symmetric] del: split_paired_Ex)
  next
    case False
    show ?thesis
    proof (cases "failed ec")
      case True
      then have "ec \<noteq> No_error" by auto
      from complete_with_advances [OF at inv' this] show ?thesis using r False True by (simp del: split_paired_Ex)
    next
      case ok: False
      then show ?thesis using r False receive_loop_advances [OF ws at inv' op1] by simp
    qed
  qed
qed

lemma consumed_position:
  assumes ws: "list_all whole_frame ws" and at: "at_frame ws k s rest" and inv: "receive_inv cap s"
    and c: "complete_frame (received s)" and h: "frame_header (received s) = (len, cid, st, n)"
    and cid: "session_command cid"
  shows "at_frame ws (Suc k) (consume len s) rest" "receive_inv cap (consume len s)"
    "deliveries (Suc k) ws = deliveries k ws"
proof -
  note hf = head_frame [OF ws at inv c, unfolded h fst_conv]
  show "at_frame ws (Suc k) (consume len s) rest" by (rule hf(5))
  show "receive_inv cap (consume len s)" by (rule consume_effect [OF inv])
  have "frame_delivery (ws ! k) = []" by (simp add: frame_delivery_def hf(2) [symmetric] cid)
  then show "deliveries (Suc k) ws = deliveries k ws" using hf(1) by (simp add: deliveries_Suc)
qed

lemma resume_advances:
  assumes ws: "list_all whole_frame ws" and pos: "position cap ws (arrived e @ rest) k (pc, op, s)"
    and ev: "expects pc e" "event_ok e (pc, op, s)"
  shows "\<exists>r. resume e (pc, op, s) = Some r \<and>
           advances cap ws rest (deliveries k ws) (answers pc k ws) r"
proof -
  have at: "at_frame ws k s (arrived e @ rest)" and inv: "receive_inv cap s" and op: "op_at pc op (received s)"
    using pos by (simp_all add: position_def)
  have i: "answers pc k ws = answers Recv_done k ws" if "pc \<noteq> Recv_answering_enquire"
    by (rule answers_idle(1) [OF that])
  have errs: "advances cap ws rest (deliveries k ws) (answers pc k ws) (complete_with ec op' s')"
    if "ec \<noteq> No_error" "pc \<noteq> Recv_answering_enquire" "at_frame ws k s' rest" "receive_inv cap s'" for ec op' s'
    unfolding i [OF that(2)] by (rule complete_with_advances [OF that(3,4,1)])
  show ?thesis
  proof (cases "(pc, e)" rule: expects.cases)
    case (1 bytes ec by_client)
    then show ?thesis
      using resume_read_advances [OF ws, of cap bytes rest k op s ec by_client] pos ev(2) i by simp
  next
    case (2 pc' ec)
    then have at: "at_frame ws k s rest" using at by simp
    consider "pc = Recv_unbinding" | "pc = Recv_enquiring" | "pc = Recv_answering_enquire"
      | "pc = Recv_answering_unbind" using ev(1) 2 by auto
    then show ?thesis
    proof cases
      case unb: 1
      then show ?thesis using 2 errs [of "make_error_code error_enquire_link_timeout" "shutdown_socket s" op] at inv
        by (simp add: resume_unbinding_def make_error_code_def del: split_paired_Ex)
    next
      case enq: 2
      show ?thesis
      proof (cases "failed ec")
        case True
        then show ?thesis using 2 enq errs [of ec s op] at inv
          by (cases ec) (simp_all add: resume_enquiring_def del: split_paired_Ex)
      next
        case False
        have "\<not> needs_more op" using op enq by (simp add: op_at_def)
        then show ?thesis
          using 2 enq False receive_loop_advances [OF ws at inv] i by (simp add: resume_enquiring_def)
      qed
    next
      case ans: 3
      have h: "complete_frame (received s)" "\<not> needs_more op"
        "frame_header (received s) = (op_command_length op, command_id_enquire_link, op_command_status op, op_sequence_number op)"
        using op ans by (simp_all add: op_at_def)
      note c = consumed_position [OF ws at inv h(1,3)]
      have "session_command command_id_enquire_link" by (simp add: session_command_def)
      note c = c [OF this]
      from receive_loop_advances [OF ws c(1,2) h(2)] show ?thesis
        using 2 ans c(3) by (simp add: resume_answering_enquire_def answers_idle(2))
    next
      case unb: 4
      have h: "complete_frame (received s)"
        "frame_header (received s) = (op_command_length op, command_id_unbind, op_command_status op, op_sequence_number op)"
        using op unb by (simp_all add: op_at_def)
      have "advances cap ws rest (deliveries k ws) (answers pc k ws) (finish_unbind op s)"
        using finish_unbind_advances [OF ws at inv h(1), of op] h(2) i unb by simp
      then show ?thesis
        using 2 unb errs [of ec s op] at inv
        by (cases ec) (simp_all add: resume_answering_unbind_def del: split_paired_Ex)
    qed
  next
    case 3
    then have h: "complete_frame (received s)" "\<not> session_command (op_command_id op)"
      "frame_header (received s) = (op_command_length op, op_command_id op, op_command_status op, op_sequence_number op)"
      using op by (simp_all add: op_at_def)
    have "advances cap ws rest (deliveries k ws) (answers pc k ws) (deliver_pdu op s)"
      using deliver_pdu_advances [OF ws _ inv h(1,3,2), of k rest] at i 3 by simp
    then show ?thesis using 3 by (simp add: resume_posted_def del: split_paired_Ex)
  qed (use ev in auto)
qed

end
