(* ===== verification/Endpoint.thy ===== *)
theory Endpoint
  imports Session_Transfer Receive_Position
begin

text \<open>
  A whole session: both halves over one \<open>session\<close> record. A receive operation that sends a session
  command (an answer, an enquiry, the unbind of a dead connection) does so through
  \<open>async_send_command\<close>, so that its frame queues for the send buffer like any other, and it is
  resumed when that operation completes. An \<open>endpoint\<close> is the sending half, the suspended receive
  operation and the operation it waits for, the completions the client has seen, and the socket's
  side: the octets it has taken so far, how many of them from the buffer now being written, the
  number of octets read, and whether a write has failed (after which the connection carries nothing
  more). The socket reads the octets out of \<open>send_buf\<close> at the time it takes them.

  \<open>endpoint_step\<close> has one rule for each way a session can move, in any interleaving.
\<close>

record endpoint =
  half :: send_system
  recv_pc :: receive_pc
  recv_op :: receive_op
  recv_send :: "nat option"
  outcomes :: "receive_action list"
  sent :: octets
  written :: nat
  taken :: nat
  broken :: bool

abbreviation endpoint_session :: "endpoint \<Rightarrow> session" where
  "endpoint_session e \<equiv> sess (half e)"

definition endpoint_init :: "session \<Rightarrow> endpoint" where
  "endpoint_init s =
     \<lparr>half = send_init s, recv_pc = Recv_start, recv_op = receive_op_new, recv_send = None,
      outcomes = [], sent = [], written = 0, taken = 0, broken = False\<rparr>"

subsection \<open>Steps\<close>

text \<open>A new frame in the buffer restarts the count of the octets written.\<close>

definition with_half :: "send_system \<Rightarrow> endpoint \<Rightarrow> endpoint" where
  "with_half sys e =
     e\<lparr>half := sys, written := (if wire sys = wire (half e) then written e else 0)\<rparr>"

text \<open>What the receive operation does next, carried out.\<close>

definition apply_result :: "receive_result \<Rightarrow> endpoint \<Rightarrow> endpoint" where
  "apply_result r e =
     (case r of (a, rpc, op, s) \<Rightarrow>
        let e = e\<lparr>half := (half e)\<lparr>sess := s\<rparr>, recv_pc := rpc, recv_op := op, recv_send := None\<rparr>
        in case a of
             Send_cmd cid n \<Rightarrow>
               (with_half (async_send_command cid n (half e)) e)\<lparr>recv_send := Some (length (ops (half e)))\<rparr>
           | Read_some _ _ \<Rightarrow> e
           | Post \<Rightarrow> e
           | _ \<Rightarrow> e\<lparr>outcomes := outcomes e @ [a]\<rparr>)"

text \<open>The public interface sends PDUs and unbinds; the other session commands are the receiver's.\<close>

fun client_label :: "send_label \<Rightarrow> bool" where
  "client_label (L_initiate (Send_command _ _)) = False"
| "client_label _ = True"

fun write_failed :: "send_label \<Rightarrow> bool" where
  "write_failed (L_written _ ec) = failed ec"
| "write_failed _ = False"

fun write_succeeded :: "send_label \<Rightarrow> bool" where
  "write_succeeded (L_written _ ec) = (\<not> failed ec)"
| "write_succeeded _ = False"

fun event_possible :: "receive_event \<Rightarrow> endpoint \<Rightarrow> bool" where
  "event_possible (Sent ec) e \<longleftrightarrow>
     (\<exists>i n. recv_send e = Some i \<and> i < length (ops (half e)) \<and> pc (ops (half e) ! i) = Completed ec n)"
| "event_possible ev e \<longleftrightarrow> event_ok ev (recv_pc e, recv_op e, endpoint_session e)"

datatype endpoint_label = E_send send_label | E_transfer nat | E_receive | E_event receive_event

inductive endpoint_step :: "endpoint \<Rightarrow> endpoint_label \<Rightarrow> endpoint \<Rightarrow> bool" where
  endpoint_send:
    "send_step (half e) l sys \<Longrightarrow> client_label l \<Longrightarrow>
     (write_succeeded l \<Longrightarrow> \<not> broken e \<and> written e = length (send_buf (endpoint_session e))) \<Longrightarrow>
     endpoint_step e (E_send l) ((with_half sys e)\<lparr>broken := broken e \<or> write_failed l\<rparr>)"
| endpoint_transfer:
    "writing (half e) i \<Longrightarrow> \<not> broken e \<Longrightarrow>
     bytes = take k (drop (written e) (send_buf (endpoint_session e))) \<Longrightarrow>
     endpoint_step e (E_transfer k) (e\<lparr>sent := sent e @ bytes, written := written e + length bytes\<rparr>)"
| endpoint_receive:
    "recv_pc e \<in> {Recv_start, Recv_done} \<Longrightarrow> async_receive (endpoint_session e) = Some r \<Longrightarrow>
     endpoint_step e E_receive (apply_result r e)"
| endpoint_event:
    "event_possible ev e \<Longrightarrow> resume ev (recv_pc e, recv_op e, endpoint_session e) = Some r \<Longrightarrow>
     endpoint_step e (E_event ev) (apply_result r (e\<lparr>taken := taken e + length (arrived ev)\<rparr>))"

inductive_cases endpoint_sendE: "endpoint_step e (E_send l) e'"
inductive_cases endpoint_eventE: "endpoint_step e (E_event ev) e'"

subsection \<open>What the sending half leaves alone\<close>

lemma build_frame_keeps:
  "build_frame r s = (x, s') \<Longrightarrow> receive_buf s' = receive_buf s \<and> socket_open s' = socket_open s"
  by (cases x) (auto dest: build_frame_throws build_frame_ok)

lemma requests_set_op:
  "(\<And>op. request (f op) = request op) \<Longrightarrow> map request (ops (set_op i f sys)) = map request (ops sys)"
  by (cases "i < length (ops sys)"; rule nth_equalityI) (simp_all add: set_op_def nth_list_update)

lemma cancel_one_keeps [simp]:
  "receive_buf (sess (cancel_one sys)) = receive_buf (sess sys)"
  "map request (ops (cancel_one sys)) = map request (ops sys)"
  by (simp_all add: cancel_one_def requests_set_op split: list.split)

lemma release_keeps [simp]:
  "receive_buf (sess (release_send_buf sys)) = receive_buf (sess sys)"
  "map request (ops (release_send_buf sys)) = map request (ops sys)"
  by (simp_all add: release_send_buf_def)

lemma complete_requests [simp]: "map request (ops (complete i ec n sys)) = map request (ops sys)"
  by (simp add: complete_def requests_set_op)

lemma try_send_keeps [simp]:
  "receive_buf (sess (try_send i sys)) = receive_buf (sess sys)"
  "map request (ops (try_send i sys)) = map request (ops sys)"
proof -
  obtain x s where bf: "build_frame (request (ops sys ! i)) (sess sys) = (x, s)" by fastforce
  show "receive_buf (sess (try_send i sys)) = receive_buf (sess sys)"
    "map request (ops (try_send i sys)) = map request (ops sys)"
    using bf build_frame_keeps [OF bf] by (cases x; simp add: try_send_def requests_set_op)+
qed

lemma initiate_keeps:
  "receive_buf (sess (initiate r sys)) = receive_buf (sess sys)"
  "map request (ops (initiate r sys)) = map request (ops sys) @ [r]"
  by (simp_all add: initiate_def)

lemma write_done_keeps [simp]:
  "receive_buf (sess (write_done i ec n sys)) = receive_buf (sess sys)"
  "map request (ops (write_done i ec n sys)) = map request (ops sys)"
  by (simp_all add: write_done_defs split: send_request.split)

lemma send_step_keeps:
  "send_step sys l sys' \<Longrightarrow>
     receive_buf (sess sys') = receive_buf (sess sys) \<and>
     (\<exists>new. map request (ops sys') = map request (ops sys) @ new \<and>
        (client_label l \<longrightarrow>
           (\<forall>cid n. Send_command cid n \<in> set new \<longrightarrow> cid = command_id_unbind)))"
proof (induction rule: send_step.induct)
  case (step_initiate r sys)
  then show ?case by (cases r) (simp_all add: initiate_keeps)
next
  case (step_unbind sys)
  obtain n s where n: "next_sequence_number (sess sys) = (n, s)" by fastforce
  show ?case using next_sequence_number_frame [OF n]
    by (simp add: async_send_unbind_def n initiate_keeps session_commands_distinct)
next
  case (step_cancel i sys)
  show ?case by (simp add: cancel_op_def requests_set_op)
qed (simp_all add: resume_wait_def)

subsection \<open>When the wire grows\<close>

text \<open>
  Apart from the completion of a write, the writers change only when a frame is appended to the wire:
  nobody was writing before, somebody is afterwards.
\<close>

definition wire_change :: "send_system \<Rightarrow> send_system \<Rightarrow> bool" where
  "wire_change sys sys' \<longleftrightarrow>
     (wire sys' = wire sys \<and> (\<forall>i. writing sys' i \<longleftrightarrow> writing sys i)) \<or>
     ((\<forall>i. \<not> writing sys i) \<and> (\<exists>i. writing sys' i) \<and> (\<exists>w. wire sys' = wire sys @ [w]))"

lemma wire_change_try_send:
  assumes inv: "send_inv sys" and i: "i < length (ops sys)" "\<not> writing sys i"
  shows "wire_change sys (try_send i sys)"
proof (cases "send_buf (sess sys) = []")
  case True
  then have idle: "\<not> writing sys j" for j using writing_send_buf [OF inv] by blast
  obtain x s where "build_frame (request (ops sys ! i)) (sess sys) = (x, s)" by fastforce
  then show ?thesis
    using True i idle by (cases x) (auto simp: wire_change_def try_send_def complete_def writing_set_op)
qed (use i in \<open>auto simp: wire_change_def try_send_def writing_set_op\<close>)

lemma wire_change_initiate:
  assumes inv: "send_inv sys"
  shows "wire_change sys (initiate r sys)"
proof -
  let ?sys = "sys\<lparr>ops := ops sys @ [\<lparr>request = r, cancelled = False, pc = Woken Operation_aborted\<rparr>]\<rparr>"
  have same: "writing ?sys j = writing sys j" "waiting ?sys j = waiting sys j" for j
    by (auto simp: writing_def waiting_def nth_append)
  have "send_inv ?sys" using inv unfolding send_inv_def same by simp
  then have "wire_change ?sys (initiate r sys)"
    unfolding initiate_def by (rule wire_change_try_send) (simp_all add: same, simp add: writing_def)
  then show ?thesis by (simp add: wire_change_def same)
qed

lemma wire_change_step:
  assumes "send_step sys l sys'" "send_inv sys" "\<not> write_succeeded l" "\<not> write_failed l"
  shows "wire_change sys sys'"
  using assms
proof (cases rule: send_step.cases)
  case (step_initiate r)
  then show ?thesis using wire_change_initiate assms(2) by simp
next
  case step_unbind
  obtain n s where n: "next_sequence_number (sess sys) = (n, s)" by fastforce
  have "send_inv (sys\<lparr>sess := s\<rparr>)"
    using send_invD [OF assms(2)] next_sequence_number_frame [OF n]
      next_sequence_number_inv(1) [OF _ n]
    by (simp add: send_inv_def)
  from wire_change_initiate [OF this] show ?thesis
    by (simp add: step_unbind async_send_unbind_def n wire_change_def)
next
  case (step_resume i ec)
  then have "\<not> writing sys i" by (simp add: writing_def)
  then show ?thesis
    using step_resume wire_change_try_send [OF assms(2) step_resume(3)]
    by (auto simp: resume_wait_def wire_change_def complete_def writing_set_op)
next
  case (step_cancel i)
  then show ?thesis
    by (auto simp: wire_change_def cancel_op_def writing_set_op) (auto simp: writing_def)
qed (use assms in auto)

end
