(* ===== verification/Endpoint_Invariant.thy ===== *)
theory Endpoint_Invariant
  imports Endpoint
begin

text \<open>
  What holds of a whole session in any interleaving of its two halves: the invariants of the sending
  half survive the receiver's own sends, and the octets the socket took, read out of the shared
  buffer piece by piece, are always the beginning of the frames put on the wire.
\<close>

subsection \<open>What the receiver leaves alone\<close>

definition send_side_kept :: "session \<Rightarrow> session \<Rightarrow> bool" where
  "send_side_kept s s' \<longleftrightarrow>
     send_buf s' = send_buf s \<and> send_cv s' = send_cv s \<and> (sequence_inv s \<longrightarrow> sequence_inv s')"

lemma send_side_kept_refl [simp]: "send_side_kept s s"
  by (simp add: send_side_kept_def)

lemma send_side_kept_trans:
  "send_side_kept s t \<Longrightarrow> send_side_kept t u \<Longrightarrow> send_side_kept s u"
  by (simp add: send_side_kept_def)

lemma send_side_kept_simps [simp]:
  "send_side_kept t (consume n s) = send_side_kept t s"
  "send_side_kept t (shutdown_socket s) = send_side_kept t s"
  "send_side_kept t (s\<lparr>receive_buf := b\<rparr>) = send_side_kept t s"
  by (simp_all add: send_side_kept_def consume_def shutdown_socket_def sequence_inv_def)

lemma send_side_kept_next:
  "next_sequence_number s = (n, s') \<Longrightarrow> send_side_kept s s'"
  using next_sequence_number_frame [of s n s'] next_sequence_number_inv(1) [of s n s']
  by (simp add: send_side_kept_def)

lemma start_read_send_side: "start_read op s = (a, rpc, op', s') \<Longrightarrow> send_side_kept s s'"
  by (auto simp: start_read_def Let_def split: prod.splits sum.splits)

lemma deliver_pdu_send_side: "deliver_pdu op s = (a, rpc, op', s') \<Longrightarrow> send_side_kept s s'"
  by (auto simp: deliver_pdu_def Let_def split: if_splits)

lemma finish_unbind_send_side: "finish_unbind op s = (a, rpc, op', s') \<Longrightarrow> send_side_kept s s'"
  by (auto simp: finish_unbind_def complete_with_def)

lemma receive_loop_send_side:
  "receive_loop op s = Some r \<Longrightarrow> send_side_kept s (snd (snd (snd r)))"
proof (induction rule: receive_loop.raw_induct [rotated 1, consumes 1])
  case (1 loop op s r)
  have again: "send_side_kept s (snd (snd (snd r)))" if "loop op' (consume n s) = Some r" for op' n
    using 1(1) [OF that] send_side_kept_trans [of s "consume n s"] by simp
  have rd: "send_side_kept s (snd (snd (snd (start_read op s))))"
    "send_side_kept s (snd (snd (snd (finish_unbind op s))))"
    "send_side_kept s (snd (snd (snd (deliver_pdu op s))))" for op
    by (metis prod.collapse start_read_send_side finish_unbind_send_side deliver_pdu_send_side)+
  show ?case
    using 1(2) 1(1) again rd by (auto simp: Let_def split: if_splits prod.splits)
qed

lemma resume_send_side:
  assumes "resume e (rpc, op, s) = Some r"
  shows "send_side_kept s (snd (snd (snd r)))"
  using assms
proof (rule resume_elims)
  fix bytes ec by_client op' s'
  assume e: "e = Read_done bytes ec by_client" "(rpc, op, s) = (Recv_reading, op', s')"
    "Some r = resume_read bytes ec by_client op' s'"
  have st: "send_side_kept s (store_received bytes s)" by (simp add: store_received_def)
  from e have "resume_read bytes ec by_client op s = Some r" by simp
  then show ?thesis
  proof (cases rule: resume_read_cases)
    case (command cid n s1 rpc' op1)
    then show ?thesis using send_side_kept_trans [OF st send_side_kept_next] by simp
  next
    case (error op1)
    then show ?thesis using st by (simp add: complete_with_def)
  next
    case (loop op1)
    then show ?thesis using send_side_kept_trans [OF st receive_loop_send_side] by blast
  qed
next
  fix ec op' s'
  assume "(rpc, op, s) = (Recv_answering_enquire, op', s')" "Some r = resume_answering_enquire ec op' s'"
  then show ?thesis
    using receive_loop_send_side send_side_kept_trans [of s "consume (op_command_length op) s"]
    by (metis (no_types) resume_answering_enquire_def Pair_inject send_side_kept_refl send_side_kept_simps(1))
qed (auto simp: resume_unbinding_def resume_enquiring_def resume_answering_unbind_def resume_posted_def
    complete_with_def finish_unbind_def deliver_pdu_def Let_def split: if_splits
    dest!: receive_loop_send_side [OF sym])

text \<open>It only sends session commands.\<close>

definition session_commands_only :: "receive_action \<Rightarrow> bool" where
  "session_commands_only a \<longleftrightarrow> (\<forall>cid n. a = Send_cmd cid n \<longrightarrow> session_command cid)"

lemma session_commands_only_simps [simp]:
  "session_commands_only (Send_cmd command_id_enquire_link n)"
  "session_commands_only (Send_cmd command_id_enquire_link_resp n)"
  "session_commands_only (Send_cmd command_id_unbind n)"
  "session_commands_only (Send_cmd command_id_unbind_resp n)"
  "session_commands_only Post" "session_commands_only (fst (complete_with ec op s))"
  "session_commands_only (fst (finish_unbind op s))" "session_commands_only (fst (deliver_pdu op s))"
  "session_commands_only (fst (start_read op s))"
  by (auto simp: session_commands_only_def session_command_def complete_with_def finish_unbind_def
      deliver_pdu_def start_read_def Let_def split: prod.splits sum.splits if_splits)

lemma receive_loop_commands: "receive_loop op s = Some r \<Longrightarrow> session_commands_only (fst r)"
proof (induction rule: receive_loop.raw_induct [rotated 1, consumes 1])
  case (1 loop op s r)
  show ?case using 1(2) 1(1) by (auto simp: Let_def split: if_splits prod.splits)
qed

lemma resume_commands:
  assumes "resume e (rpc, op, s) = Some r"
  shows "session_commands_only (fst r)"
  using assms
proof (rule resume_elims)
  fix bytes ec by_client op' s'
  assume "(rpc, op, s) = (Recv_reading, op', s')" "Some r = resume_read bytes ec by_client op' s'"
  then show ?thesis
    by (auto simp: resume_read_eq Let_def dest: receive_loop_commands [OF sym] split: if_splits prod.splits)
qed (auto simp: resume_unbinding_def resume_enquiring_def resume_answering_unbind_def resume_posted_def
    resume_answering_enquire_def split: if_splits dest: receive_loop_commands [OF sym])

subsection \<open>The octets on the socket\<close>

definition socket_inv :: "endpoint \<Rightarrow> bool" where
  "socket_inv e \<longleftrightarrow>
     (broken e \<longrightarrow> prefix (sent e) (concat (wire (half e)))) \<and>
     (\<not> broken e \<longrightarrow>
        (\<forall>i. writing (half e) i \<longrightarrow>
           written e \<le> length (send_buf (endpoint_session e)) \<and>
           sent e = concat (butlast (wire (half e))) @ take (written e) (send_buf (endpoint_session e))) \<and>
        ((\<forall>i. \<not> writing (half e) i) \<longrightarrow> sent e = concat (wire (half e))))"

fun command_kept :: "send_request \<Rightarrow> bool" where
  "command_kept (Send_command cid _) = session_command cid"
| "command_kept _ = True"

definition sends_inv :: "endpoint \<Rightarrow> bool" where
  "sends_inv e \<longleftrightarrow>
     send_inv (half e) \<and> (\<exists>log. send_log (half e) log) \<and> socket_inv e \<and>
     list_all command_kept (map request (ops (half e)))"

lemma socket_invD:
  assumes "socket_inv e" "\<not> broken e" "writing (half e) i"
  shows "written e \<le> length (send_buf (endpoint_session e))"
    "sent e = concat (butlast (wire (half e))) @ take (written e) (send_buf (endpoint_session e))"
  using assms unfolding socket_inv_def by blast+

lemma with_half_simps [simp]:
  "half (with_half sys e) = sys" "broken (with_half sys e) = broken e" "sent (with_half sys e) = sent e"
  "taken (with_half sys e) = taken e" "recv_pc (with_half sys e) = recv_pc e"
  "recv_op (with_half sys e) = recv_op e" "outcomes (with_half sys e) = outcomes e"
  by (simp_all add: with_half_def)

lemma wire_split: "send_inv sys \<Longrightarrow> writing sys i \<Longrightarrow> concat (wire sys) = concat (butlast (wire sys)) @ send_buf (sess sys)"
  using send_invD(2) [of sys i] append_butlast_last_id [of "wire sys"]
  by (metis concat.simps(1,2) concat_append append_Nil2)

lemma sent_prefix:
  assumes "sends_inv e"
  shows "prefix (sent e) (concat (wire (half e)))"
proof (cases "broken e \<or> (\<forall>i. \<not> writing (half e) i)")
  case True
  then show ?thesis using assms by (auto simp: sends_inv_def socket_inv_def)
next
  case False
  then obtain i where i: "writing (half e) i" "\<not> broken e" by blast
  then have "sent e = concat (butlast (wire (half e))) @ take (written e) (send_buf (endpoint_session e))"
    using assms socket_invD(2) by (simp add: sends_inv_def)
  moreover have "send_inv (half e)" using assms by (simp add: sends_inv_def)
  ultimately show ?thesis using wire_split i(1) take_is_prefix by (metis same_prefix_prefix)
qed

lemma socket_inv_with_half:
  assumes "socket_inv e" "wire_change (half e) sys" "send_inv (half e)" "send_inv sys"
  shows "socket_inv (with_half sys e)"
proof (cases "wire sys = wire (half e)")
  case True
  then have w: "writing sys i \<longleftrightarrow> writing (half e) i" for i using assms(2) by (auto simp: wire_change_def)
  have "send_buf (sess sys) = send_buf (endpoint_session e)" if "writing sys i" for i
    using send_invD(2) [OF assms(3), of i] send_invD(2) [OF assms(4) that] that w True by simp
  then show ?thesis using assms(1) w True by (simp add: socket_inv_def with_half_def)
next
  case False
  then obtain w i where "\<forall>i. \<not> writing (half e) i" "wire sys = wire (half e) @ [w]" "writing sys i"
    using assms(2) by (auto simp: wire_change_def)
  then show ?thesis using assms(1) by (auto simp: socket_inv_def with_half_def)
qed

lemma wire_log_initiate:
  assumes "send_inv sys" "\<exists>log. send_log sys log"
  shows "send_inv (initiate r sys)" "\<exists>log. send_log (initiate r sys) log"
  using assms send_inv_initiate send_log_initiate by blast+

lemma sends_inv_send:
  assumes inv: "sends_inv e" and st: "send_step (half e) l sys" "client_label l"
    and ok: "write_succeeded l \<Longrightarrow> \<not> broken e \<and> written e = length (send_buf (endpoint_session e))"
  shows "sends_inv ((with_half sys e)\<lparr>broken := broken e \<or> write_failed l\<rparr>)"
proof -
  have h: "send_inv (half e)" "socket_inv e" and lg: "\<exists>log. send_log (half e) log"
    using inv by (simp_all add: sends_inv_def)
  have h': "send_inv sys" "\<exists>log. send_log sys log"
    using send_step_inv [OF st(1) h(1)] send_log_step [OF st(1) h(1)] lg by blast+
  have "socket_inv ((with_half sys e)\<lparr>broken := broken e \<or> write_failed l\<rparr>)"
  proof (cases "write_succeeded l \<or> write_failed l")
    case False
    then show ?thesis
      using socket_inv_with_half [OF h(2) wire_change_step [OF st(1) h(1)] h(1) h'(1)] by (simp add: with_half_def)
  next
    case True
    then obtain i ec where l: "l = L_written i ec" by (cases l) auto
    obtain n where i: "writing (half e) i" and s: "sys = write_done i ec n (half e)"
      using st(1) unfolding l by (rule step_writtenE) (auto simp: writing_def)
    have idle: "\<not> writing sys j" for j
    proof -
      have "i \<notin> set (send_cv (endpoint_session e))" using send_invD(4) [OF h(1)] not_both [OF i] by simp
      note c = complete_release_commute [OF this]
      have "\<not> writing (release_send_buf (complete i ec m (half e))) j" for ec m
        using complete_leaves_no_writer [OF h(1) i, of ec m]
        by (auto simp: release_send_buf_def cancel_one_def writing_set_op split: list.split)
      then show ?thesis
        using complete_leaves_no_writer [OF h(1) i] unfolding s
        by (simp add: write_done_defs c split: send_request.split)
    qed
    have w: "wire sys = wire (half e)" by (simp add: s)
    show ?thesis
    proof (cases "failed ec")
      case True
      then show ?thesis using sent_prefix [OF inv] w by (simp add: socket_inv_def l with_half_def)
    next
      case False
      then have "\<not> broken e" "written e = length (send_buf (endpoint_session e))" using ok by (simp_all add: l)
      then have "sent e = concat (wire sys)"
        using h(2) i wire_split [OF h(1) i] w by (auto simp: socket_inv_def)
      then show ?thesis using False \<open>\<not> broken e\<close> idle by (simp add: socket_inv_def l with_half_def)
    qed
  qed
  moreover have "list_all command_kept (map request (ops sys))"
  proof -
    obtain new where new: "map request (ops sys) = map request (ops (half e)) @ new"
      "\<forall>cid n. Send_command cid n \<in> set new \<longrightarrow> cid = command_id_unbind"
      using send_step_keeps [OF st(1)] st(2) by blast
    have "command_kept r" if "r \<in> set new" for r
      using new(2) that by (cases r) (auto simp: session_command_def)
    then have "list_all command_kept new" by (simp add: list_all_iff)
    then show ?thesis
      using inv unfolding new(1) sends_inv_def by simp
  qed
  ultimately show ?thesis using h' by (simp add: sends_inv_def with_half_def)
qed

lemma sends_inv_transfer:
  assumes inv: "sends_inv e" and i: "writing (half e) i" "\<not> broken e"
    and b: "bytes = take k (drop (written e) (send_buf (endpoint_session e)))"
  shows "sends_inv (e\<lparr>sent := sent e @ bytes, written := written e + length bytes\<rparr>)"
proof -
  let ?buf = "send_buf (endpoint_session e)"
  have s: "sends_inv e \<Longrightarrow> socket_inv e" by (simp add: sends_inv_def)
  note d = socket_invD [OF s [OF inv] i(2,1)]
  have "take (length (take k ys)) ys = take k ys" for ys :: octets by (simp add: min_def)
  then have "take (written e + length bytes) ?buf = take (written e) ?buf @ bytes"
    unfolding take_add b by (simp only:)
  moreover have "written e + length bytes \<le> length ?buf" using d(1) by (simp add: b)
  ultimately show ?thesis
    using inv i d(2) by (auto simp: sends_inv_def socket_inv_def)
qed

subsection \<open>The receiver's sends\<close>

lemma sends_inv_apply_result:
  assumes inv: "sends_inv e" and kept: "send_side_kept (endpoint_session e) (snd (snd (snd r)))"
    and cmd: "session_commands_only (fst r)"
  shows "sends_inv (apply_result r e)"
proof -
  obtain a rpc op s where r: "r = (a, rpc, op, s)" by (cases r) auto
  let ?e = "e\<lparr>half := (half e)\<lparr>sess := s\<rparr>, recv_pc := rpc, recv_op := op, recv_send := None\<rparr>"
  have h: "send_inv (half e)" and lg: "\<exists>log. send_log (half e) log" and so: "socket_inv e"
    using inv by (simp_all add: sends_inv_def)
  have h1: "send_inv (half ?e)"
    using send_invD [OF h] kept by (simp add: send_inv_def r send_side_kept_def)
  have so1: "socket_inv ?e" using so kept by (simp add: socket_inv_def r send_side_kept_def)
  have lg1: "\<exists>log. send_log (half ?e) log" using lg by simp
  show ?thesis
  proof (cases "\<exists>cid n. a = Send_cmd cid n")
    case True
    then obtain cid n where a: "a = Send_cmd cid n" by blast
    note i = wire_log_initiate [OF h1 lg1, of "Send_command cid n"]
    have "socket_inv (with_half (initiate (Send_command cid n) (half ?e)) ?e)"
      by (rule socket_inv_with_half [OF so1 wire_change_initiate [OF h1] h1 i(1)])
    moreover have "list_all command_kept (map request (ops (initiate (Send_command cid n) (half ?e))))"
      using inv cmd by (simp add: initiate_keeps a r sends_inv_def session_commands_only_def)
    ultimately show ?thesis using i by (simp add: apply_result_def r a sends_inv_def socket_inv_def)
  next
    case False
    then show ?thesis using h1 lg1 so1 inv
      by (cases a) (simp_all add: apply_result_def r sends_inv_def socket_inv_def)
  qed
qed

lemma sends_inv_init:
  "send_cv s = [] \<Longrightarrow> sequence_inv s \<Longrightarrow> sends_inv (endpoint_init s)"
proof -
  assume "send_cv s = []" "sequence_inv s"
  moreover have "send_log (send_init s) []" by (simp add: send_log_def send_init_def)
  moreover have "wire (send_init s) = []" "ops (send_init s) = []" by (simp_all add: send_init_def)
  ultimately show ?thesis
    by (auto simp: sends_inv_def endpoint_init_def send_inv_init socket_inv_def)
qed

lemma endpoint_step_sends_inv: "endpoint_step e l e' \<Longrightarrow> sends_inv e \<Longrightarrow> sends_inv e'"
proof (induction rule: endpoint_step.induct)
  case (endpoint_send e l sys)
  then show ?case by (intro sends_inv_send)
next
  case (endpoint_transfer e i bytes k)
  then show ?case by (intro sends_inv_transfer)
next
  case (endpoint_receive e r)
  then show ?case using sends_inv_apply_result receive_loop_send_side receive_loop_commands by (simp add: async_receive_def)
next
  case (endpoint_event ev e r)
  let ?e = "e\<lparr>taken := taken e + length (arrived ev)\<rparr>"
  have "sends_inv ?e" using endpoint_event by (simp add: sends_inv_def socket_inv_def)
  then show ?case using sends_inv_apply_result resume_send_side [OF endpoint_event(2)]
      resume_commands [OF endpoint_event(2)] by simp
qed

text \<open>A whole session started on a new connection.\<close>

inductive endpoint_reachable :: "endpoint \<Rightarrow> bool" where
  endpoint_start: "endpoint_reachable (endpoint_init (session_new interval))"
| endpoint_next: "endpoint_reachable e \<Longrightarrow> endpoint_step e l e' \<Longrightarrow> endpoint_reachable e'"

lemma endpoint_reachable_sends_inv: "endpoint_reachable e \<Longrightarrow> sends_inv e"
proof (induction rule: endpoint_reachable.induct)
  case (endpoint_start interval)
  show ?case by (rule sends_inv_init) (simp_all add: session_new_def sequence_inv_def)
qed (rule endpoint_step_sends_inv)

end
