(* ===== verification/Network.thy ===== *)
theory Network
  imports Endpoint_Invariant
begin

text \<open>
  Two sessions of the library on one connection. Each side is an \<open>endpoint\<close>; the octets a socket took
  on one side can be read, in order, on the other, in pieces of any size, and nothing else can. A
  \<open>network_step\<close> is a step of one side. \<open>flow_inv\<close> relates a receiver to the sender at the other end: the
  receiver stands at a frame boundary of what the sender put on the wire.
\<close>

datatype side = Side_A | Side_B

fun peer :: "side \<Rightarrow> side" where
  "peer Side_A = Side_B"
| "peer Side_B = Side_A"

lemma peer_simps [simp]: "peer (peer a) = a" "peer a \<noteq> a" "a \<noteq> peer a"
  by (cases a; simp)+

type_synonym network = "side \<Rightarrow> endpoint"

inductive network_step :: "network \<Rightarrow> side \<Rightarrow> endpoint_label \<Rightarrow> network \<Rightarrow> bool" where
  network_move:
    "endpoint_step (net a) l e \<Longrightarrow>
     (\<And>ev. l = E_event ev \<Longrightarrow> prefix (arrived ev) (drop (taken (net a)) (sent (net (peer a))))) \<Longrightarrow>
     network_step net a l (net(a := e))"

inductive network_reachable :: "network \<Rightarrow> bool" where
  network_start: "network_reachable (\<lambda>a. endpoint_init (session_new (interval a)))"
| network_next: "network_reachable net \<Longrightarrow> network_step net a l net' \<Longrightarrow> network_reachable net'"

lemma network_reachable_endpoint: "network_reachable net \<Longrightarrow> endpoint_reachable (net a)"
proof (induction rule: network_reachable.induct)
  case (network_start interval)
  show ?case by (rule endpoint_start)
next
  case (network_next net b l net')
  then show ?case by (auto elim!: network_step.cases intro: endpoint_next)
qed

subsection \<open>A receiver against the sender's wire\<close>

definition short_frames :: "endpoint \<Rightarrow> bool" where
  "short_frames e \<longleftrightarrow> list_all (\<lambda>w. length w < 4294967296) (wire (half e))"

definition answers_sent :: "endpoint \<Rightarrow> u32 list" where
  "answers_sent e =
     concat (map (\<lambda>r. case r of Send_command cid n \<Rightarrow> if cid = command_id_enquire_link_resp then [n] else []
                              | _ \<Rightarrow> []) (map request (ops (half e))))"

definition client_deliveries :: "endpoint \<Rightarrow> (pdu_variant \<times> u32 \<times> command_status) list" where
  "client_deliveries e = concat (map delivery (outcomes e))"

definition outcomes_sound :: "endpoint \<Rightarrow> bool" where
  "outcomes_sound e \<longleftrightarrow> (\<forall>a \<in> set (outcomes e). a \<noteq> Undefined_behaviour \<and> (\<forall>x. a \<noteq> Throws x))"

definition flow_inv :: "nat \<Rightarrow> endpoint \<Rightarrow> octets list \<Rightarrow> nat \<Rightarrow> nat \<Rightarrow> bool" where
  "flow_inv cap e ws n k \<longleftrightarrow>
     taken e \<le> n \<and>
     position cap ws (drop (taken e) (concat ws)) k (recv_pc e, recv_op e, endpoint_session e) \<and>
     client_deliveries e = deliveries k ws \<and> answers_sent e = answers (recv_pc e) k ws \<and>
     outcomes_sound e"

lemma whole_frames:
  assumes "sends_inv e" "short_frames e"
  shows "list_all whole_frame (wire (half e))"
proof -
  have "list_all frame_ok (wire (half e))" using assms(1) send_invD(5) by (simp add: sends_inv_def)
  then show ?thesis
    using assms(2) by (auto simp: list_all_iff short_frames_def frame_ok_def whole_frame_def
        good_frame_def frame_header_def unat_length_u32)
qed

lemma position_cong:
  "receive_buf s' = receive_buf s \<Longrightarrow>
     position cap ws rest k (rpc, op, s') = position cap ws rest k (rpc, op, s)"
  by (simp add: position_def at_frame_def received_def receive_inv_def reading_def)

lemma answers_sent_append:
  "map request (ops sys') = map request (ops (half e)) @ new \<Longrightarrow>
     answers_sent (e'\<lparr>half := sys'\<rparr>) = answers_sent e @ concat (map (\<lambda>r. case r of
        Send_command cid n \<Rightarrow> if cid = command_id_enquire_link_resp then [n] else [] | _ \<Rightarrow> []) new)"
  unfolding answers_sent_def by simp

text \<open>The sender's wire grows behind what the receiver has read.\<close>

lemma flow_inv_wire_grows:
  assumes flow: "flow_inv cap e ws n k" and ws: "list_all whole_frame ws" and n: "n \<le> length (concat ws)"
    and m: "n \<le> m"
  shows "flow_inv cap e (ws @ new) m k"
proof -
  obtain rpc op s where st: "recv_pc e = rpc" "recv_op e = op" "endpoint_session e = s" by blast
  let ?rest = "drop (taken e) (concat ws)"
  have t: "taken e \<le> length (concat ws)" using flow n by (simp add: flow_inv_def)
  have pos: "position cap ws ?rest k (rpc, op, s)" using flow st by (simp add: flow_inv_def)
  then have at: "at_frame ws k s ?rest" and inv: "receive_inv cap s" and k: "k \<le> length ws"
    by (simp_all add: position_def at_frame_def)
  have "position cap (ws @ new) (drop (taken e) (concat (ws @ new))) k (rpc, op, s)"
    using pos t k by (simp add: position_def at_frame_def)
  moreover have "deliveries k (ws @ new) = deliveries k ws" using k by (simp add: deliveries_def)
  moreover have "answers rpc k (ws @ new) = answers rpc k ws"
  proof (cases "rpc = Recv_answering_enquire")
    case True
    then have "complete_frame (received s)" using pos by (simp add: position_def op_at_def)
    then have "k < length ws" by (rule head_frame [OF ws at inv])
    then show ?thesis by (simp add: answers_def)
  qed (use k in \<open>simp add: answers_def\<close>)
  ultimately show ?thesis using flow m st by (simp add: flow_inv_def)
qed

text \<open>The receiver's own sending half moves.\<close>

lemma flow_inv_send:
  assumes flow: "flow_inv cap e ws n k" and st: "send_step (half e) l sys" "client_label l"
  shows "flow_inv cap ((with_half sys e)\<lparr>broken := b\<rparr>) ws n k"
proof -
  obtain new where new: "map request (ops sys) = map request (ops (half e)) @ new"
    "\<forall>cid n. Send_command cid n \<in> set new \<longrightarrow> cid = command_id_unbind"
    and buf: "receive_buf (sess sys) = receive_buf (endpoint_session e)"
    using send_step_keeps [OF st(1)] st(2) by blast
  have "(case r of Send_command cid n \<Rightarrow> if cid = command_id_enquire_link_resp then [n] else [] | _ \<Rightarrow> [])
      = []" if "r \<in> set new" for r
    using new(2) that by (cases r) (auto simp: session_commands_distinct [symmetric])
  then have "concat (map (\<lambda>r. case r of Send_command cid n \<Rightarrow>
      if cid = command_id_enquire_link_resp then [n] else [] | _ \<Rightarrow> []) new) = []"
    by simp
  then have "answers_sent ((with_half sys e)\<lparr>broken := b\<rparr>) = answers_sent e"
    unfolding answers_sent_def by (simp add: new(1))
  then show ?thesis
    using flow position_cong [OF buf]
    by (simp add: flow_inv_def client_deliveries_def outcomes_sound_def)
qed

text \<open>The receiver moves: what one run of its coroutine does to the endpoint.\<close>

lemma flow_inv_apply_result:
  assumes adv: "advances cap ws (drop t (concat ws)) (client_deliveries e) (answers_sent e) r"
    and "t \<le> n" "outcomes_sound e"
  shows "\<exists>k. flow_inv cap (apply_result r (e\<lparr>taken := t\<rparr>)) ws n k"
proof -
  obtain a rpc op s where r: "r = (a, rpc, op, s)" by (cases r) auto
  obtain k where k: "position cap ws (drop t (concat ws)) k (rpc, op, s)"
    "deliveries k ws = client_deliveries e @ delivery a" "answers rpc k ws = answers_sent e @ answered a"
    and a: "a \<noteq> Undefined_behaviour" "\<forall>x. a \<noteq> Throws x"
    using adv by (auto simp: advances_def r)
  have "flow_inv cap (apply_result r (e\<lparr>taken := t\<rparr>)) ws n k"
  proof (cases "\<exists>cid n. a = Send_cmd cid n")
    case True
    then obtain cid m where c: "a = Send_cmd cid m" by blast
    let ?sys = "initiate (Send_command cid m) ((half e)\<lparr>sess := s\<rparr>)"
    note i = initiate_keeps [of "Send_command cid m" "(half e)\<lparr>sess := s\<rparr>"]
    have "receive_buf (sess ?sys) = receive_buf s" by (simp add: i)
    then have "position cap ws (drop t (concat ws)) k (rpc, op, sess ?sys)"
      using k(1) position_cong by blast
    then show ?thesis using k(2,3) assms(2,3)
      by (simp add: flow_inv_def apply_result_def r c client_deliveries_def outcomes_sound_def
          answers_sent_def i)
  next
    case False
    then show ?thesis using k a assms(2,3)
      by (cases a) (simp_all add: flow_inv_def apply_result_def r client_deliveries_def outcomes_sound_def
          answers_sent_def)
  qed
  then show ?thesis by blast
qed

text \<open>The same for the event that resumes the coroutine, and for a new receive operation.\<close>

lemma flow_resume:
  assumes flow: "flow_inv cap e ws n k" and ws: "list_all whole_frame ws"
    and pre: "prefix (arrived ev) (drop (taken e) data)" "prefix data (concat ws)" "length data = n"
    and ev: "expects (recv_pc e) ev" "event_ok ev (recv_pc e, recv_op e, endpoint_session e)"
  shows "\<exists>r. resume ev (recv_pc e, recv_op e, endpoint_session e) = Some r \<and>
           (\<exists>k. flow_inv cap (apply_result r (e\<lparr>taken := taken e + length (arrived ev)\<rparr>)) ws n k)"
proof -
  let ?t = "taken e + length (arrived ev)"
  obtain tl1 tl2 where tl: "drop (taken e) data = arrived ev @ tl1" "concat ws = data @ tl2"
    using pre(1,2) by (auto simp: prefix_def)
  have t: "taken e \<le> n" using flow by (simp add: flow_inv_def)
  have le: "?t \<le> n" using arg_cong [OF tl(1), of length] t pre(3) by simp
  have "drop (taken e) (concat ws) = arrived ev @ tl1 @ tl2" using tl t pre(3) by simp
  moreover have "drop ?t (concat ws) = drop (length (arrived ev)) (drop (taken e) (concat ws))"
    by (simp add: add.commute)
  ultimately have split: "drop (taken e) (concat ws) = arrived ev @ drop ?t (concat ws)" by simp
  have "position cap ws (arrived ev @ drop ?t (concat ws)) k (recv_pc e, recv_op e, endpoint_session e)"
    using flow unfolding split [symmetric] by (simp add: flow_inv_def)
  from resume_advances [OF ws this ev] obtain r where
    r: "resume ev (recv_pc e, recv_op e, endpoint_session e) = Some r"
    and "advances cap ws (drop ?t (concat ws)) (deliveries k ws) (answers (recv_pc e) k ws) r"
    by blast
  then have "advances cap ws (drop ?t (concat ws)) (client_deliveries e) (answers_sent e) r"
    using flow by (simp add: flow_inv_def)
  from flow_inv_apply_result [OF this le] show ?thesis using r flow by (auto simp: flow_inv_def)
qed

lemma flow_receive:
  assumes flow: "flow_inv cap e ws n k" and ws: "list_all whole_frame ws"
    and pc: "recv_pc e \<in> {Recv_start, Recv_done}"
  shows "\<exists>r. async_receive (endpoint_session e) = Some r \<and> (\<exists>k. flow_inv cap (apply_result r e) ws n k)"
proof -
  have at: "at_frame ws k (endpoint_session e) (drop (taken e) (concat ws))"
    and inv: "receive_inv cap (endpoint_session e)"
    using flow by (simp_all add: flow_inv_def position_def)
  obtain r where r: "receive_loop receive_op_new (endpoint_session e) = Some r"
    "advances cap ws (drop (taken e) (concat ws)) (deliveries k ws) (answers Recv_done k ws) r"
    using receive_loop_advances [OF ws at inv, of receive_op_new] by (auto simp: receive_op_new_def)
  have "answers (recv_pc e) k ws = answers Recv_done k ws" by (rule answers_idle(1)) (use pc in auto)
  then have "advances cap ws (drop (taken e) (concat ws)) (client_deliveries e) (answers_sent e) r"
    using r(2) flow by (simp add: flow_inv_def)
  from flow_inv_apply_result [OF this, of n] show ?thesis
    using r(1) flow by (auto simp: flow_inv_def async_receive_def)
qed

subsection \<open>Reachable networks\<close>

text \<open>What a session has put on the wire, and what the socket took, only grow.\<close>

definition sends_grow :: "endpoint \<Rightarrow> endpoint \<Rightarrow> bool" where
  "sends_grow e e' \<longleftrightarrow> prefix (wire (half e)) (wire (half e')) \<and> prefix (sent e) (sent e')"

lemma wire_change_grows: "wire_change sys sys' \<Longrightarrow> prefix (wire sys) (wire sys')"
  by (auto simp: wire_change_def)

lemma apply_result_grows:
  assumes "send_inv (half e)" "send_side_kept (endpoint_session e) (snd (snd (snd r)))"
  shows "sends_grow e (apply_result r e)"
proof -
  obtain a rpc op s where r: "r = (a, rpc, op, s)" by (cases r) auto
  have "send_inv ((half e)\<lparr>sess := s\<rparr>)"
    using send_invD [OF assms(1)] assms(2) by (simp add: send_inv_def r send_side_kept_def)
  from wire_change_grows [OF wire_change_initiate [OF this]]
  show ?thesis by (cases a) (simp_all add: apply_result_def r sends_grow_def)
qed

lemma endpoint_step_grows:
  assumes "endpoint_step e l e'" "send_inv (half e)"
  shows "sends_grow e e'"
  using assms
proof (induction rule: endpoint_step.induct)
  case (endpoint_send e l sys)
  show ?case
  proof (cases "write_succeeded l \<or> write_failed l")
    case True
    then obtain i ec where l: "l = L_written i ec" by (cases l) auto
    obtain n where "sys = write_done i ec n (half e)"
      using endpoint_send(1) unfolding l by (rule step_writtenE) auto
    then show ?thesis by (simp add: sends_grow_def)
  next
    case False
    then show ?thesis
      using wire_change_grows wire_change_step [OF endpoint_send(1) endpoint_send(4)] by (simp add: sends_grow_def)
  qed
next
  case (endpoint_transfer e i bytes k)
  show ?case by (simp add: sends_grow_def)
next
  case (endpoint_receive e r)
  then show ?case using apply_result_grows receive_loop_send_side by (simp add: async_receive_def)
next
  case (endpoint_event ev e r)
  then show ?case
    using apply_result_grows [of "e\<lparr>taken := taken e + length (arrived ev)\<rparr>" r] resume_send_side [of ev]
    by (simp add: sends_grow_def)
qed

lemma short_frames_prefix: "sends_grow e e' \<Longrightarrow> short_frames e' \<Longrightarrow> short_frames e"
  by (auto simp: sends_grow_def short_frames_def prefix_def)

text \<open>One direction of the connection: the receiver's and the sender's view of the frames agree.\<close>

definition linked :: "endpoint \<Rightarrow> endpoint \<Rightarrow> bool" where
  "linked e f \<longleftrightarrow>
     sends_inv f \<and> (short_frames f \<longrightarrow> (\<exists>k. flow_inv 131072 e (wire (half f)) (length (sent f)) k))"

lemma linked_sender_moves:
  assumes l: "linked e f" and st: "endpoint_step f lab f'"
  shows "linked e f'"
proof -
  have inv: "sends_inv f" using l by (simp add: linked_def)
  then have "send_inv (half f)" by (simp add: sends_inv_def)
  note g = endpoint_step_grows [OF st this]
  obtain new more where new: "wire (half f') = wire (half f) @ new" "sent f' = sent f @ more"
    using g by (auto simp: sends_grow_def prefix_def)
  have "\<exists>k. flow_inv 131072 e (wire (half f')) (length (sent f')) k" if s: "short_frames f'"
  proof -
    have sf: "short_frames f" by (rule short_frames_prefix [OF g s])
    then obtain k where "flow_inv 131072 e (wire (half f)) (length (sent f)) k"
      using l by (auto simp: linked_def)
    from flow_inv_wire_grows [OF this whole_frames [OF inv sf]] show ?thesis
      using prefix_length_le [OF sent_prefix [OF inv]] unfolding new length_append by (metis le_add1)
  qed
  then show ?thesis using endpoint_step_sends_inv [OF st inv] by (simp add: linked_def)
qed

lemma linked_receiver_moves:
  assumes l: "linked e f" and st: "endpoint_step e lab e'"
    and pre: "\<And>ev. lab = E_event ev \<Longrightarrow> prefix (arrived ev) (drop (taken e) (sent f))"
  shows "linked e' f"
proof -
  have inv: "sends_inv f" using l by (simp add: linked_def)
  have "\<exists>k. flow_inv 131072 e' (wire (half f)) (length (sent f)) k" if s: "short_frames f"
  proof -
    obtain k where flow: "flow_inv 131072 e (wire (half f)) (length (sent f)) k"
      using l s by (auto simp: linked_def)
    note ws = whole_frames [OF inv s]
    from st pre flow show ?thesis
    proof (induction rule: endpoint_step.induct)
      case (endpoint_send e l sys)
      then show ?case using flow_inv_send by blast
    next
      case (endpoint_transfer e i bytes n)
      then show ?case by (auto simp: flow_inv_def client_deliveries_def answers_sent_def outcomes_sound_def)
    next
      case (endpoint_receive e r)
      then show ?case using flow_receive [OF _ ws] by fastforce
    next
      case (endpoint_event ev e r)
      have ok: "event_ok ev (recv_pc e, recv_op e, endpoint_session e)"
        using endpoint_event(1) by (cases ev) auto
      show ?case
        using flow_resume [OF endpoint_event(4) ws endpoint_event(3) [OF refl] sent_prefix [OF inv] refl
            resume_expected [OF endpoint_event(2)] ok] endpoint_event(2) by simp
    qed
  qed
  then show ?thesis using inv by (simp add: linked_def)
qed

lemma linked_init: "linked (endpoint_init (session_new i)) (endpoint_init (session_new j))"
proof -
  let ?e = "endpoint_init (session_new i)"
  have "position 131072 [] [] 0 (recv_pc ?e, recv_op ?e, endpoint_session ?e)"
    using session_new_empty [of i] by (simp add: empty_session_def position_def at_frame_def op_at_def endpoint_init_def send_init_def)
  then have "flow_inv 131072 ?e [] 0 0"
    by (simp add: flow_inv_def) (simp add: client_deliveries_def deliveries_def
        answers_sent_def answers_def outcomes_sound_def endpoint_init_def send_init_def)
  then show ?thesis
    using endpoint_reachable_sends_inv [OF endpoint_start, of j]
    by (auto simp: linked_def endpoint_init_def send_init_def)
qed

lemma network_linked: "network_reachable net \<Longrightarrow> linked (net a) (net (peer a))"
proof (induction arbitrary: a rule: network_reachable.induct)
  case (network_start interval)
  show ?case by (rule linked_init)
next
  case (network_next net b l net')
  obtain e where st: "endpoint_step (net b) l e" "net' = net(b := e)"
    and pre: "\<And>ev. l = E_event ev \<Longrightarrow> prefix (arrived ev) (drop (taken (net b)) (sent (net (peer b))))"
    using network_next(2) by (auto elim!: network_step.cases)
  have "a = b \<or> peer a = b" by (cases a; cases b; simp)
  then show ?case
  proof
    assume "a = b"
    then show ?thesis using linked_receiver_moves [OF network_next.IH [of b] st(1)] pre st(2) by auto
  next
    assume "peer a = b"
    then show ?thesis using linked_sender_moves [OF network_next.IH [of a], of l e] st by auto
  qed
qed

subsection \<open>In terms of the sender's operations\<close>

fun request_delivery :: "send_request \<Rightarrow> u32 \<Rightarrow> (pdu_variant \<times> u32 \<times> command_status) list" where
  "request_delivery (Send_request pdu) n = [(pdu, n, command_status_rok)]"
| "request_delivery (Send_response pdu _ st) n = [(pdu, n, st)]"
| "request_delivery (Send_command _ _) n = []"

fun request_enquiry :: "send_request \<Rightarrow> u32 \<Rightarrow> u32 list" where
  "request_enquiry (Send_command cid _) n = (if cid = command_id_enquire_link then [n] else [])"
| "request_enquiry _ n = []"

lemma frame_actions_delivery:
  "frame_delivery w = concat (map delivery (frame_actions w))"
  "frame_answer w = concat (map answered (frame_actions w))"
  by (auto simp: frame_delivery_def frame_answer_def frame_actions_def session_command_def completed_def
      make_error_code_def session_commands_distinct [symmetric] split: prod.split)

lemma frame_of_request:
  assumes "request_ok r" "command_kept r"
  shows "frame_delivery (request_frame r n) = request_delivery r n"
    "frame_answer (request_frame r n) = request_enquiry r n"
proof -
  have c: "frame_header (request_frame (Send_command cid m) n) =
      (of_nat header_length, cid, command_status_rok, n)" for cid m
    using frame_header_octets [where body = "[]"] by (simp only: command_frame_octets) simp
  show "frame_delivery (request_frame r n) = request_delivery r n"
  proof (cases r)
    case (Send_command cid m)
    then show ?thesis using assms(2) c [of cid m] by (simp add: frame_delivery_def del: request_frame.simps)
  qed (use assms(1) in \<open>simp_all add: frame_actions_delivery pdu_frame_read\<close>)
  show "frame_answer (request_frame r n) = request_enquiry r n"
  proof (cases r)
    case (Send_command cid m)
    then show ?thesis using c [of cid m] by (simp add: frame_answer_def del: request_frame.simps)
  qed (use assms(1) in \<open>simp_all add: frame_actions_delivery pdu_frame_read\<close>)
qed

lemma frames_of_log:
  assumes log: "send_log sys log" and ok: "list_all request_ok (map request (ops sys))"
    "list_all command_kept (map request (ops sys))"
  shows "deliveries k (wire sys) =
           concat (map (\<lambda>(i, n). request_delivery (request (ops sys ! i)) n) (take k log))"
    "concat (map frame_answer (take k (wire sys))) =
           concat (map (\<lambda>(i, n). request_enquiry (request (ops sys ! i)) n) (take k log))"
proof -
  have w: "wire sys = map (\<lambda>(i, n). request_frame (request (ops sys ! i)) n) log"
    and i: "\<And>i n. (i, n) \<in> set log \<Longrightarrow> i < length (ops sys)"
    using log by (auto simp: send_log_def)
  have f: "frame_delivery (request_frame (request (ops sys ! i)) n) = request_delivery (request (ops sys ! i)) n"
    "frame_answer (request_frame (request (ops sys ! i)) n) = request_enquiry (request (ops sys ! i)) n"
    if "(i, n) \<in> set (take k log)" for i n
    using frame_of_request [of "request (ops sys ! i)" n] i [OF in_set_takeD [OF that]] ok
    by (simp_all add: list_all_length)
  have "map frame_delivery (take k (wire sys)) =
      map (\<lambda>(i, n). request_delivery (request (ops sys ! i)) n) (take k log)"
    "map frame_answer (take k (wire sys)) =
      map (\<lambda>(i, n). request_enquiry (request (ops sys ! i)) n) (take k log)"
    using f by (auto simp: w take_map)
  then show "deliveries k (wire sys) =
           concat (map (\<lambda>(i, n). request_delivery (request (ops sys ! i)) n) (take k log))"
    "concat (map frame_answer (take k (wire sys))) =
           concat (map (\<lambda>(i, n). request_enquiry (request (ops sys ! i)) n) (take k log))"
    by (simp_all only: deliveries_def)
qed

text \<open>What every reachable network satisfies, for the proofs to come.\<close>

definition sends_ok :: "endpoint \<Rightarrow> bool" where
  "sends_ok e \<longleftrightarrow> short_frames e \<and> list_all request_ok (map request (ops (half e)))"

lemma network_flow:
  assumes "network_reachable net" "short_frames (net (peer a))"
  obtains k where "flow_inv 131072 (net a) (wire (half (net (peer a)))) (length (sent (net (peer a)))) k"
  using network_linked [OF assms(1), of a] assms(2) by (auto simp: linked_def)

lemma network_sends_inv: "network_reachable net \<Longrightarrow> sends_inv (net a)"
  by (rule endpoint_reachable_sends_inv [OF network_reachable_endpoint])

lemma network_log:
  assumes "network_reachable net"
  obtains log where "send_log (half (net a)) log" "list_all command_kept (map request (ops (half (net a))))"
  using network_sends_inv [OF assms, of a] by (auto simp: sends_inv_def)

text \<open>A receiver that waits for octets when all have been read has consumed every frame.\<close>

lemma flow_all_read:
  assumes "flow_inv cap e ws n k" "list_all whole_frame ws"
    and "recv_pc e = Recv_reading" "length (concat ws) \<le> taken e"
  shows "k = length ws"
proof (rule ccontr)
  assume ne: "k \<noteq> length ws"
  have at: "at_frame ws k (endpoint_session e) []" and c: "\<not> complete_frame (received (endpoint_session e))"
    using assms(1,3,4) by (simp_all add: flow_inv_def position_def)
  then have "k < length ws" using ne by (simp add: at_frame_def)
  then have d: "received (endpoint_session e) @ [] = ws ! k @ concat (drop (Suc k) ws)"
    using at by (simp add: at_frame_def Cons_nth_drop_Suc [symmetric])
  have w: "good_frame (length (ws ! k)) (ws ! k)"
    using assms(2) \<open>k < length ws\<close> by (simp add: list_all_length whole_frame_def)
  have "length (ws ! k) \<le> length (received (endpoint_session e))" using arg_cong [OF d, of length] by simp
  then show False using complete_frame_prefix [OF d w] c by simp
qed

text \<open>A receiver that waits for octets can take some, if the frames fit its buffer.\<close>

lemma flow_room:
  assumes flow: "flow_inv cap e ws n k" and "list_all whole_frame ws" "\<forall>w \<in> set ws. length w \<le> cap"
    and "recv_pc e = Recv_reading" "0 < cap"
  shows "fb_out (receive_buf (endpoint_session e)) < fb_last (receive_buf (endpoint_session e))"
proof -
  let ?s = "endpoint_session e"
  have at: "at_frame ws k ?s (drop (taken e) (concat ws))" and c: "\<not> complete_frame (received ?s)"
    and rd: "reading cap ?s" and inv: "receive_inv cap ?s"
    using assms by (simp_all add: flow_inv_def position_def)
  have "length (received ?s) < cap"
  proof (cases "k < length ws")
    case True
    then have d: "received ?s @ drop (taken e) (concat ws) = ws ! k @ concat (drop (Suc k) ws)"
      using at by (simp add: at_frame_def Cons_nth_drop_Suc [symmetric])
    have w: "good_frame (length (ws ! k)) (ws ! k)"
      using assms(2) True by (simp add: list_all_length whole_frame_def)
    have "\<not> length (ws ! k) \<le> length (received ?s)" using complete_frame_prefix [OF d w] c by simp
    moreover have "length (ws ! k) \<le> cap" using assms(3) True by simp
    ultimately show ?thesis by simp
  next
    case False
    then show ?thesis using at assms(5) by (simp add: at_frame_def)
  qed
  then show ?thesis using rd by (simp add: reading_def)
qed

end
