(* ===== verification/Network_Progress.thy ===== *)
theory Network_Progress
  imports Network
begin

text \<open>
  Networks without faults do not deadlock: while PDUs keep to their limits, nothing is cancelled and no
  write fails, a receiver that has something to wait for can always be helped by a step of one of the
  two sessions, a step that is neither the client's nor a time-out.
\<close>

subsection \<open>What the receiver waits for\<close>

definition awaits_send :: "receive_pc \<Rightarrow> bool" where
  "awaits_send rpc \<longleftrightarrow>
     rpc \<in> {Recv_unbinding, Recv_enquiring, Recv_answering_enquire, Recv_answering_unbind}"

text \<open>A coroutine that waits for a send has just asked for it.\<close>

definition asks_first :: "receive_result \<Rightarrow> bool" where
  "asks_first r \<longleftrightarrow> (awaits_send (fst (snd r)) \<longrightarrow> (\<exists>cid n. fst r = Send_cmd cid n))"

lemma asks_first_simps [simp]:
  "asks_first (Send_cmd cid n, st)" "asks_first (Post, Recv_posted, op, s)"
  "asks_first (complete_with ec op s)" "asks_first (finish_unbind op s)"
  "asks_first (deliver_pdu op s)" "asks_first (start_read op s)"
  by (auto simp: asks_first_def awaits_send_def complete_with_def finish_unbind_def deliver_pdu_def
      start_read_def Let_def split: prod.splits sum.splits)

lemma receive_loop_asks: "receive_loop op s = Some r \<Longrightarrow> asks_first r"
proof (induction rule: receive_loop.raw_induct [rotated 1, consumes 1])
  case (1 loop op s r)
  show ?case using 1(2) 1(1) by (auto simp: Let_def split: if_splits prod.splits)
qed

lemma resume_asks:
  assumes "resume e (rpc, op, s) = Some r"
  shows "asks_first r"
  using assms
proof (rule resume_elims)
  fix bytes ec by_client op' s'
  assume "(rpc, op, s) = (Recv_reading, op', s')" "Some r = resume_read bytes ec by_client op' s'"
  then show ?thesis
    by (auto simp: resume_read_eq Let_def dest: receive_loop_asks [OF sym] split: if_splits prod.splits)
qed (auto simp: resume_unbinding_def resume_enquiring_def resume_answering_unbind_def resume_posted_def
    resume_answering_enquire_def split: if_splits dest: receive_loop_asks [OF sym])

subsection \<open>Networks without faults\<close>

fun calm :: "endpoint_label \<Rightarrow> bool" where
  "calm (E_send l) \<longleftrightarrow> clean_label l \<and> \<not> write_failed l"
| "calm _ \<longleftrightarrow> True"

inductive calm_network :: "network \<Rightarrow> bool" where
  calm_start: "calm_network (\<lambda>a. endpoint_init (session_new (interval a)))"
| calm_next: "calm_network net \<Longrightarrow> network_step net a l net' \<Longrightarrow> calm l \<Longrightarrow> calm_network net'"

lemma calm_network_reachable: "calm_network net \<Longrightarrow> network_reachable net"
  by (induction rule: calm_network.induct) (auto intro: network_reachable.intros)

definition calm_inv :: "endpoint \<Rightarrow> bool" where
  "calm_inv e \<longleftrightarrow> live (half e) \<and> \<not> broken e \<and>
     (awaits_send (recv_pc e) \<longrightarrow> (\<exists>i. recv_send e = Some i \<and> i < length (ops (half e))))"

lemma live_sess:
  "live sys \<Longrightarrow> send_side_kept (sess sys) s \<Longrightarrow> live (sys\<lparr>sess := s\<rparr>)"
  by (simp add: live_def send_side_kept_def woken_def)

lemma length_ops_initiate [simp]: "length (ops (initiate r sys)) = Suc (length (ops sys))"
  using arg_cong [OF initiate_keeps(2) [of r sys], of length] by simp

lemma calm_inv_apply_result:
  assumes inv: "calm_inv e" and kept: "send_side_kept (endpoint_session e) (snd (snd (snd r)))"
    and ask: "asks_first r"
  shows "calm_inv (apply_result r e)"
proof -
  obtain a rpc op s where r: "r = (a, rpc, op, s)" by (cases r) auto
  have live: "live ((half e)\<lparr>sess := s\<rparr>)" using inv kept live_sess by (simp add: calm_inv_def r)
  show ?thesis
  proof (cases "\<exists>cid n. a = Send_cmd cid n")
    case True
    then obtain cid n where a: "a = Send_cmd cid n" by blast
    then show ?thesis
      using inv live_initiate [OF live, of "Send_command cid n"] by (simp add: calm_inv_def apply_result_def r)
  next
    case False
    then have "\<not> awaits_send rpc" using ask by (simp add: asks_first_def r)
    then show ?thesis using inv live False
      by (cases a) (simp_all add: calm_inv_def apply_result_def r)
  qed
qed

lemma calm_inv_step:
  "endpoint_step e l e' \<Longrightarrow> calm l \<Longrightarrow> sends_inv e \<Longrightarrow> calm_inv e \<Longrightarrow> calm_inv e'"
proof (induction rule: endpoint_step.induct)
  case (endpoint_send e l sys)
  then have "live sys" using live_step by (auto simp: sends_inv_def calm_inv_def)
  moreover have "length (ops (half e)) \<le> length (ops sys)"
    using send_step_keeps [OF endpoint_send(1)] by (metis length_map length_append le_add1)
  ultimately show ?case using endpoint_send by (auto simp: calm_inv_def with_half_def)
next
  case (endpoint_transfer e i bytes k)
  then show ?case by (simp add: calm_inv_def)
next
  case (endpoint_receive e r)
  then show ?case
    using calm_inv_apply_result receive_loop_send_side receive_loop_asks by (simp add: async_receive_def)
next
  case (endpoint_event ev e r)
  have "calm_inv (e\<lparr>taken := taken e + length (arrived ev)\<rparr>)" using endpoint_event by (simp add: calm_inv_def)
  then show ?case
    using calm_inv_apply_result resume_send_side [OF endpoint_event(2)] resume_asks [OF endpoint_event(2)] by simp
qed

lemma calm_inv_init: "calm_inv (endpoint_init (session_new i))"
  by (simp add: calm_inv_def endpoint_init_def send_init_def live_def session_new_def awaits_send_def)

lemma calm_network_inv: "calm_network net \<Longrightarrow> calm_inv (net a)"
proof (induction arbitrary: a rule: calm_network.induct)
  case (calm_start interval)
  show ?case by (rule calm_inv_init)
next
  case (calm_next net b l net')
  obtain e where e: "endpoint_step (net b) l e" "net' = net(b := e)"
    using calm_next(2) by (auto elim!: network_step.cases)
  have "calm_inv e"
    by (rule calm_inv_step [OF e(1) calm_next(3)])
      (use calm_next network_sends_inv calm_network_reachable in blast)+
  then show ?case using calm_next e(2) by simp
qed

subsection \<open>Productive steps\<close>

text \<open>
  A step that moves something and needs no decision of a client: a woken operation resumes, octets are
  taken, a write completes, octets arrive, the receiver hears of its send or of its \<open>post\<close>.
\<close>

fun productive :: "endpoint \<Rightarrow> endpoint_label \<Rightarrow> bool" where
  "productive e (E_send (L_resume i)) = True"
| "productive e (E_send (L_written i ec)) = (ec = No_error)"
| "productive e (E_send _) = False"
| "productive e (E_transfer k) = (0 < k \<and> written e < length (send_buf (endpoint_session e)))"
| "productive e E_receive = False"
| "productive e (E_event (Read_done bytes ec by_client)) = (bytes \<noteq> [] \<and> ec = No_error)"
| "productive e (E_event _) = True"

lemma pending_send_progress:
  assumes inv: "sends_inv e" and calm: "calm_inv e" and i: "i < length (ops (half e))"
    and pending: "\<forall>ec n. pc (ops (half e) ! i) \<noteq> Completed ec n"
  shows "\<exists>l e'. endpoint_step e l e' \<and> productive e l \<and> (\<forall>ev. l \<noteq> E_event ev)"
proof -
  have h: "send_inv (half e)" "socket_inv e" "live (half e)" "\<not> broken e"
    using inv calm by (simp_all add: sends_inv_def calm_inv_def)
  have wr: ?thesis if w: "writing (half e) j" for j
  proof (cases "written e < length (send_buf (endpoint_session e))")
    case True
    then have "productive e (E_transfer 1)" by simp
    then show ?thesis using endpoint_transfer [OF w h(4) refl, of 1] by blast
  next
    case False
    then have full: "written e = length (send_buf (endpoint_session e))"
      using socket_invD(1) [OF h(2,4) w] by simp
    obtain n where "j < length (ops (half e))" "pc (ops (half e) ! j) = Writing n"
      using w by (auto simp: writing_def)
    from endpoint_send [OF step_written [OF this, of No_error]] full h(4)
    have "\<exists>e'. endpoint_step e (E_send (L_written j No_error)) e'" by auto
    then show ?thesis by (metis endpoint_label.distinct(5) productive.simps(2))
  qed
  have wk: ?thesis if w: "woken (half e) j" for j
  proof -
    have "\<exists>e'. endpoint_step e (E_send (L_resume j)) e'"
      using w endpoint_send [OF step_resume, of j e Operation_aborted] by (auto simp: woken_def)
    then show ?thesis by (metis endpoint_label.distinct(5) productive.simps(1))
  qed
  have "op_clean (ops (half e) ! i)" using h(3) i by (simp add: live_def)
  then consider "waiting (half e) i" | "woken (half e) i" | "writing (half e) i"
    using i pending by (cases "pc (ops (half e) ! i)") (auto simp: waiting_def woken_def writing_def op_clean_def)
  then show ?thesis
  proof cases
    case 1
    then have "send_cv (endpoint_session e) \<noteq> []" using send_invD(4) [OF h(1)] by auto
    then show ?thesis using h(3) wk wr unfolding live_def by blast
  qed (use wk wr in blast)+
qed

text \<open>The event the receiver waits for.\<close>

lemma event_progress:
  assumes flow: "flow_inv 131072 e (wire (half f)) (length (sent f)) k" and inv: "sends_inv f"
    and sf: "short_frames f" and ev: "expects (recv_pc e) ev" "event_possible ev e" "productive e (E_event ev)"
    and pre: "prefix (arrived ev) (drop (taken e) (sent f))"
  shows "\<exists>l e'. endpoint_step e l e' \<and> productive e l \<and>
           (\<forall>ev. l = E_event ev \<longrightarrow> prefix (arrived ev) (drop (taken e) (sent f)))"
proof -
  have "event_ok ev (recv_pc e, recv_op e, endpoint_session e)" using ev(2) by (cases ev) auto
  then obtain r where "resume ev (recv_pc e, recv_op e, endpoint_session e) = Some r"
    using flow_resume [OF flow whole_frames [OF inv sf] pre sent_prefix [OF inv] refl ev(1)] by blast
  from endpoint_event [OF ev(2) this] show ?thesis using ev(3) pre by blast
qed

text \<open>Octets on the wire that the socket has not taken belong to a pending write.\<close>

lemma unsent_progress:
  assumes inv: "sends_inv f" and calm: "calm_inv f" and "length (sent f) < length (concat (wire (half f)))"
  shows "\<exists>l f'. endpoint_step f l f' \<and> productive f l \<and> (\<forall>ev. l \<noteq> E_event ev)"
proof -
  have "\<not> broken f" "socket_inv f" using inv calm by (simp_all add: sends_inv_def calm_inv_def)
  then obtain i where "writing (half f) i" using assms(3) unfolding socket_inv_def by fastforce
  then show ?thesis using pending_send_progress [OF inv calm] by (fastforce simp: writing_def)
qed

lemma receiver_progress:
  assumes inv: "sends_inv e" "sends_inv f" and calm: "calm_inv e" "calm_inv f"
    and flow: "flow_inv 131072 e (wire (half f)) (length (sent f)) k"
    and fit: "\<forall>w \<in> set (wire (half f)). length w \<le> 131072"
    and active: "recv_pc e \<notin> {Recv_start, Recv_done}"
    and work: "recv_pc e = Recv_reading \<Longrightarrow> taken e < length (concat (wire (half f)))"
  shows "(\<exists>l e'. endpoint_step e l e' \<and> productive e l \<and>
            (\<forall>ev. l = E_event ev \<longrightarrow> prefix (arrived ev) (drop (taken e) (sent f)))) \<or>
         (\<exists>l f'. endpoint_step f l f' \<and> productive f l \<and> (\<forall>ev. l \<noteq> E_event ev))"
proof -
  have sf: "short_frames f" using fit by (force simp: short_frames_def list_all_iff)
  note go = event_progress [OF flow inv(2) sf]
  consider "recv_pc e = Recv_reading" | "recv_pc e = Recv_posted" | "awaits_send (recv_pc e)"
    using active by (cases "recv_pc e") (auto simp: awaits_send_def)
  then show ?thesis
  proof cases
    case 1
    show ?thesis
    proof (cases "taken e < length (sent f)")
      case True
      let ?ev = "Read_done [sent f ! taken e] No_error False"
      have "fb_out (receive_buf (endpoint_session e)) < fb_last (receive_buf (endpoint_session e))"
        by (rule flow_room [OF flow whole_frames [OF inv(2) sf] fit 1]) simp
      then have "event_possible ?ev e" by (simp add: 1)
      moreover have "prefix (arrived ?ev) (drop (taken e) (sent f))"
        using Cons_nth_drop_Suc [OF True] by (metis arrived.simps(1) append_Cons append_Nil prefixI)
      ultimately show ?thesis using go [of ?ev] 1 by simp
    next
      case False
      then show ?thesis using unsent_progress [OF inv(2) calm(2)] work [OF 1] flow by (simp add: flow_inv_def)
    qed
  next
    case 2
    then show ?thesis using go [of Posted] by simp
  next
    case 3
    then obtain i where i: "recv_send e = Some i" "i < length (ops (half e))"
      using calm(1) by (auto simp: calm_inv_def)
    show ?thesis
    proof (cases "\<exists>ec n. pc (ops (half e) ! i) = Completed ec n")
      case True
      then obtain ec n where "pc (ops (half e) ! i) = Completed ec n" by blast
      then have "event_possible (Sent ec) e" using i by auto
      then show ?thesis using go [of "Sent ec"] 3 by (auto simp: awaits_send_def)
    next
      case False
      then show ?thesis using pending_send_progress [OF inv(1) calm(1) i(2)] by blast
    qed
  qed
qed

end
