(* ===== verification/Network_Sample.thy ===== *)
theory Network_Sample
  imports Network_Progress Sample_Runs
begin

text \<open>
  A run of two sessions: one sends the sample response, the other receives it and waits for more. The
  properties of networks are instantiated on it.
\<close>

lemma wait_for_octets:
  assumes "receive_inv cap s" "\<not> complete_frame (received s)"
  shows "\<exists>off n op s'. async_receive s = Some (Read_some off n, Recv_reading, op, s') \<and>
           received s' = received s \<and> reading cap s' \<and> \<not> needs_more op \<and> \<not> needs_post op"
proof -
  obtain op where op: "async_receive s = Some (start_read op s)"
    using receive_loop_incomplete [OF assms(1) _ assms(2), of receive_op_new]
    by (auto simp: async_receive_def receive_op_new_def)
  then show ?thesis
    using start_read_effect [OF assms(1), of op] by (auto simp: reading_def)
qed

lemma read_whole_frame:
  assumes "reading cap s" "received s = []" "good_frame cap w" "\<not> needs_more op"
  shows "\<exists>op' s'. resume (Read_done w No_error False) (Recv_reading, op, s) = receive_loop op' s' \<and>
           receive_inv cap s' \<and> received s' = w \<and> \<not> needs_more op' \<and> needs_post op' = needs_post op \<and>
           complete_frame w"
proof -
  let ?op = "if w = [] then op else op\<lparr>pending_enquire_link := False\<rparr>"
  have inv: "receive_inv cap s" and fit: "length w \<le> fb_last (receive_buf s) - fb_out (receive_buf s)"
    using assms(1-3) by (simp_all add: reading_def good_frame_def)
  have "resume (Read_done w No_error False) (Recv_reading, op, s) = receive_loop ?op (store_received w s)"
    by (simp add: resume_read_eq Let_def)
  moreover have "complete_frame w" using assms(3) by (simp add: complete_frame_def good_frame_def)
  ultimately show ?thesis using store_received_effect [OF inv fit] assms(2,4) by fastforce
qed

lemma take_whole_frame:
  assumes "reading cap s" "received s = []" "good_frame cap w" "frame_header w = (len, cid, st, n)"
    and "\<not> session_command cid" "\<not> needs_more op" "\<not> needs_post op"
  shows "\<exists>op' s'. resume (Read_done w No_error False) (Recv_reading, op, s) =
             Some (Complete No_error (decode_pdu cid w) n st, Recv_done, op', s') \<and>
           received s' = [] \<and> receive_inv cap s'"
proof -
  obtain op1 s1 where r: "resume (Read_done w No_error False) (Recv_reading, op, s) = receive_loop op1 s1"
    and s1: "receive_inv cap s1" "received s1 = w" and op1: "\<not> needs_more op1" "\<not> needs_post op1"
    and c: "complete_frame w"
    using read_whole_frame [OF assms(1-3,6)] assms(7) by blast
  have "receive_loop op1 s1 = Some (deliver_pdu (with_header w op1) s1)"
    using receive_loop_complete [OF s1(1) op1(1), unfolded s1(2), OF c assms(4)] assms(5) op1(2)
    by (simp add: Let_def session_command_def)
  also have "deliver_pdu (with_header w op1) s1 =
      (Complete No_error (decode_pdu cid w) n st, Recv_done, with_header w op1, consume len s1)"
    using deliver_good_frame [OF s1(1) assms(3), of len cid st n op1] assms(4) by (simp add: s1(2))
  finally show ?thesis
    using r consume_effect [OF s1(1), of len] assms(3,4) by (simp add: s1(2) good_frame_def)
qed

text \<open>The steps.\<close>

abbreviation fresh_endpoint :: endpoint where
  "fresh_endpoint \<equiv> endpoint_init (session_new 60)"

definition sample_sender :: endpoint where
  "sample_sender =
     fresh_endpoint\<lparr>half := sample_system, sent := sample_frame, written := 19\<rparr>"

lemma sample_sender_steps:
  "endpoint_step fresh_endpoint (E_send (L_initiate sample_request))
     (fresh_endpoint\<lparr>half := sample_system\<rparr>)"
  "endpoint_step (fresh_endpoint\<lparr>half := sample_system\<rparr>) (E_transfer 19) sample_sender"
proof -
  have st: "send_step (half fresh_endpoint) (L_initiate sample_request) sample_system"
    unfolding sample_system_def endpoint_init_def using step_initiate [OF sample_request_ok(1)] by simp
  have "client_label (L_initiate sample_request)" by (simp add: sample_request_def)
  from endpoint_send [OF st this]
  show "endpoint_step fresh_endpoint (E_send (L_initiate sample_request)) (fresh_endpoint\<lparr>half := sample_system\<rparr>)"
    by (simp add: with_half_def endpoint_init_def sample_system_fields send_init_def)
  have w: "writing sample_system 0" by (simp add: writing_def sample_system_fields)
  show "endpoint_step (fresh_endpoint\<lparr>half := sample_system\<rparr>) (E_transfer 19) sample_sender"
    using endpoint_transfer [of "fresh_endpoint\<lparr>half := sample_system\<rparr>" 0 sample_frame 19] w
    by (simp add: sample_sender_def endpoint_init_def sample_system_fields sample_frame_length)
qed

lemma sample_sends_ok: "sends_ok sample_sender"
  by (simp add: sends_ok_def short_frames_def sample_sender_def sample_system_fields sample_frame_length
      list_all_length sample_request_ok)

lemma sample_log: "send_log sample_system log \<Longrightarrow> log = [(0, 7)]"
proof -
  assume log: "send_log sample_system log"
  then have "length log = 1" using arg_cong [of _ _ length]
    by (fastforce simp: send_log_def sample_system_fields)
  moreover have "op_logged log 0 (ops sample_system ! 0)"
    using log by (simp add: send_log_def sample_system_fields)
  then have "(0, 7) \<in> set log" by (simp add: op_logged_def sample_system_fields)
  ultimately show ?thesis by (cases log) auto
qed

text \<open>A session between operations, and one whose client waits for the next PDU.\<close>

definition idle_sends :: "endpoint \<Rightarrow> bool" where
  "idle_sends e \<longleftrightarrow> \<not> broken e \<and> send_buf (endpoint_session e) = [] \<and> send_cv (endpoint_session e) = []"

definition at_rest :: "endpoint \<Rightarrow> bool" where
  "at_rest e \<longleftrightarrow> idle_sends e \<and> recv_pc e \<in> {Recv_start, Recv_done} \<and>
     receive_inv 131072 (endpoint_session e) \<and> received (endpoint_session e) = []"

definition listening :: "endpoint \<Rightarrow> bool" where
  "listening e \<longleftrightarrow> idle_sends e \<and> recv_pc e = Recv_reading \<and>
     reading 131072 (endpoint_session e) \<and> received (endpoint_session e) = [] \<and>
     \<not> needs_more (recv_op e) \<and> \<not> needs_post (recv_op e)"

lemma fresh_at_rest: "at_rest fresh_endpoint"
  using session_new_empty [of 60]
  by (simp add: at_rest_def idle_sends_def endpoint_init_def send_init_def empty_session_def)
    (simp add: session_new_def)

lemma listens:
  assumes "at_rest e"
  shows "\<exists>e'. endpoint_step e E_receive e' \<and> listening e' \<and> sent e' = sent e \<and> taken e' = taken e \<and>
           outcomes e' = outcomes e \<and> ops (half e') = ops (half e)"
proof -
  let ?s = "endpoint_session e"
  have e: "receive_inv 131072 ?s" "received ?s = []" "recv_pc e \<in> {Recv_start, Recv_done}" "idle_sends e"
    using assms by (simp_all add: at_rest_def)
  have "\<not> complete_frame (received ?s)" by (simp add: e(2) complete_frame_def header_length_def)
  from wait_for_octets [OF e(1) this] obtain off k op s where
    r: "async_receive ?s = Some (Read_some off k, Recv_reading, op, s)"
    and s: "received s = []" "reading 131072 s" "\<not> needs_more op" "\<not> needs_post op"
    using e(2) by auto
  have "send_side_kept ?s s" using r receive_loop_send_side by (fastforce simp: async_receive_def)
  then have "listening (apply_result (Read_some off k, Recv_reading, op, s) e)"
    using e(4) s by (simp add: listening_def idle_sends_def apply_result_def send_side_kept_def)
  then show ?thesis using endpoint_receive [OF e(3) r] by (force simp: apply_result_def)
qed

lemma hears:
  assumes e: "listening e" and good: "good_frame 131072 w"
    and h: "frame_header w = (len, cid, st, n)" and sc: "\<not> session_command cid"
  shows "\<exists>e'. endpoint_step e (E_event (Read_done w No_error False)) e' \<and> at_rest e' \<and> sent e' = sent e \<and>
           taken e' = taken e + length w \<and> outcomes e' = outcomes e @ [Complete No_error (decode_pdu cid w) n st] \<and>
           ops (half e') = ops (half e)"
proof -
  let ?s = "endpoint_session e" and ?ev = "Read_done w No_error False"
  have l: "reading 131072 ?s" "received ?s = []" "recv_pc e = Recv_reading" "idle_sends e"
    "\<not> needs_more (recv_op e)" "\<not> needs_post (recv_op e)"
    using e by (simp_all add: listening_def)
  obtain op s where r: "resume ?ev (Recv_reading, recv_op e, ?s) =
      Some (Complete No_error (decode_pdu cid w) n st, Recv_done, op, s)"
    and s: "received s = []" "receive_inv 131072 s"
    using take_whole_frame [OF l(1,2) good h sc l(5,6)] by blast
  let ?r = "(Complete No_error (decode_pdu cid w) n st, Recv_done, op, s)"
  have "event_possible ?ev e" using l(1-3) good by (simp add: reading_def good_frame_def)
  from endpoint_event [OF this, of ?r] have st: "endpoint_step e (E_event ?ev)
      (apply_result ?r (e\<lparr>taken := taken e + length w\<rparr>))" using r l(3) by simp
  have "send_side_kept ?s s" using resume_send_side [OF r] by simp
  then have "at_rest (apply_result ?r (e\<lparr>taken := taken e + length w\<rparr>))"
    using l(4) s by (simp add: at_rest_def idle_sends_def apply_result_def send_side_kept_def)
  then show ?thesis using st by (force simp: apply_result_def)
qed

lemma sample_receiver_steps:
  "\<exists>b1 b2 b3. endpoint_step fresh_endpoint E_receive b1 \<and>
     endpoint_step b1 (E_event (Read_done sample_frame No_error False)) b2 \<and> recv_pc b1 = Recv_reading \<and> taken b1 = 0 \<and>
     endpoint_step b2 E_receive b3 \<and> recv_pc b3 = Recv_reading \<and> taken b3 = 19"
proof -
  have h: "frame_header sample_frame = (19, Command_id 0x80000004, Command_status 0, 7)" by code_simp
  have sc: "\<not> session_command (Command_id 0x80000004)"
    by (simp add: session_command_def command_id_defs enum_values)
  have good: "good_frame 131072 sample_frame" using sample_good_frame by simp
  obtain b1 where b1: "endpoint_step fresh_endpoint E_receive b1" "listening b1" "taken b1 = 0"
    using listens [OF fresh_at_rest] by (auto simp: endpoint_init_def)
  obtain b2 where b2: "endpoint_step b1 (E_event (Read_done sample_frame No_error False)) b2" "at_rest b2" "taken b2 = 19"
    using hears [OF b1(2) good h sc] b1(3) by (auto simp: sample_frame_length)
  obtain b3 where "endpoint_step b2 E_receive b3" "listening b3" "taken b3 = 19"
    using listens [OF b2(2)] b2(3) by auto
  then show ?thesis using b1 b2(1) by (fastforce simp: listening_def)
qed

definition connect :: "endpoint \<Rightarrow> endpoint \<Rightarrow> network" where
  "connect a b = (\<lambda>x. case x of Side_A \<Rightarrow> a | Side_B \<Rightarrow> b)"

lemma connect_simps [simp]: "connect a b Side_A = a" "connect a b Side_B = b"
  by (simp_all add: connect_def)

lemma connect_same: "connect a a = (\<lambda>x. a)"
  by (rule ext, rename_tac x, case_tac x; simp)

lemma connect_update:
  "(connect a b)(Side_A := a') = connect a' b" "(connect a b)(Side_B := b') = connect a b'"
  by (rule ext, rename_tac x, case_tac x; simp)+

lemma connect_moves:
  assumes "calm_network (connect a b)" "calm l"
  shows "endpoint_step a l a' \<Longrightarrow>
           (\<And>ev. l = E_event ev \<Longrightarrow> prefix (arrived ev) (drop (taken a) (sent b))) \<Longrightarrow> calm_network (connect a' b)"
    "endpoint_step b l b' \<Longrightarrow>
           (\<And>ev. l = E_event ev \<Longrightarrow> prefix (arrived ev) (drop (taken b) (sent a))) \<Longrightarrow> calm_network (connect a b')"
  using calm_next [OF assms(1) network_move assms(2), of Side_A a']
    calm_next [OF assms(1) network_move assms(2), of Side_B b']
  by (simp_all add: connect_update)

lemma sample_fits: "request_fits sample_request"
  by (simp add: sample_request_def sample_response_def submit_sm_resp_fits_def)

lemma sample_networks:
  "\<exists>net. calm_network net \<and> net Side_A = sample_sender \<and>
     recv_pc (net Side_B) = Recv_reading \<and> taken (net Side_B) = 0"
  "\<exists>net. network_reachable net \<and> net Side_A = sample_sender \<and>
     recv_pc (net Side_B) = Recv_reading \<and> taken (net Side_B) = 19"
proof -
  obtain b1 b2 b3 where b: "endpoint_step fresh_endpoint E_receive b1" "recv_pc b1 = Recv_reading" "taken b1 = 0"
    "endpoint_step b1 (E_event (Read_done sample_frame No_error False)) b2"
    "endpoint_step b2 E_receive b3" "recv_pc b3 = Recv_reading" "taken b3 = 19"
    using sample_receiver_steps by blast
  have n0: "calm_network (connect fresh_endpoint fresh_endpoint)"
    using calm_start [of "\<lambda>_. 60"] by (simp add: connect_same)
  have "calm_network (connect (fresh_endpoint\<lparr>half := sample_system\<rparr>) fresh_endpoint)"
    by (rule connect_moves(1) [OF n0 _ sample_sender_steps(1)]) (simp_all add: sample_fits)
  then have "calm_network (connect sample_sender fresh_endpoint)"
    by (rule connect_moves(1) [OF _ _ sample_sender_steps(2)]) simp_all
  then have n1: "calm_network (connect sample_sender b1)"
    by (rule connect_moves(2) [OF _ _ b(1)]) simp_all
  then show "\<exists>net. calm_network net \<and> net Side_A = sample_sender \<and>
      recv_pc (net Side_B) = Recv_reading \<and> taken (net Side_B) = 0"
    using b(2,3) by (intro exI [of _ "connect sample_sender b1"]) simp
  from n1 have "calm_network (connect sample_sender b2)"
    by (rule connect_moves(2) [OF _ _ b(4)]) (simp_all add: b(3) sample_sender_def)
  then have "calm_network (connect sample_sender b3)"
    by (rule connect_moves(2) [OF _ _ b(5)]) simp_all
  then have "network_reachable (connect sample_sender b3)" by (rule calm_network_reachable)
  then show "\<exists>net. network_reachable net \<and> net Side_A = sample_sender \<and>
      recv_pc (net Side_B) = Recv_reading \<and> taken (net Side_B) = 19"
    using b(6,7) by (intro exI [of _ "connect sample_sender b3"]) simp
qed

lemmas sample_network = sample_networks(2)

end
