(* ===== verification/Endpoint_Findings.thy ===== *)
theory Endpoint_Findings
  imports Network_Sample
begin

text \<open>
  What a lost wake-up does to a whole session: the receiver's answer to an \<open>enquire_link\<close> queues for
  the send buffer like any other frame, so that one PDU that does not serialize can leave it waiting
  for ever, with the buffer free and the connection idle.
\<close>

lemma answer_enquiry:
  assumes "reading cap s" "received s = []" "16 \<le> cap" "\<not> needs_more op"
  shows "\<exists>op' s'. resume (Read_done (header_octets 16 command_id_enquire_link n st) No_error False)
             (Recv_reading, op, s) =
           Some (Send_cmd command_id_enquire_link_resp n, Recv_answering_enquire, op', s')"
proof -
  let ?w = "header_octets 16 command_id_enquire_link n st"
  have h: "frame_header ?w = (16, command_id_enquire_link, st, n)" by (rule header_frame)
  have "length ?w = 16" by (simp add: header_octets_def u32_octets_def)
  then have "good_frame cap ?w" using assms(3) by (simp add: good_frame_def h header_length_def)
  from read_whole_frame [OF assms(1,2) this assms(4)] obtain op1 s1 where
    r: "resume (Read_done ?w No_error False) (Recv_reading, op, s) = receive_loop op1 s1"
    and s1: "receive_inv cap s1" "received s1 = ?w" "\<not> needs_more op1" "complete_frame ?w" by blast
  show ?thesis
    using receive_loop_complete [OF s1(1,3), unfolded s1(2), OF s1(4) h] r by (simp add: Let_def)
qed

text \<open>The send side of the run: a write in progress, a PDU that will not serialize, an answer.\<close>

lemma sample_system_ops:
  "ops sample_system = [\<lparr>request = sample_request, cancelled = False, pc = Writing 7\<rparr>]"
proof -
  obtain s' where "build_frame sample_request (session_new 60) = (Inr 7, s')"
    using sample_build_frame by blast
  moreover have "send_buf (session_new 60) = []" by (simp add: session_new_def)
  ultimately show ?thesis
    by (simp add: sample_system_def send_init_def initiate_def try_send_def set_op_def)
qed

lemma asleep_answer:
  fixes sys bad and n :: u32
  assumes sys: "ops sys = [\<lparr>request = sample_request, cancelled = False, pc = Writing 7\<rparr>,
      \<lparr>request = bad, cancelled = False, pc = Waiting\<rparr>]"
    and s: "send_buf (sess sys) \<noteq> []" "send_cv (sess sys) = [1]" and bad: "\<not> request_fits bad"
  defines "sys1 \<equiv> async_send_command command_id_enquire_link_resp n sys"
  defines "sys2 \<equiv> write_done 0 No_error 7 sys1"
  defines "sys3 \<equiv> resume_wait 1 Operation_aborted sys2"
  shows "wire sys3 = wire sys" "wire sys1 = wire sys" "send_buf (sess sys1) = send_buf (sess sys)"
    "length (ops sys1) = 3" "pc (ops sys1 ! 0) = Writing 7"
    "length (ops sys2) = 3" "pc (ops sys2 ! 1) = Woken Operation_aborted"
    "send_buf (sess sys3) = []" "asleep sys3" "wire sys2 = wire sys"
    "length (ops sys3) = 3" "pc (ops sys3 ! 2) = Waiting"
proof -
  obtain e where e: "\<And>s. build_frame bad s = (Inl e, s\<lparr>send_buf := []\<rparr>)"
    using build_frame_not_fits [OF bad] by blast
  note defs = sys1_def sys2_def sys3_def send_eval sys s e sample_request_def
  show "wire sys3 = wire sys" "wire sys1 = wire sys" "send_buf (sess sys1) = send_buf (sess sys)"
    "length (ops sys1) = 3" "pc (ops sys1 ! 0) = Writing 7"
    "length (ops sys2) = 3" "pc (ops sys2 ! 1) = Woken Operation_aborted"
    "send_buf (sess sys3) = []" "asleep sys3" "wire sys2 = wire sys"
    "length (ops sys3) = 3" "pc (ops sys3 ! 2) = Waiting"
    by (simp_all add: defs asleep_def)
qed

lemma initiate_behind_sample:
  "ops (initiate bad sample_system) =
     [\<lparr>request = sample_request, cancelled = False, pc = Writing 7\<rparr>,
      \<lparr>request = bad, cancelled = False, pc = Waiting\<rparr>]"
  "send_buf (sess (initiate bad sample_system)) = sample_frame"
  "send_cv (sess (initiate bad sample_system)) = [1]"
  "wire (initiate bad sample_system) = [sample_frame]"
  "receive_buf (sess (initiate bad sample_system)) = receive_buf (session_new 60)"
proof -
  have n: "sample_frame \<noteq> []" by (simp add: sample_frame_def)
  have b: "receive_buf (sess sample_system) = receive_buf (session_new 60)"
    by (simp add: sample_system_def initiate_keeps send_init_def)
  have "send_cv (sess sample_system) = []"
  proof -
    have "\<not> waiting sample_system i" for i by (simp add: waiting_def sample_system_ops nth_Cons')
    moreover have "set (send_cv (sess sample_system)) = {i. waiting sample_system i}"
      by (rule send_invD(4) [OF reachable_send_inv [OF sample_reachable]])
    ultimately have "set (send_cv (sess sample_system)) = {}" by simp
    then show ?thesis by simp
  qed
  then show "ops (initiate bad sample_system) =
     [\<lparr>request = sample_request, cancelled = False, pc = Writing 7\<rparr>,
      \<lparr>request = bad, cancelled = False, pc = Waiting\<rparr>]"
    "send_cv (sess (initiate bad sample_system)) = [1]"
    "send_buf (sess (initiate bad sample_system)) = sample_frame"
    "wire (initiate bad sample_system) = [sample_frame]"
    "receive_buf (sess (initiate bad sample_system)) = receive_buf (session_new 60)"
    by (simp_all add: initiate_def try_send_def set_op_def sample_system_ops sample_system_fields n b)
qed

text \<open>The receiver's side: it waits, an \<open>enquire_link\<close> arrives, and its answer is initiated.\<close>

lemma enquiry_reaches_receiver:
  assumes e: "recv_pc e = Recv_start" "receive_buf (endpoint_session e) = receive_buf (session_new 60)"
  shows "\<exists>e1 e2 s op. endpoint_step e E_receive e1 \<and>
     endpoint_step e1 (E_event (Read_done (header_octets 16 command_id_enquire_link n st) No_error False)) e2 \<and>
     send_side_kept (endpoint_session e) s \<and>
     e2 = apply_result (Send_cmd command_id_enquire_link_resp n, Recv_answering_enquire, op, s) (e\<lparr>taken := taken e + 16\<rparr>)"
proof -
  let ?w = "header_octets 16 command_id_enquire_link n st"
  have new: "receive_inv 131072 (endpoint_session e)" "received (endpoint_session e) = []"
    using session_new_empty [of 60] by (simp_all add: empty_session_def receive_inv_def received_def e(2))
  obtain off k op s where r1: "async_receive (endpoint_session e) = Some (Read_some off k, Recv_reading, op, s)"
    and s: "received s = []" "reading 131072 s" and op: "\<not> needs_more op"
    using wait_for_octets [OF new(1)] new(2) by (auto simp: complete_frame_def header_length_def)
  obtain op' s' where r2: "resume (Read_done ?w No_error False) (Recv_reading, op, s) =
      Some (Send_cmd command_id_enquire_link_resp n, Recv_answering_enquire, op', s')"
    using answer_enquiry [OF s(2,1) _ op, of n st] by (auto simp del: resume.simps)
  have len: "length ?w = 16" by (simp add: header_octets_def u32_octets_def)
  let ?e1 = "apply_result (Read_some off k, Recv_reading, op, s) e"
  have e1: "recv_pc ?e1 = Recv_reading" "recv_op ?e1 = op" "endpoint_session ?e1 = s"
    by (simp_all add: apply_result_def)
  have st1: "endpoint_step e E_receive ?e1" using r1 e(1) by (intro endpoint_receive) simp_all
  have "event_possible (Read_done ?w No_error False) ?e1"
    using s len by (simp add: e1 reading_def del: resume.simps)
  from endpoint_event [OF this] r2
  have st2: "endpoint_step ?e1 (E_event (Read_done ?w No_error False))
      (apply_result (Send_cmd command_id_enquire_link_resp n, Recv_answering_enquire, op', s')
        (?e1\<lparr>taken := taken ?e1 + 16\<rparr>))"
    by (simp add: e1 len del: resume.simps)
  have "send_side_kept (endpoint_session e) s'"
    using send_side_kept_trans receive_loop_send_side [OF r1 [unfolded async_receive_def]] resume_send_side [OF r2]
    by simp
  moreover have "apply_result (Send_cmd command_id_enquire_link_resp n, Recv_answering_enquire, op', s')
        (?e1\<lparr>taken := taken ?e1 + 16\<rparr>) =
      apply_result (Send_cmd command_id_enquire_link_resp n, Recv_answering_enquire, op', s')
        (e\<lparr>taken := taken e + 16\<rparr>)"
    by (simp add: apply_result_def with_half_def)
  ultimately show ?thesis using st1 st2 by metis
qed

text \<open>
  The whole run: a response is being written, a PDU that will not serialize queues behind it, an
  \<open>enquire_link\<close> arrives, the write completes and the bad PDU is woken.
\<close>

definition silenced :: "endpoint \<Rightarrow> bool" where
  "silenced e \<longleftrightarrow>
     recv_pc e = Recv_answering_enquire \<and> send_buf (endpoint_session e) = [] \<and> asleep (half e) \<and>
     \<not> broken e \<and> sent e = concat (wire (half e)) \<and>
     (\<exists>i. recv_send e = Some i \<and> pc (ops (half e) ! i) = Waiting)"

lemma bad_send_step:
  assumes bad: "admissible_request bad" "\<not> request_fits bad"
  shows "endpoint_step sample_sender (E_send (L_initiate bad))
           (sample_sender\<lparr>half := initiate bad sample_system\<rparr>)"
proof -
  have "client_label (L_initiate bad)" using bad(2) by (cases bad) simp_all
  from endpoint_send [of sample_sender, OF step_initiate [OF bad(1)] this] show ?thesis
    by (simp add: with_half_def sample_sender_def endpoint_init_def initiate_behind_sample sample_system_fields)
qed

lemma silenced_reachable:
  assumes bad: "admissible_request bad" "\<not> request_fits bad"
  shows "\<exists>e. endpoint_reachable e \<and> silenced e"
proof -
  let ?n = "1 :: u32" and ?resp = "Send_cmd command_id_enquire_link_resp 1"
  note sample = initiate_behind_sample [of bad]
  have r0: "endpoint_reachable sample_sender"
    using endpoint_start [of 60] sample_sender_steps by (blast intro: endpoint_next)
  define e1 where "e1 = sample_sender\<lparr>half := initiate bad sample_system\<rparr>"
  have e1: "half e1 = initiate bad sample_system" "recv_pc e1 = Recv_start" "written e1 = 19"
    "\<not> broken e1" "sent e1 = sample_frame"
    by (simp_all add: e1_def sample_sender_def endpoint_init_def)
  have r1: "endpoint_reachable e1" unfolding e1_def by (rule endpoint_next [OF r0 bad_send_step [OF bad]])
  obtain a b s op where ab: "endpoint_step e1 E_receive a"
    "endpoint_step a (E_event (Read_done (header_octets 16 command_id_enquire_link ?n command_status_rok) No_error False)) b"
    and s: "send_side_kept (endpoint_session e1) s"
    and b: "b = apply_result (?resp, Recv_answering_enquire, op, s) (e1\<lparr>taken := taken e1 + 16\<rparr>)"
    using enquiry_reaches_receiver [of e1 ?n command_status_rok] e1 sample(5) by auto
  have r3: "endpoint_reachable b" using r1 ab by (blast intro: endpoint_next)
  define sys where "sys = (half e1)\<lparr>sess := s\<rparr>"
  have sys: "ops sys = [\<lparr>request = sample_request, cancelled = False, pc = Writing 7\<rparr>,
      \<lparr>request = bad, cancelled = False, pc = Waiting\<rparr>]" "wire sys = [sample_frame]"
    "send_buf (sess sys) \<noteq> []" "send_buf (sess sys) = sample_frame" "send_cv (sess sys) = [1]"
    using s sample by (simp_all add: sys_def e1 send_side_kept_def) (simp add: sample_frame_def)
  note asl = asleep_answer [OF sys(1,3,5) bad(2), of ?n]
  let ?sys1 = "async_send_command command_id_enquire_link_resp ?n sys"
  let ?sys2 = "write_done 0 No_error 7 ?sys1"
  let ?sys3 = "resume_wait 1 Operation_aborted ?sys2"
  have hb: "half b = ?sys1" "recv_pc b = Recv_answering_enquire" "recv_send b = Some 2" "written b = 19"
    "\<not> broken b" "sent b = sample_frame"
    using asl(2) sys(1,2) by (simp_all add: b apply_result_def sys_def e1 with_half_def)
  have same: "b\<lparr>half := x, written := 19, broken := False\<rparr> = b\<lparr>half := x\<rparr>" for x
    by (rule endpoint.equality) (use hb(4,5) in simp_all)
  have "send_step (half b) (L_written 0 No_error) ?sys2"
    unfolding hb(1) by (rule step_written) (use asl(4,5) in simp_all)
  from endpoint_send [OF this] have st4: "endpoint_step b (E_send (L_written 0 No_error)) (b\<lparr>half := ?sys2\<rparr>)"
    using hb(1,4,5) asl(2,3,10) sys(4) sample_frame_length same by (simp add: with_half_def del: async_send_defs)
  have "send_step (half (b\<lparr>half := ?sys2\<rparr>)) (L_resume 1) ?sys3"
    using step_resume [of 1 ?sys2 Operation_aborted] asl(6,7) by simp
  from endpoint_send [OF this] have "endpoint_step (b\<lparr>half := ?sys2\<rparr>) (E_send (L_resume 1)) (b\<lparr>half := ?sys3\<rparr>)"
    using hb(4,5) asl(1,10) by (simp add: with_half_def same del: async_send_defs)
  then have "endpoint_reachable (b\<lparr>half := ?sys3\<rparr>)" using r3 st4 by (blast intro: endpoint_next)
  moreover have "silenced (b\<lparr>half := ?sys3\<rparr>)"
    using hb asl(1,8,9,12) sys(2) by (simp add: silenced_def del: async_send_defs)
  ultimately show ?thesis by blast
qed

text \<open>Nothing but a further call of the client gets such a session out of it.\<close>

lemma silenced_no_step:
  assumes st: "endpoint_step e l e'" and e: "silenced e"
  shows "(\<exists>r. l = E_send (L_initiate r)) \<or> l = E_send L_unbind \<or> (\<exists>i. l = E_send (L_cancel i))"
  using st
proof (cases rule: endpoint_step.cases)
  case (endpoint_send l sys)
  then show ?thesis using asleep_no_step [of "half e"] e by (fastforce simp: silenced_def)
next
  case (endpoint_transfer i bytes k)
  then show ?thesis using asleepD [of "half e" i] e by (auto simp: silenced_def writing_def)
next
  case (endpoint_receive r)
  then show ?thesis using e by (simp add: silenced_def)
next
  case (endpoint_event ev r)
  have "expects (recv_pc e) ev" using resume_expected endpoint_event by blast
  then show ?thesis using endpoint_event e by (cases ev) (auto simp: silenced_def)
qed

end
