(* ===== verification/Example_Programs.thy ===== *)
theory Example_Programs
  imports Session_Send
begin

text \<open>
  The two programs under \<open>src/example/\<close>: the coroutines \<open>client\<close> (\<open>client.cpp\<close>) and \<open>handle_session\<close>
  (\<open>server.cpp\<close>). A coroutine is the \<open>co_await\<close> it is suspended at; \<open>client_resume\<close> and \<open>server_resume\<close>
  run it with what the awaited operation completed with, up to the next \<open>co_await\<close>: the octets it
  writes to \<open>std::cout\<close>, the new point, and the operation it starts. An operation that completes with an
  error throws \<open>system_error\<close>; \<open>get\<close> on another alternative throws \<open>bad_variant_access\<close>, after what stands
  before it in the output expression has been written. Nothing in the coroutines catches.
\<close>

definition chars :: "string \<Rightarrow> octets" where
  "chars = map of_char"

definition line :: "octets \<Rightarrow> octets" where
  "line s = s @ [10]"

text \<open>\<open>std::to_string\<close> on what the client passes it.\<close>

fun to_string :: "nat \<Rightarrow> octets" where
  "to_string n = (if n < 10 then [48 + of_nat n] else to_string (n div 10) @ [48 + of_nat (n mod 10)])"

declare to_string.simps [simp del]

datatype app_error = System_error error_code | Bad_variant_access

datatype app_event =
  Completed_with error_code
| Received error_code pdu_variant u32 command_status

fun event_error :: "app_event \<Rightarrow> error_code" where
  "event_error (Completed_with ec) = ec"
| "event_error (Received ec _ _ _) = ec"

text \<open>The operation awaited next; \<open>Async_other\<close> is no operation of a session (connect, accept, timer).\<close>

datatype app_action =
  Async_other
| Async_send pdu_variant
| Async_respond pdu_variant u32 command_status
| Async_receive
| Async_unbind
| No_more

subsection \<open>\<open>client.cpp\<close>\<close>

datatype client_point =
  Client_connecting
| Client_binding
| Client_bound
| Client_submitting nat
| Client_submitted nat
| Client_pausing nat
| Client_unbinding
| Client_leaving
| Client_returned
| Client_threw app_error

definition client_bind :: pdu_variant where
  "client_bind = Pdu_bind_transceiver (bind_transceiver_default\<lparr>bind_transceiver.system_id := chars ''client_01''\<rparr>)"

definition client_submit :: "nat \<Rightarrow> pdu_variant" where
  "client_submit i = Pdu_submit_sm (submit_sm_default\<lparr>submit_sm.dest_addr := to_string (1000 + i)\<rparr>)"

text \<open>The head of the \<open>for\<close> loop, and what follows it.\<close>

definition client_loop :: "nat \<Rightarrow> octets \<times> client_point \<times> app_action" where
  "client_loop i =
     (if i < 3
      then (line (chars ''Sending submit_sm...''), Client_submitting i, Async_send (client_submit i))
      else (line (chars ''Unbinding session...''), Client_unbinding, Async_unbind))"

fun client_continue :: "client_point \<Rightarrow> app_event \<Rightarrow> octets \<times> client_point \<times> app_action" where
  "client_continue Client_connecting ev =
     (line (chars ''Sending bind_transceiver...''), Client_binding, Async_send client_bind)"
| "client_continue Client_binding ev = ([], Client_bound, Async_receive)"
| "client_continue Client_bound ev =
     (case ev of
        Received _ (Pdu_bind_transceiver_resp pdu) _ _ \<Rightarrow>
          (case client_loop 0 of (out, p, act) \<Rightarrow>
             (line (chars ''bind_transceiver_resp, system_id: '' @ bind_transceiver_resp.system_id pdu) @ out, p, act))
      | _ \<Rightarrow> (chars ''bind_transceiver_resp, system_id: '', Client_threw Bad_variant_access, No_more))"
| "client_continue (Client_submitting i) ev = ([], Client_submitted i, Async_receive)"
| "client_continue (Client_submitted i) ev =
     (case ev of
        Received _ (Pdu_submit_sm_resp pdu) _ _ \<Rightarrow>
          (line (chars ''submit_sm_resp, message_id: '' @ submit_sm_resp.message_id pdu), Client_pausing i, Async_other)
      | _ \<Rightarrow> (chars ''submit_sm_resp, message_id: '', Client_threw Bad_variant_access, No_more))"
| "client_continue (Client_pausing i) ev = client_loop (Suc i)"
| "client_continue Client_unbinding ev = ([], Client_leaving, Async_receive)"
| "client_continue Client_leaving ev = ([], Client_returned, No_more)"
| "client_continue p ev = ([], p, No_more)"

definition client_resume :: "client_point \<Rightarrow> app_event \<Rightarrow> octets \<times> client_point \<times> app_action" where
  "client_resume p ev =
     (if failed (event_error ev) then ([], Client_threw (System_error (event_error ev)), No_more)
      else client_continue p ev)"

text \<open>
  What \<open>main\<close> writes to \<open>std::cerr\<close> when the coroutine has ended; \<open>what_text\<close> is the text of the exception,
  which the standard library and Boost.System make.
\<close>

definition client_main :: "(app_error \<Rightarrow> octets) \<Rightarrow> client_point \<Rightarrow> octets" where
  "client_main what_text p =
     (case p of Client_threw e \<Rightarrow> line (chars ''Exception: '' @ what_text e) | _ \<Rightarrow> [])"

subsection \<open>\<open>server.cpp\<close>\<close>

text \<open>\<open>Server_accepting\<close>: in \<open>async_accept\<close>, whose completion spawns \<open>handle_session\<close>.\<close>

datatype server_point =
  Server_accepting
| Server_awaiting_bind
| Server_binding
| Server_awaiting_submit
| Server_submitting
| Server_threw app_error

definition server_bind_resp :: pdu_variant where
  "server_bind_resp =
     Pdu_bind_transceiver_resp (bind_transceiver_resp_default\<lparr>bind_transceiver_resp.system_id := chars ''server_01''\<rparr>)"

definition server_submit_resp :: pdu_variant where
  "server_submit_resp = Pdu_submit_sm_resp (submit_sm_resp_default\<lparr>submit_sm_resp.message_id := chars ''123''\<rparr>)"

fun server_continue :: "server_point \<Rightarrow> app_event \<Rightarrow> octets \<times> server_point \<times> app_action" where
  "server_continue Server_accepting ev =
     (line (chars ''Waiting for bind request...''), Server_awaiting_bind, Async_receive)"
| "server_continue Server_awaiting_bind ev =
     (case ev of
        Received _ (Pdu_bind_transceiver pdu) seq_num _ \<Rightarrow>
          (line (chars ''bind_transceiver, system_id: '' @ bind_transceiver.system_id pdu)
             @ line (chars ''Sending bind_transceiver_resp...''),
           Server_binding, Async_respond server_bind_resp seq_num command_status_rok)
      | _ \<Rightarrow> (chars ''bind_transceiver, system_id: '', Server_threw Bad_variant_access, No_more))"
| "server_continue Server_binding ev = ([], Server_awaiting_submit, Async_receive)"
| "server_continue Server_awaiting_submit ev =
     (case ev of
        Received _ (Pdu_submit_sm pdu) seq_num _ \<Rightarrow>
          (line (chars ''submit_sm, dest_addr: '' @ submit_sm.dest_addr pdu)
             @ line (chars ''Sending submit_sm_resp...''),
           Server_submitting, Async_respond server_submit_resp seq_num command_status_rok)
      | _ \<Rightarrow> (chars ''submit_sm, dest_addr: '', Server_threw Bad_variant_access, No_more))"
| "server_continue Server_submitting ev = ([], Server_awaiting_submit, Async_receive)"
| "server_continue p ev = ([], p, No_more)"

definition server_resume :: "server_point \<Rightarrow> app_event \<Rightarrow> octets \<times> server_point \<times> app_action" where
  "server_resume p ev =
     (if failed (event_error ev) then ([], Server_threw (System_error (event_error ev)), No_more)
      else server_continue p ev)"

end
