(* ===== verification/Send_Order.thy ===== *)
theory Send_Order
  imports Network
begin

text \<open>
  A client that awaits each send before it starts the next. Sends may overtake each other in general;
  but while at most the last PDU a session was given is not yet on the wire, the PDUs go out in the
  order of the calls, whatever session commands of the receiver come in between, and the other side's
  client receives them in that order.
\<close>

subsection \<open>The PDUs of a session, by call and by frame\<close>

fun is_pdu :: "send_request \<Rightarrow> bool" where
  "is_pdu (Send_command _ _) = False"
| "is_pdu _ = True"

abbreviation requests :: "send_system \<Rightarrow> send_request list" where
  "requests sys \<equiv> map request (ops sys)"

definition pdu_calls :: "send_request list \<Rightarrow> nat list" where
  "pdu_calls rs = filter (\<lambda>i. is_pdu (rs ! i)) [0..<length rs]"

definition pdu_frames :: "send_request list \<Rightarrow> (nat \<times> u32) list \<Rightarrow> nat list" where
  "pdu_frames rs log = filter (\<lambda>i. is_pdu (rs ! i)) (map fst log)"

lemma pdu_calls_append:
  "pdu_calls (rs @ [r]) = pdu_calls rs @ (if is_pdu r then [length rs] else [])"
proof -
  have "filter (\<lambda>i. is_pdu ((rs @ [r]) ! i)) [0..<length rs] = filter (\<lambda>i. is_pdu (rs ! i)) [0..<length rs]"
    by (rule filter_cong) (simp_all add: nth_append)
  then show ?thesis by (simp add: pdu_calls_def)
qed

lemma pdu_calls_commands: "list_all (\<lambda>r. \<not> is_pdu r) new \<Longrightarrow> pdu_calls (rs @ new) = pdu_calls rs"
proof (induction new rule: rev_induct)
  case (snoc r new)
  then show ?case using pdu_calls_append [of "rs @ new" r] by simp
qed simp

lemma pdu_frames_cong:
  "\<forall>(i, n) \<in> set log. i < length rs \<Longrightarrow> pdu_frames (rs @ new) log = pdu_frames rs log"
  unfolding pdu_frames_def by (rule filter_cong) (auto simp: nth_append)

lemma pdu_calls_requests: "map (nth rs) (pdu_calls rs) = filter is_pdu rs"
proof (induction rs rule: rev_induct)
  case (snoc r rs)
  have "map (nth (rs @ [r])) (pdu_calls rs) = map (nth rs) (pdu_calls rs)"
    by (rule map_cong) (auto simp: pdu_calls_def nth_append)
  then show ?case using snoc by (simp add: pdu_calls_append)
qed (simp add: pdu_calls_def)

lemma distinct_pdu_calls: "distinct (pdu_calls rs)"
  by (simp add: pdu_calls_def)

subsection \<open>In order but for the last\<close>

definition in_order :: "send_system \<Rightarrow> nat list \<Rightarrow> bool" where
  "in_order sys pending \<longleftrightarrow>
     (\<exists>log. send_log sys log \<and> pdu_calls (requests sys) = pdu_frames (requests sys) log @ pending \<and>
        length pending \<le> 1)"

lemma in_order_sess [simp]: "in_order (sys\<lparr>sess := s\<rparr>) pending = in_order sys pending"
  by (simp add: in_order_def)

text \<open>A frame that goes on the wire is a session command's, or the pending PDU's.\<close>

lemma in_order_frame:
  assumes calls: "pdu_calls (requests sys) = pdu_frames (requests sys) log @ pending" "length pending \<le> 1"
    and log': "send_log sys log'" "log_grows log log'"
  shows "in_order sys pending \<or> in_order sys []"
proof (cases "log' = log")
  case True
  then show ?thesis using calls log'(1) by (auto simp: in_order_def)
next
  case False
  then obtain j n where l: "log' = log @ [(j, n)]" using log'(2) by (auto simp: log_grows_def)
  have j: "j < length (requests sys)" "j \<notin> set (map fst log)"
    using log'(1) by (auto simp: l send_log_def)
  show ?thesis
  proof (cases "is_pdu (requests sys ! j)")
    case False
    then have "pdu_frames (requests sys) log' = pdu_frames (requests sys) log" by (simp add: pdu_frames_def l)
    then show ?thesis using calls log'(1) by (auto simp: in_order_def)
  next
    case True
    then have "j \<in> set (pdu_calls (requests sys))" using j(1) by (simp add: pdu_calls_def)
    then have "j \<in> set pending" using calls(1) j(2) by (auto simp: pdu_frames_def)
    then have "pending = [j]" using calls(2) by (cases pending) auto
    then have "pdu_calls (requests sys) = pdu_frames (requests sys) log' @ []"
      using calls(1) True by (simp add: pdu_frames_def l)
    then show ?thesis using log'(1) unfolding in_order_def by (intro disjI2 exI [of _ log']) simp
  qed
qed

lemma send_log_ids: "send_log sys log \<Longrightarrow> \<forall>(i, n) \<in> set log. i < length (requests sys)"
  by (auto simp: send_log_def)

text \<open>A step that starts no PDU.\<close>

lemma in_order_step:
  assumes st: "send_step sys l sys'" and inv: "send_inv sys" and ord: "in_order sys pending"
    and new: "requests sys' = requests sys @ new" "list_all (\<lambda>r. \<not> is_pdu r) new"
  shows "in_order sys' pending \<or> in_order sys' []"
proof -
  obtain log where log: "send_log sys log" "pdu_calls (requests sys) = pdu_frames (requests sys) log @ pending"
    "length pending \<le> 1"
    using ord by (auto simp: in_order_def)
  obtain log' where log': "send_log sys' log'" "log_grows log log'"
    using send_log_step [OF st inv log(1)] by blast
  have "pdu_calls (requests sys') = pdu_frames (requests sys') log @ pending"
    using log(2) pdu_calls_commands [OF new(2)] pdu_frames_cong [OF send_log_ids [OF log(1)]] by (simp add: new(1))
  from in_order_frame [OF this log(3) log'] show ?thesis .
qed

text \<open>The receiver starts a session command.\<close>

lemma in_order_command:
  assumes ord: "in_order sys pending" and inv: "send_inv sys" and r: "\<not> is_pdu r"
  shows "in_order (initiate r sys) pending \<or> in_order (initiate r sys) []"
proof -
  have "admissible_request r" using r by (cases r) simp_all
  from in_order_step [OF step_initiate [OF this] inv ord initiate_keeps(2)] r show ?thesis by simp
qed

text \<open>A PDU is started while all others are on the wire.\<close>

lemma in_order_call:
  assumes ord: "in_order sys []" and r: "is_pdu r"
  shows "in_order (initiate r sys) [length (ops sys)] \<or> in_order (initiate r sys) []"
proof -
  obtain log where log: "send_log sys log" "pdu_calls (requests sys) = pdu_frames (requests sys) log"
    using ord by (auto simp: in_order_def)
  obtain log' where log': "send_log (initiate r sys) log'" "log_grows log log'"
    using send_log_initiate [OF log(1)] by blast
  have "pdu_calls (requests (initiate r sys)) = pdu_frames (requests (initiate r sys)) log @ [length (ops sys)]"
    using log(2) r pdu_frames_cong [OF send_log_ids [OF log(1)]] by (simp add: initiate_keeps pdu_calls_append)
  from in_order_frame [OF this _ log'] show ?thesis by simp
qed

text \<open>A PDU whose send has completed without error is not pending.\<close>

lemma in_order_completed:
  assumes ord: "in_order sys [i]" and i: "pc (ops sys ! i) = Completed ec n" "\<not> failed ec"
  shows False
proof -
  obtain log where log: "send_log sys log" "pdu_calls (requests sys) = pdu_frames (requests sys) log @ [i]"
    using ord by (auto simp: in_order_def)
  then have "i \<in> set (pdu_calls (requests sys))" by simp
  then have "i < length (ops sys) \<and> is_pdu (requests sys ! i)" by (auto simp: pdu_calls_def)
  then have "i < length (ops sys)" "is_pdu (requests sys ! i)" by blast+
  moreover from this(1) have "op_logged log i (ops sys ! i)" using log(1) by (simp add: send_log_def)
  then have "i \<in> fst ` set log" using i by (force simp: op_logged_def)
  ultimately have "i \<in> set (pdu_frames (requests sys) log)" by (auto simp: pdu_frames_def)
  then show False using distinct_pdu_calls [of "requests sys"] log(2) by simp
qed

subsection \<open>What the other side receives\<close>

fun delivered_as :: "send_request \<Rightarrow> pdu_variant \<times> u32 \<times> command_status \<Rightarrow> bool" where
  "delivered_as (Send_request pdu) (pdu', n, st) \<longleftrightarrow> pdu' = pdu \<and> st = command_status_rok"
| "delivered_as (Send_response pdu n st) (pdu', n', st') \<longleftrightarrow> pdu' = pdu \<and> n' = n \<and> st' = st"
| "delivered_as (Send_command _ _) _ \<longleftrightarrow> False"

lemma log_deliveries:
  assumes "\<forall>(i, n) \<in> set log. own_number (rs ! i) n"
  shows "list_all2 delivered_as (map (nth rs) (pdu_frames rs log))
           (concat (map (\<lambda>(i, n). request_delivery (rs ! i) n) log))"
  using assms
proof (induction log)
  case (Cons entry log)
  obtain i n where e: "entry = (i, n)" by (cases entry)
  have "list_all2 delivered_as (if is_pdu (rs ! i) then [rs ! i] else []) (request_delivery (rs ! i) n)"
    using Cons.prems by (cases "rs ! i") (auto simp: e own_number_def)
  moreover have "list_all2 delivered_as (map (nth rs) (pdu_frames rs log))
      (concat (map (\<lambda>(i, n). request_delivery (rs ! i) n) log))" using Cons by simp
  moreover have "map (nth rs) (pdu_frames rs (entry # log)) =
      (if is_pdu (rs ! i) then [rs ! i] else []) @ map (nth rs) (pdu_frames rs log)"
    by (simp add: e pdu_frames_def)
  ultimately show ?case by (simp add: e list_all2_appendI)
qed (simp add: pdu_frames_def)

lemma in_order_deliveries:
  assumes net: "network_reachable net" "sends_ok (net (peer a))"
    and ord: "in_order (half (net (peer a))) pending"
  shows "\<exists>m. list_all2 delivered_as (take m (filter is_pdu (requests (half (net (peer a)))))) (client_deliveries (net a))"
proof -
  let ?sys = "half (net (peer a))"
  obtain log where log: "send_log ?sys log" "pdu_calls (requests ?sys) = pdu_frames (requests ?sys) log @ pending"
    using ord by (auto simp: in_order_def)
  have ok: "short_frames (net (peer a))" "list_all request_ok (requests ?sys)"
    using net(2) by (simp_all add: sends_ok_def)
  obtain k where "flow_inv 131072 (net a) (wire ?sys) (length (sent (net (peer a)))) k"
    using network_flow [OF net(1) ok(1)] .
  moreover obtain log0 where "list_all command_kept (requests ?sys)" using network_log [OF net(1)] by blast
  ultimately have d: "client_deliveries (net a) =
      concat (map (\<lambda>(i, n). request_delivery (request (ops ?sys ! i)) n) (take k log))"
    using frames_of_log(1) [OF log(1) ok(2)] by (simp add: flow_inv_def)
  have "request (ops ?sys ! i) = requests ?sys ! i" if "(i, n) \<in> set (take k log)" for i n
    using send_log_ids [OF log(1)] in_set_takeD [OF that] by auto
  then have d: "client_deliveries (net a) =
      concat (map (\<lambda>(i, n). request_delivery (requests ?sys ! i) n) (take k log))"
    unfolding d by (intro arg_cong [where f = concat] map_cong) auto
  have "\<forall>(i, n) \<in> set (take k log). own_number (requests ?sys ! i) n"
    using log(1) by (fastforce simp: send_log_def dest: in_set_takeD)
  note l = log_deliveries [OF this]
  let ?fs = "pdu_frames (requests ?sys)"
  have "?fs log = ?fs (take k log) @ ?fs (drop k log)"
    by (metis append_take_drop_id filter_append map_append pdu_frames_def)
  then have "filter is_pdu (requests ?sys) =
      map (nth (requests ?sys)) (?fs (take k log)) @ map (nth (requests ?sys)) (?fs (drop k log) @ pending)"
    using log(2) pdu_calls_requests [of "requests ?sys"] by (metis append.assoc map_append)
  then have "take (length (?fs (take k log))) (filter is_pdu (requests ?sys)) =
      map (nth (requests ?sys)) (?fs (take k log))" by simp
  then show ?thesis using l unfolding d by metis
qed

end
