(* ===== verification/Example_Network.thy ===== *)
theory Example_Network
  imports Example_Programs Send_Order
begin

text \<open>
  The example client and the example server over two sessions on one connection. A coroutine that
  starts an operation of its session moves that session's side of the network; it goes on when the
  operation completes. Everything else, in any interleaving, is a step of the network that needs no
  client: octets move, writes complete or fail, operations resume, timers fire.
\<close>

subsection \<open>Coroutines on a network\<close>

text \<open>What a coroutine waits for: an operation of its session by number, or one outside.\<close>

datatype await = Await_other | Await_send nat | Await_receive nat | Await_nothing

record 'p app =
  point :: 'p
  awaits :: await
  printed :: octets

record example =
  network_of :: network
  client_app :: "client_point app"
  server_app :: "server_point app"

definition example_init :: example where
  "example_init =
     \<lparr>network_of = (\<lambda>a. endpoint_init (session_new 60)),
      client_app = \<lparr>point = Client_connecting, awaits = Await_other, printed = []\<rparr>,
      server_app = \<lparr>point = Server_accepting, awaits = Await_other, printed = []\<rparr>\<rparr>"

text \<open>The awaited operation has completed with this event.\<close>

fun awaited :: "await \<Rightarrow> endpoint \<Rightarrow> app_event \<Rightarrow> bool" where
  "awaited Await_other e (Completed_with ec) = True"
| "awaited (Await_send i) e (Completed_with ec) \<longleftrightarrow>
     i < length (ops (half e)) \<and> (\<exists>n. pc (ops (half e) ! i) = Completed ec n)"
| "awaited (Await_receive m) e (Received ec pdu n st) \<longleftrightarrow>
     m < length (outcomes e) \<and> outcomes e ! m = Complete ec pdu n st"
| "awaited _ _ _ = False"

text \<open>What starting an operation does to the session, and what is awaited then.\<close>

fun action_label :: "app_action \<Rightarrow> endpoint_label option" where
  "action_label (Async_send pdu) = Some (E_send (L_initiate (Send_request pdu)))"
| "action_label (Async_respond pdu n st) = Some (E_send (L_initiate (Send_response pdu n st)))"
| "action_label Async_receive = Some E_receive"
| "action_label Async_unbind = Some (E_send L_unbind)"
| "action_label _ = None"

fun next_await :: "app_action \<Rightarrow> endpoint \<Rightarrow> await" where
  "next_await Async_other e = Await_other"
| "next_await No_more e = Await_nothing"
| "next_await Async_receive e = Await_receive (length (outcomes e))"
| "next_await _ e = Await_send (length (ops (half e)))"

definition performs :: "app_action \<Rightarrow> side \<Rightarrow> network \<Rightarrow> network \<Rightarrow> bool" where
  "performs act a n n' \<longleftrightarrow>
     (case action_label act of None \<Rightarrow> n' = n | Some l \<Rightarrow> network_step n a l n')"

fun spontaneous :: "endpoint_label \<Rightarrow> bool" where
  "spontaneous (E_send (L_resume i)) = True"
| "spontaneous (E_send (L_written i ec)) = True"
| "spontaneous (E_send _) = False"
| "spontaneous (E_transfer k) = True"
| "spontaneous E_receive = False"
| "spontaneous (E_event ev) = True"

inductive example_step :: "example \<Rightarrow> example \<Rightarrow> bool" where
  example_net:
    "network_step (network_of x) a l n' \<Longrightarrow> spontaneous l \<Longrightarrow> example_step x (x\<lparr>network_of := n'\<rparr>)"
| example_client:
    "awaited (awaits (client_app x)) (network_of x Side_A) ev \<Longrightarrow>
     client_resume (point (client_app x)) ev = (out, p, act) \<Longrightarrow> performs act Side_A (network_of x) n' \<Longrightarrow>
     example_step x (x\<lparr>network_of := n',
       client_app := \<lparr>point = p, awaits = next_await act (network_of x Side_A), printed = printed (client_app x) @ out\<rparr>\<rparr>)"
| example_server:
    "awaited (awaits (server_app x)) (network_of x Side_B) ev \<Longrightarrow>
     server_resume (point (server_app x)) ev = (out, p, act) \<Longrightarrow> performs act Side_B (network_of x) n' \<Longrightarrow>
     example_step x (x\<lparr>network_of := n',
       server_app := \<lparr>point = p, awaits = next_await act (network_of x Side_B), printed = printed (server_app x) @ out\<rparr>\<rparr>)"

inductive example_reachable :: "example \<Rightarrow> bool" where
  example_start: "example_reachable example_init"
| example_next: "example_reachable x \<Longrightarrow> example_step x x' \<Longrightarrow> example_reachable x'"

lemma example_network_reachable: "example_reachable x \<Longrightarrow> network_reachable (network_of x)"
proof (induction rule: example_reachable.induct)
  case example_start
  show ?case using network_start [of "\<lambda>_. 60"] by (simp add: example_init_def)
next
  case (example_next x x')
  from example_next(2,3) show ?case
    by (cases rule: example_step.cases)
      (auto simp: performs_def intro: network_next split: option.splits)
qed

subsection \<open>One receive operation at a time\<close>

text \<open>What one run of the receiver's coroutine ends with.\<close>

definition proper_result :: "receive_result \<Rightarrow> bool" where
  "proper_result r \<longleftrightarrow>
     (case fst r of
        Complete ec _ _ _ \<Rightarrow> fst (snd r) = Recv_done \<and> (ec = No_error \<or> failed ec)
      | Throws _ \<Rightarrow> fst (snd r) = Recv_done
      | Undefined_behaviour \<Rightarrow> fst (snd r) = Recv_done
      | _ \<Rightarrow> fst (snd r) \<notin> {Recv_start, Recv_done})"

lemma proper_result_simps [simp]:
  "proper_result (Send_cmd cid n, Recv_unbinding, op, s)" "proper_result (Send_cmd cid n, Recv_enquiring, op, s)"
  "proper_result (Send_cmd cid n, Recv_answering_enquire, op, s)"
  "proper_result (Send_cmd cid n, Recv_answering_unbind, op, s)"
  "proper_result (Post, Recv_posted, op, s)" "failed ec \<Longrightarrow> proper_result (complete_with ec op s)"
  "proper_result (complete_with (make_error_code error_enquire_link_timeout) op s)"
  "proper_result (finish_unbind op s)" "proper_result (deliver_pdu op s)" "proper_result (start_read op s)"
  by (auto simp: proper_result_def complete_with_def finish_unbind_def deliver_pdu_def start_read_def
      make_error_code_def enum_values Let_def split: prod.splits sum.splits)

lemma receive_loop_proper: "receive_loop op s = Some r \<Longrightarrow> proper_result r"
proof (induction rule: receive_loop.raw_induct [rotated 1, consumes 1])
  case (1 loop op s r)
  show ?case using 1(2) 1(1) by (auto simp: Let_def split: if_splits prod.splits)
qed

lemma resume_proper:
  assumes "resume e (rpc, op, s) = Some r"
  shows "proper_result r"
  using assms
proof (rule resume_elims)
  fix bytes ec by_client op' s'
  assume "(rpc, op, s) = (Recv_reading, op', s')" "Some r = resume_read bytes ec by_client op' s'"
  then show ?thesis
    by (auto simp: resume_read_eq Let_def dest: receive_loop_proper [OF sym] split: if_splits prod.splits)
qed (auto simp: resume_unbinding_def resume_enquiring_def resume_answering_unbind_def resume_posted_def
    resume_answering_enquire_def split: if_splits dest: receive_loop_proper [OF sym])

text \<open>
  \<open>m\<close> receive operations have been consumed, all with a PDU; one more may be under way, or completed and
  not yet consumed.
\<close>

definition success :: "receive_action \<Rightarrow> bool" where
  "success a \<longleftrightarrow> (\<exists>pdu n st. a = Complete No_error pdu n st)"

definition proper_outcome :: "receive_action \<Rightarrow> bool" where
  "proper_outcome a \<longleftrightarrow> (\<forall>ec pdu n st. a = Complete ec pdu n st \<longrightarrow> ec = No_error \<or> failed ec)"

definition receives :: "endpoint \<Rightarrow> await \<Rightarrow> nat \<Rightarrow> bool" where
  "receives e w m \<longleftrightarrow>
     list_all proper_outcome (outcomes e) \<and> list_all success (take m (outcomes e)) \<and>
     (case w of
        Await_receive k \<Rightarrow> k = m \<and>
          ((recv_pc e \<notin> {Recv_start, Recv_done} \<and> length (outcomes e) = m) \<or>
           (recv_pc e = Recv_done \<and> length (outcomes e) = Suc m))
      | Await_nothing \<Rightarrow> m \<le> length (outcomes e)
      | _ \<Rightarrow> recv_pc e \<in> {Recv_start, Recv_done} \<and> length (outcomes e) = m)"

lemma receives_cong:
  "recv_pc e' = recv_pc e \<Longrightarrow> outcomes e' = outcomes e \<Longrightarrow> receives e' w m = receives e w m"
  by (simp only: receives_def)

lemma apply_result_outcomes:
  "proper_result r \<Longrightarrow>
     recv_pc (apply_result r e) = fst (snd r) \<and>
     ((outcomes (apply_result r e) = outcomes e \<and> fst (snd r) \<notin> {Recv_start, Recv_done}) \<or>
      (outcomes (apply_result r e) = outcomes e @ [fst r] \<and> fst (snd r) = Recv_done \<and> proper_outcome (fst r)))"
  by (cases r; cases "fst r") (auto simp: apply_result_def proper_result_def proper_outcome_def)

lemma apply_result_half:
  "half (apply_result r e) =
     (case r of (a, _, _, s) \<Rightarrow>
        (case a of
           Send_cmd cid n \<Rightarrow> initiate (Send_command cid n) ((half e)\<lparr>sess := s\<rparr>)
         | _ \<Rightarrow> (half e)\<lparr>sess := s\<rparr>))"
  by (cases r; cases "fst r") (simp_all add: apply_result_def)

subsection \<open>One operation at a time\<close>

abbreviation pdus_of :: "endpoint \<Rightarrow> send_request list" where
  "pdus_of e \<equiv> filter is_pdu (requests (half e))"

definition calling :: "endpoint \<Rightarrow> await \<Rightarrow> nat \<Rightarrow> bool" where
  "calling e w m \<longleftrightarrow>
     (\<exists>pending. in_order (half e) pending \<and> (\<forall>i \<in> set pending. w = Await_send i \<or> w = Await_nothing)) \<and>
     receives e w m"

lemma callingI:
  "in_order (half e) pending \<or> in_order (half e) [] \<Longrightarrow>
     \<forall>i \<in> set pending. w = Await_send i \<or> w = Await_nothing \<Longrightarrow> receives e w m \<Longrightarrow> calling e w m"
  unfolding calling_def by (metis empty_iff empty_set)

text \<open>What a run of the receiver's coroutine does.\<close>

lemma apply_result_in_order:
  assumes ord: "in_order (half e) pending" and inv: "sends_inv e"
    and kept: "send_side_kept (endpoint_session e) (snd (snd (snd r)))"
  shows "in_order (half (apply_result r e)) pending \<or> in_order (half (apply_result r e)) []"
    "pdus_of (apply_result r e) = pdus_of e"
proof -
  obtain a rpc op s where r: "r = (a, rpc, op, s)" by (cases r) auto
  have h: "send_inv (half e)" using inv by (simp add: sends_inv_def)
  have "send_inv ((half e)\<lparr>sess := s\<rparr>)"
    using send_invD [OF h] kept by (simp add: send_inv_def r send_side_kept_def)
  from in_order_command [OF _ this, of pending] ord
  show "in_order (half (apply_result r e)) pending \<or> in_order (half (apply_result r e)) []"
    by (cases a) (simp_all add: apply_result_half r)
  show "pdus_of (apply_result r e) = pdus_of e"
    by (cases a) (simp_all add: apply_result_half r initiate_keeps)
qed

lemma receives_apply_result:
  assumes rc: "receives e w m" and r: "proper_result r" and active: "recv_pc e \<notin> {Recv_start, Recv_done}"
  shows "receives (apply_result r e) w m"
proof -
  have w: "(\<exists>k. w = Await_receive k) \<or> w = Await_nothing"
    using rc active by (cases w) (auto simp: receives_def)
  show ?thesis
    using apply_result_outcomes [OF r, of e] rc active w
    by (cases w) (auto simp: receives_def)
qed

text \<open>A step of the network that needs no client.\<close>

lemma spontaneous_requests:
  "send_step sys l sys' \<Longrightarrow> spontaneous (E_send l) \<Longrightarrow> requests sys' = requests sys"
  by (cases rule: send_step.cases, assumption) (auto simp: resume_wait_def)

lemma calling_spontaneous:
  assumes "endpoint_step e l e'" "spontaneous l" "sends_inv e" "calling e w m"
  shows "calling e' w m \<and> pdus_of e' = pdus_of e"
  using assms
proof (induction rule: endpoint_step.induct)
  case (endpoint_send e l sys)
  obtain pending where p: "in_order (half e) pending" "\<forall>i \<in> set pending. w = Await_send i \<or> w = Await_nothing"
    and rc: "receives e w m" using endpoint_send by (auto simp: calling_def)
  have rs: "requests sys = requests (half e)" using spontaneous_requests endpoint_send by blast
  have "send_inv (half e)" using endpoint_send by (simp add: sends_inv_def)
  from in_order_step [OF endpoint_send(1) this p(1), of "[]"] rs
  have "in_order sys pending \<or> in_order sys []" by simp
  moreover have "receives ((with_half sys e)\<lparr>broken := broken e \<or> write_failed l\<rparr>) w m"
    using rc by (subst receives_cong [of _ e]) simp_all
  ultimately show ?case using p(2) rs callingI [of _ pending] by simp
next
  case (endpoint_transfer e i bytes k)
  let ?e = "e\<lparr>sent := sent e @ bytes, written := written e + length bytes\<rparr>"
  have "receives ?e w m = receives e w m" by (rule receives_cong) simp_all
  then show ?case using endpoint_transfer by (simp add: calling_def)
next
  case (endpoint_receive e r)
  then show ?case by simp
next
  case (endpoint_event ev e r)
  let ?e = "e\<lparr>taken := taken e + length (arrived ev)\<rparr>"
  obtain pending where p: "in_order (half e) pending" "\<forall>i \<in> set pending. w = Await_send i \<or> w = Await_nothing"
    and rc: "receives e w m" using endpoint_event by (auto simp: calling_def)
  have active: "recv_pc ?e \<notin> {Recv_start, Recv_done}"
    using resume_expected [OF endpoint_event(2)] by (cases ev) auto
  have "sends_inv ?e" using endpoint_event by (simp add: sends_inv_def socket_inv_def)
  note ord = apply_result_in_order [OF _ this, of pending r]
  have "receives ?e w m" using rc by (subst receives_cong [of _ e]) simp_all
  from receives_apply_result [OF this resume_proper [OF endpoint_event(2)] active]
  show ?case
    using ord resume_send_side [OF endpoint_event(2)] p callingI [of _ pending] by simp
qed

subsection \<open>A coroutine goes on\<close>

text \<open>Nothing is under way: the last operation has completed, and all receives so far gave a PDU.\<close>

definition ready :: "endpoint \<Rightarrow> nat \<Rightarrow> bool" where
  "ready e m \<longleftrightarrow>
     in_order (half e) [] \<and> recv_pc e \<in> {Recv_start, Recv_done} \<and> length (outcomes e) = m \<and>
     list_all success (outcomes e)"

lemma awaited_ready:
  assumes c: "calling e w m" and ev: "awaited w e ev" "\<not> failed (event_error ev)"
  shows "ready e (case w of Await_receive k \<Rightarrow> Suc m | _ \<Rightarrow> m)"
proof -
  obtain pending where p: "in_order (half e) pending" "\<forall>i \<in> set pending. w = Await_send i \<or> w = Await_nothing"
    and rc: "receives e w m" using c by (auto simp: calling_def)
  have "in_order (half e) []"
  proof (cases pending)
    case (Cons i rest)
    then have "pending = [i]" using p(1) by (cases rest) (auto simp: in_order_def)
    moreover have "w = Await_send i" using p(2) Cons ev(1) by (cases ev) auto
    then obtain ec n where "pc (ops (half e) ! i) = Completed ec n" "\<not> failed ec"
      using ev by (cases ev) auto
    ultimately show ?thesis using in_order_completed [of "half e" i] p(1) by blast
  qed (use p(1) in simp)
  moreover have "recv_pc e \<in> {Recv_start, Recv_done} \<and>
      length (outcomes e) = (case w of Await_receive k \<Rightarrow> Suc m | _ \<Rightarrow> m) \<and> list_all success (outcomes e)"
  proof (cases w)
    case (Await_receive k)
    then obtain ec pdu n st where o: "length (outcomes e) = Suc m" "outcomes e ! m = Complete ec pdu n st"
      "\<not> failed ec" "recv_pc e = Recv_done"
      using ev rc by (cases ev) (auto simp: receives_def)
    have "proper_outcome (outcomes e ! m)" using rc o(1) by (simp add: receives_def list_all_length)
    then have "success (outcomes e ! m)" using o(2,3) by (auto simp: success_def proper_outcome_def)
    moreover have "outcomes e = take m (outcomes e) @ [outcomes e ! m]"
      using o(1) take_Suc_conv_app_nth [of m "outcomes e"] by simp
    moreover have "list_all success (take m (outcomes e))" using rc by (simp add: receives_def)
    ultimately have "list_all success (outcomes e)" by (metis list.pred_inject list_all_append)
    then show ?thesis using o(1,4) Await_receive by simp
  qed (use rc ev(1) in \<open>cases ev; simp add: receives_def\<close>)+
  ultimately show ?thesis by (simp add: ready_def)
qed

text \<open>Starting the next operation.\<close>

fun action_pdus :: "app_action \<Rightarrow> send_request list" where
  "action_pdus (Async_send pdu) = [Send_request pdu]"
| "action_pdus (Async_respond pdu n st) = [Send_response pdu n st]"
| "action_pdus _ = []"

lemma ready_receives:
  "ready e m \<Longrightarrow> list_all proper_outcome (outcomes e)"
  by (auto simp: ready_def list_all_iff success_def proper_outcome_def)

lemma ready_waits:
  assumes "ready e m" "recv_pc e' = recv_pc e" "outcomes e' = outcomes e" "w = Await_other \<or> (\<exists>i. w = Await_send i)"
  shows "receives e' w m"
  using assms ready_receives [OF assms(1)] by (auto simp: receives_def ready_def)

lemma send_call:
  assumes rd: "ready e m" and inv: "sends_inv e" and st: "endpoint_step e (E_send l) e'"
    and l: "(l = L_initiate r \<and> is_pdu r \<and> new = [r]) \<or> (l = L_unbind \<and> new = [])"
  shows "calling e' (Await_send (length (ops (half e)))) m \<and> pdus_of e' = pdus_of e @ new"
proof -
  let ?i = "length (ops (half e))"
  obtain sys where s: "send_step (half e) l sys" "half e' = sys" "recv_pc e' = recv_pc e" "outcomes e' = outcomes e"
    using st by (rule endpoint_sendE) auto
  have h: "send_inv (half e)" using inv by (simp add: sends_inv_def)
  have ord: "in_order (half e) []" using rd by (simp add: ready_def)
  have "(in_order sys [?i] \<or> in_order sys []) \<and> filter is_pdu (requests sys) = pdus_of e @ new"
  proof (cases "l = L_unbind")
    case True
    obtain n s' where n: "next_sequence_number (sess (half e)) = (n, s')" by fastforce
    have "sys = async_send_unbind (half e)" using s(1) True by (auto elim: send_step.cases)
    then have rs: "requests sys = requests (half e) @ [Send_command command_id_unbind n]"
      by (simp add: async_send_unbind_def n initiate_keeps)
    have "in_order sys []" using in_order_step [OF s(1) h ord rs] by simp
    then show ?thesis using rs l True by simp
  next
    case False
    then have "l = L_initiate r" "is_pdu r" "new = [r]" using l by auto
    moreover from this(1) have "sys = initiate r (half e)" using s(1) by (auto elim: step_initiateE)
    ultimately show ?thesis using in_order_call [OF ord] by (simp add: initiate_keeps)
  qed
  then show ?thesis
    using callingI [of e' "[?i]" "Await_send ?i" m] ready_waits [OF rd s(3,4)] by (simp add: s(2))
qed

lemma receive_call:
  assumes rd: "ready e m" and inv: "sends_inv e" and st: "endpoint_step e E_receive e'"
  shows "calling e' (Await_receive m) m \<and> pdus_of e' = pdus_of e"
proof -
  obtain r where r: "async_receive (endpoint_session e) = Some r" "e' = apply_result r e"
    using st by (auto elim: endpoint_step.cases)
  have loop: "receive_loop receive_op_new (endpoint_session e) = Some r" using r(1) by (simp add: async_receive_def)
  have ord: "in_order (half e) []" and len: "length (outcomes e) = m" and ok: "list_all success (outcomes e)"
    using rd by (simp_all add: ready_def)
  have "receives (apply_result r e) (Await_receive m) m"
    using apply_result_outcomes [OF receive_loop_proper [OF loop], of e] len ok ready_receives [OF rd]
    by (auto simp: receives_def)
  then show ?thesis
    using apply_result_in_order [OF ord inv receive_loop_send_side [OF loop]] callingI [of _ "[]"] by (simp add: r(2))
qed

lemma performs_calls:
  assumes "ready (n a) m" "\<And>b. sends_inv (n b)" "performs act a n n'" "act \<noteq> No_more"
  shows "calling (n' a) (next_await act (n a)) m \<and> pdus_of (n' a) = pdus_of (n a) @ action_pdus act \<and>
         (\<forall>b. b \<noteq> a \<longrightarrow> n' b = n b)"
proof (cases "action_label act")
  case None
  then have "n' = n" "act = Async_other" using assms(3,4) by (cases act; simp add: performs_def)+
  moreover have "calling (n a) Await_other m"
    using assms(1) callingI [of "n a" "[]" Await_other m] ready_waits [OF assms(1) refl refl] by (simp add: ready_def)
  ultimately show ?thesis by simp
next
  case (Some l)
  then obtain e where e: "endpoint_step (n a) l e" "n' = n(a := e)"
    using assms(3) by (auto simp: performs_def elim: network_step.cases)
  show ?thesis
  proof (cases "act = Async_receive")
    case True
    have "length (outcomes (n a)) = m" using assms(1) by (simp add: ready_def)
    then show ?thesis using receive_call [OF assms(1,2)] e Some True by simp
  next
    case False
    then obtain l' where l': "l = E_send l'"
      "\<exists>r. (l' = L_initiate r \<and> is_pdu r \<and> action_pdus act = [r]) \<or> (l' = L_unbind \<and> action_pdus act = [])"
      "next_await act (n a) = Await_send (length (ops (half (n a))))"
      using Some assms(4) by (cases act) auto
    then show ?thesis using send_call [OF assms(1,2)] e by auto
  qed
qed

end
