(* ===== verification/Dialogue.thy ===== *)
theory Dialogue
  imports Example_Network
begin

text \<open>
  A program that follows its part of a fixed dialogue with its peer: what it sends, what it expects to
  receive, what it prints. The locale \<open>dialogue\<close> is the contract between a coroutine and the session it
  uses; under it, whatever the network does, the coroutine stays within its part or ends with the
  error of an operation.
\<close>

subsection \<open>What a program of the dialogue keeps to\<close>

type_synonym delivery_list = "(pdu_variant \<times> u32 \<times> command_status) list"

fun event_delivers :: "app_event \<Rightarrow> delivery_list" where
  "event_delivers (Received _ pdu n st) = [(pdu, n, st)]"
| "event_delivers (Completed_with _) = []"

text \<open>The event of a session that the peer's program and the connection allow.\<close>

definition expected_event :: "pdu_variant list \<Rightarrow> bool \<Rightarrow> nat \<Rightarrow> app_event \<Rightarrow> bool" where
  "expected_event pdus rcv m ev \<longleftrightarrow>
     (if rcv then m < length pdus \<and> (\<exists>n st. ev = Received No_error (pdus ! m) n st)
      else \<exists>ec. ev = Completed_with ec)"

fun pdu_of_request :: "send_request \<Rightarrow> pdu_variant option" where
  "pdu_of_request (Send_request pdu) = Some pdu"
| "pdu_of_request (Send_response pdu _ _) = Some pdu"
| "pdu_of_request (Send_command _ _) = None"

definition consumed :: "nat \<Rightarrow> endpoint \<Rightarrow> delivery_list" where
  "consumed m e = concat (map delivery (take m (outcomes e)))"

fun awaits_fit :: "bool \<Rightarrow> await \<Rightarrow> bool" where
  "awaits_fit rcv (Await_receive k) = rcv"
| "awaits_fit rcv Await_nothing = False"
| "awaits_fit rcv _ = (\<not> rcv)"

text \<open>
  \<open>phase p s m l\<close>: at point \<open>p\<close> the coroutine has sent \<open>s\<close> PDUs, consumed \<open>m\<close> receive operations and
  written the first \<open>l\<close> of its \<open>lines\<close>. \<open>nth_send ds k\<close> is its \<open>k\<close>-th send after receiving \<open>ds\<close>.
\<close>

definition dialogue_inv ::
  "('p \<Rightarrow> nat \<Rightarrow> nat \<Rightarrow> nat \<Rightarrow> bool) \<Rightarrow> ('p \<Rightarrow> bool) \<Rightarrow> (app_error \<Rightarrow> 'p) \<Rightarrow> (delivery_list \<Rightarrow> nat \<Rightarrow> send_request) \<Rightarrow>
   pdu_variant list \<Rightarrow> octets list \<Rightarrow> endpoint \<Rightarrow> 'p app \<Rightarrow> bool" where
  "dialogue_inv phase receiving threw nth_send mine lines e ap \<longleftrightarrow>
     (\<exists>s m l p. calling e (awaits ap) m \<and> s \<le> length mine \<and> phase p s m l \<and>
        pdus_of e = map (nth_send (consumed m e)) [0..<s] \<and> printed ap = concat (take l lines) \<and>
        ((point ap = p \<and> awaits_fit (receiving p) (awaits ap)) \<or>
         (awaits ap = Await_nothing \<and> (\<exists>ec. failed ec \<and> point ap = threw (System_error ec)))))"

text \<open>The two sides of a session as the network shows them.\<close>

lemma deliveries_are_requests:
  "list_all2 delivered_as rs ds \<Longrightarrow> map Some (map fst ds) = map pdu_of_request rs"
proof (induction rule: list_all2_induct)
  case (Cons r rs d ds)
  then show ?case by (cases r; cases d) auto
qed simp

lemma request_frame_short:
  assumes "\<And>pdu. pdu_of_request r = Some pdu \<Longrightarrow> \<forall>n st. length (pdu_frame pdu n st) < 100"
  shows "length (request_frame r n) < 100"
proof (cases r)
  case (Send_command cid m)
  then show ?thesis by (simp only: command_frame_octets) (simp add: header_length_def)
qed (use assms in simp_all)

lemma sends_okI:
  assumes log: "send_log (half e) log"
    and ok: "\<And>r pdu. r \<in> set (pdus_of e) \<Longrightarrow> pdu_of_request r = Some pdu \<Longrightarrow>
               pdu_ok pdu \<and> (\<forall>n st. length (pdu_frame pdu n st) < 100)"
  shows "sends_ok e"
proof -
  have r: "request_ok r" "length (request_frame r n) < 4294967296" if "r \<in> set (requests (half e))" for r n
  proof -
    have p: "pdu_ok pdu \<and> (\<forall>n st. length (pdu_frame pdu n st) < 100)" if "pdu_of_request r = Some pdu" for pdu
      using ok [of r pdu] that \<open>r \<in> _\<close> by (cases r) simp_all
    then show "request_ok r" by (cases r) simp_all
    have "length (request_frame r n) < 100" using p by (intro request_frame_short) simp
    then show "length (request_frame r n) < 4294967296" by simp
  qed
  have "length (request_frame (request (ops (half e) ! i)) n) < 4294967296" if "(i, n) \<in> set log" for i n
  proof -
    have "i < length (ops (half e))" using log that by (auto simp: send_log_def)
    then have "requests (half e) ! i \<in> set (requests (half e))" by (intro nth_mem) simp
    then show ?thesis using r(2) [of "request (ops (half e) ! i)"] \<open>i < _\<close> by simp
  qed
  then have "short_frames e" using log by (auto simp: short_frames_def send_log_def list_all_iff)
  then show ?thesis using r(1) by (simp add: sends_ok_def list_all_iff)
qed

text \<open>What a run of the session's own steps leaves of it.\<close>

lemma outcomes_prefix: "endpoint_step e l e' \<Longrightarrow> prefix (outcomes e) (outcomes e')"
proof (induction rule: endpoint_step.induct)
  case (endpoint_receive e r)
  then show ?case by (cases r; cases "fst r") (auto simp: apply_result_def)
next
  case (endpoint_event ev e r)
  then show ?case by (cases r; cases "fst r") (auto simp: apply_result_def)
qed simp_all

lemma calling_length: "calling e w m \<Longrightarrow> m \<le> length (outcomes e)"
  by (cases w) (auto simp: calling_def receives_def)

lemma consumed_prefix:
  "prefix (outcomes e) (outcomes e') \<Longrightarrow> m \<le> length (outcomes e) \<Longrightarrow> consumed m e' = consumed m e"
  by (auto simp: consumed_def prefix_def)

lemma successes: "list_all success os \<Longrightarrow> length (concat (map delivery os)) = length os"
  by (induction os) (auto simp: success_def)

lemma consumed_length: "calling e w m \<Longrightarrow> length (consumed m e) = m"
  using calling_length [of e w m] successes [of "take m (outcomes e)"]
  by (auto simp: calling_def receives_def consumed_def)

lemma performs_outcomes: "performs act a n n' \<Longrightarrow> prefix (outcomes (n a)) (outcomes (n' a))"
  by (auto simp: performs_def elim!: network_step.cases dest: outcomes_prefix split: option.splits)

lemma calling_stops: "calling e w m \<Longrightarrow> calling e Await_nothing m"
proof -
  assume c: "calling e w m"
  have "m \<le> length (outcomes e)" by (rule calling_length [OF c])
  then show ?thesis using c by (auto simp: calling_def receives_def)
qed

lemma client_deliveries_consumed: "length (outcomes e) \<le> m \<Longrightarrow> client_deliveries e = consumed m e"
  by (simp add: client_deliveries_def consumed_def)

text \<open>The event that lets a coroutine go on: the PDU received next, or the end of another operation.\<close>

lemma awaited_expected:
  assumes c: "calling e w m" and ev: "awaited w e ev" "\<not> failed (event_error ev)"
    and fit: "awaits_fit rcv w" and theirs: "prefix (map fst (client_deliveries e)) theirs"
  shows "expected_event theirs rcv m ev"
    "consumed (m + length (event_delivers ev)) e = consumed m e @ event_delivers ev"
    "ready e (m + length (event_delivers ev))"
proof -
  note rd = awaited_ready [OF c ev]
  have "expected_event theirs rcv m ev \<and>
    consumed (m + length (event_delivers ev)) e = consumed m e @ event_delivers ev \<and>
    ready e (m + length (event_delivers ev))"
  proof (cases w)
    case (Await_receive k)
    then obtain ec pdu n st where e: "ev = Received ec pdu n st" "outcomes e ! m = Complete ec pdu n st"
      using ev(1) c by (cases ev) (auto simp: calling_def receives_def)
    have len: "length (outcomes e) = Suc m" and ok: "list_all success (outcomes e)"
      using rd Await_receive by (simp_all add: ready_def)
    have "success (outcomes e ! m)" using len ok by (simp add: list_all_length)
    then have ec: "ec = No_error" using e(2) by (auto simp: success_def)
    have s: "take (Suc m) (outcomes e) = take m (outcomes e) @ [Complete No_error pdu n st]"
      using take_Suc_conv_app_nth [of m "outcomes e"] len e(2) ec by simp
    then have d: "consumed (Suc m) e = consumed m e @ [(pdu, n, st)]" by (simp add: consumed_def)
    then have "prefix (map fst (consumed m e) @ [pdu]) theirs"
      using theirs client_deliveries_consumed [of e "Suc m"] len by simp
    moreover have "length (consumed m e) = m" by (rule consumed_length [OF c])
    ultimately have "m < length theirs \<and> theirs ! m = pdu"
      by (auto simp: prefix_def nth_append)
    then show ?thesis using d rd fit Await_receive by (simp add: e(1) ec expected_event_def)
  qed (use rd fit ev(1) in \<open>cases ev; simp add: expected_event_def\<close>)+
  then show "expected_event theirs rcv m ev"
    "consumed (m + length (event_delivers ev)) e = consumed m e @ event_delivers ev"
    "ready e (m + length (event_delivers ev))"
    by blast+
qed

lemma next_await_fit: "act \<noteq> No_more \<Longrightarrow> awaits_fit (act = Async_receive) (next_await act e)"
  by (cases act) simp_all

locale dialogue =
  fixes run :: "'p \<Rightarrow> app_event \<Rightarrow> octets \<times> 'p \<times> app_action"
    and phase :: "'p \<Rightarrow> nat \<Rightarrow> nat \<Rightarrow> nat \<Rightarrow> bool"
    and receiving :: "'p \<Rightarrow> bool"
    and threw :: "app_error \<Rightarrow> 'p"
    and nth_send :: "delivery_list \<Rightarrow> nat \<Rightarrow> send_request"
    and mine :: "pdu_variant list" and theirs :: "pdu_variant list"
    and lines :: "octets list"
  assumes goes_on:
      "phase p s m l \<Longrightarrow> \<not> failed (event_error ev) \<Longrightarrow> expected_event theirs (receiving p) m ev \<Longrightarrow>
       run p ev = (out, p', act) \<Longrightarrow>
       \<exists>s' l'. phase p' s' (m + length (event_delivers ev)) l' \<and> s' \<le> length mine \<and>
         concat (take l' lines) = concat (take l lines) @ out \<and> act \<noteq> No_more \<and>
         (receiving p' \<longleftrightarrow> act = Async_receive) \<and>
         (\<forall>ds. length ds = m \<longrightarrow>
            map (nth_send (ds @ event_delivers ev)) [0..<s'] = map (nth_send ds) [0..<s] @ action_pdus act)"
    and fails:
      "phase p s m l \<Longrightarrow> failed (event_error ev) \<Longrightarrow>
       run p ev = ([], threw (System_error (event_error ev)), No_more)"
    and sends: "s < length mine \<Longrightarrow> pdu_of_request (nth_send ds s) = Some (mine ! s)"
    and mine_ok: "pdu \<in> set mine \<Longrightarrow> pdu_ok pdu" "pdu \<in> set mine \<Longrightarrow> length (pdu_frame pdu n st) < 100"
begin

abbreviation keeps :: "endpoint \<Rightarrow> 'p app \<Rightarrow> bool" where
  "keeps \<equiv> dialogue_inv phase receiving threw nth_send mine lines"

lemma sent_pdus:
  "keeps e ap \<Longrightarrow> \<exists>s. s \<le> length mine \<and> map pdu_of_request (pdus_of e) = map Some (take s mine)"
proof -
  have "map pdu_of_request (map (nth_send ds) [0..<s]) = map Some (take s mine)" if "s \<le> length mine" for s ds
    using that by (intro nth_equalityI) (simp_all add: sends)
  then show "keeps e ap \<Longrightarrow> ?thesis" by (auto simp: dialogue_inv_def)
qed

lemma sends_ok:
  assumes "keeps e ap" "send_log (half e) log"
  shows "sends_ok e"
proof -
  obtain s where s: "map pdu_of_request (pdus_of e) = map Some (take s mine)" using sent_pdus [OF assms(1)] by blast
  have "pdu \<in> set mine" if "r \<in> set (pdus_of e)" "pdu_of_request r = Some pdu" for r pdu
  proof -
    have "Some pdu \<in> set (map pdu_of_request (pdus_of e))" using that by force
    then show ?thesis unfolding s by (auto dest: in_set_takeD)
  qed
  then show ?thesis using sends_okI [OF assms(2)] mine_ok by blast
qed

lemma peer_receives:
  assumes net: "network_reachable n" and inv: "keeps (n (peer a)) ap"
  shows "prefix (map fst (client_deliveries (n a))) mine"
proof -
  let ?e = "n (peer a)"
  obtain log where "send_log (half ?e) log" using network_log [OF net] by blast
  from sends_ok [OF inv this] have ok: "sends_ok ?e" .
  obtain pending where "in_order (half ?e) pending" using inv by (auto simp: dialogue_inv_def calling_def)
  from in_order_deliveries [OF net ok this]
  obtain k where "list_all2 delivered_as (take k (pdus_of ?e)) (client_deliveries (n a))" by blast
  from deliveries_are_requests [OF this]
  have "map Some (map fst (client_deliveries (n a))) = take k (map pdu_of_request (pdus_of ?e))"
    by (simp add: take_map)
  also obtain s where "map pdu_of_request (pdus_of ?e) = map Some (take s mine)" using sent_pdus [OF inv] by blast
  finally have "map Some (map fst (client_deliveries (n a))) = map Some (take (min k s) mine)"
    by (simp add: take_map min.commute)
  then have "map fst (client_deliveries (n a)) = take (min k s) mine" by (simp add: map_injective del: map_map)
  then show ?thesis by (simp add: take_is_prefix)
qed

lemma net_step:
  assumes inv: "keeps e ap" and st: "endpoint_step e l e'" "spontaneous l" "sends_inv e"
  shows "keeps e' ap"
proof -
  obtain s m l p where i: "calling e (awaits ap) m" "pdus_of e = map (nth_send (consumed m e)) [0..<s]"
    "s \<le> length mine" "phase p s m l" "printed ap = concat (take l lines)"
    "(point ap = p \<and> awaits_fit (receiving p) (awaits ap)) \<or>
     (awaits ap = Await_nothing \<and> (\<exists>ec. failed ec \<and> point ap = threw (System_error ec)))"
    using inv unfolding dialogue_inv_def by blast
  have "consumed m e' = consumed m e"
    by (rule consumed_prefix [OF outcomes_prefix [OF st(1)] calling_length [OF i(1)]])
  then show ?thesis
    using calling_spontaneous [OF st i(1)] i(2-6) unfolding dialogue_inv_def by metis
qed

lemma keepsI:
  "calling e w m \<Longrightarrow> s \<le> length mine \<Longrightarrow> pdus_of e = map (nth_send (consumed m e)) [0..<s] \<Longrightarrow>
   pr = concat (take l lines) \<Longrightarrow> phase p s m l \<Longrightarrow> awaits_fit (receiving p) w \<Longrightarrow>
   keeps e \<lparr>point = p, awaits = w, printed = pr\<rparr>"
  unfolding dialogue_inv_def by (intro exI [of _ s] exI [of _ m] exI [of _ l] exI [of _ p]) simp

lemma app_step:
  assumes inv: "keeps (n a) ap" and ok: "\<And>b. sends_inv (n b)"
    and theirs: "prefix (map fst (client_deliveries (n a))) theirs"
    and ev: "awaited (awaits ap) (n a) ev" and run: "run (point ap) ev = (out, p', act)"
    and perf: "performs act a n n'"
  shows "keeps (n' a) \<lparr>point = p', awaits = next_await act (n a), printed = printed ap @ out\<rparr> \<and>
         (\<forall>b. b \<noteq> a \<longrightarrow> n' b = n b)"
proof -
  obtain s m l p where c: "calling (n a) (awaits ap) m" and s: "s \<le> length mine"
    and sent: "pdus_of (n a) = map (nth_send (consumed m (n a))) [0..<s]"
    and out: "printed ap = concat (take l lines)"
    and "phase p s m l" "(point ap = p \<and> awaits_fit (receiving p) (awaits ap)) \<or> awaits ap = Await_nothing"
    using inv by (auto simp: dialogue_inv_def)
  then have ph: "phase (point ap) s m l" "awaits_fit (receiving (point ap)) (awaits ap)" using ev by auto
  show ?thesis
  proof (cases "failed (event_error ev)")
    case True
    from fails [OF ph(1) True] run
    have r: "out = []" "p' = threw (System_error (event_error ev))" "act = No_more" by auto
    then have "n' = n" using perf by (simp add: performs_def)
    then show ?thesis using calling_stops [OF c] s sent out True r ph(1) by (auto simp: dialogue_inv_def)
  next
    case False
    let ?m = "m + length (event_delivers ev)"
    note e = awaited_expected [OF c ev False ph(2) theirs]
    obtain s' l' where g: "phase p' s' ?m l'" "s' \<le> length mine" "concat (take l' lines) = concat (take l lines) @ out"
      "act \<noteq> No_more" "receiving p' \<longleftrightarrow> act = Async_receive"
      "map (nth_send (consumed m (n a) @ event_delivers ev)) [0..<s'] =
         map (nth_send (consumed m (n a))) [0..<s] @ action_pdus act"
      using goes_on [OF ph(1) False e(1) run] consumed_length [OF c] by blast
    from performs_calls [OF e(3) ok perf g(4)]
    have p: "calling (n' a) (next_await act (n a)) ?m" "pdus_of (n' a) = pdus_of (n a) @ action_pdus act"
      "\<forall>b. b \<noteq> a \<longrightarrow> n' b = n b" by auto
    have "?m \<le> length (outcomes (n a))" using e(3) by (simp add: ready_def)
    from consumed_prefix [OF performs_outcomes [OF perf] this]
    have "consumed ?m (n' a) = consumed m (n a) @ event_delivers ev" using e(2) by simp
    then have "pdus_of (n' a) = map (nth_send (consumed ?m (n' a))) [0..<s']" using p(2) sent g(6) by simp
    moreover have "printed ap @ out = concat (take l' lines)" using g(3) out by simp
    moreover have "awaits_fit (receiving p') (next_await act (n a))" using next_await_fit [OF g(4)] g(5) by simp
    ultimately show ?thesis using keepsI [OF p(1) g(2) _ _ g(1)] p(3) by blast
  qed
qed

end

end
