(* ===== verification/Example_Run.thy ===== *)
theory Example_Run
  imports Dialogue
begin

text \<open>
  What the example programs do to each other, in every interleaving and with any errors: each gets as
  far as it gets in the one dialogue they are written for. The invariants say how far: how many PDUs
  a coroutine has sent, how many receive operations it has consumed, and what it has printed.
\<close>

subsection \<open>The dialogue\<close>

definition client_requests :: "pdu_variant list" where
  "client_requests = [client_bind, client_submit 0, client_submit 1, client_submit 2]"

definition server_responses :: "pdu_variant list" where
  "server_responses = [server_bind_resp, server_submit_resp, server_submit_resp, server_submit_resp]"

definition client_lines :: "octets list" where
  "client_lines = map (\<lambda>s. line (chars s))
     [''Sending bind_transceiver...'', ''bind_transceiver_resp, system_id: server_01'',
      ''Sending submit_sm...'', ''submit_sm_resp, message_id: 123'',
      ''Sending submit_sm...'', ''submit_sm_resp, message_id: 123'',
      ''Sending submit_sm...'', ''submit_sm_resp, message_id: 123'',
      ''Unbinding session...'']"

definition server_lines :: "octets list" where
  "server_lines = map (\<lambda>ss. concat (map (\<lambda>s. line (chars s)) ss))
     [[''Waiting for bind request...''],
      [''bind_transceiver, system_id: client_01'', ''Sending bind_transceiver_resp...''],
      [''submit_sm, dest_addr: 1000'', ''Sending submit_sm_resp...''],
      [''submit_sm, dest_addr: 1001'', ''Sending submit_sm_resp...''],
      [''submit_sm, dest_addr: 1002'', ''Sending submit_sm_resp...'']]"

lemma to_string_examples:
  "to_string 1000 = [49, 48, 48, 48]" "to_string 1001 = [49, 48, 48, 49]" "to_string 1002 = [49, 48, 48, 50]"
  by (simp_all add: to_string.simps)

lemma client_submit_ok: "i < 3 \<Longrightarrow> pdu_ok (client_submit i)"
proof -
  have "c_str_ok 21 (to_string (1000 + i))" if "i < 3"
    using that by (auto simp: numeral_3_eq_3 less_Suc_eq to_string_examples c_str_ok_def)
  then show "i < 3 \<Longrightarrow> pdu_ok (client_submit i)"
    by (simp add: client_submit_def submit_sm_ok_def submit_sm_default_def default_members_ok)
qed

lemma example_pdu_ok:
  "pdu_ok client_bind" "pdu_ok server_bind_resp" "pdu_ok server_submit_resp"
  by (simp_all add: client_bind_def server_bind_resp_def server_submit_resp_def
      bind_transceiver_ok_def bind_transceiver_default_def
      bind_transceiver_resp_ok_def bind_transceiver_resp_default_def submit_sm_resp_ok_def submit_sm_resp_default_def
      default_members_ok c_str_ok_def chars_def)

lemma example_pdu_length:
  "map (\<lambda>pdu. length (snd (pdu_serialize_to (replicate header_length 0) pdu))) client_requests = [32, 37, 37, 37]"
  "map (\<lambda>pdu. length (snd (pdu_serialize_to (replicate header_length 0) pdu))) server_responses = [26, 20, 20, 20]"
  by code_simp+

lemma example_pdus_ok:
  "list_all pdu_ok client_requests" "list_all pdu_ok server_responses"
  by (simp_all add: client_requests_def server_responses_def example_pdu_ok client_submit_ok)

lemma pdu_frame_length:
  assumes "pdu_ok pdu"
  shows "length (pdu_frame pdu n st) = length (snd (pdu_serialize_to (replicate header_length 0) pdu))"
proof -
  obtain bs cid where "pdu_serialize_to (replicate header_length 0) pdu = (Inr (), replicate header_length 0 @ bs)"
    using pdu_variant_rt [OF assms] by blast
  then show ?thesis
    using serialize_header_octets [of "replicate header_length 0" bs] by (simp add: pdu_frame_def header_length_def)
qed

lemma example_pdus_short:
  "pdu \<in> set client_requests \<Longrightarrow> length (pdu_frame pdu n st) < 100"
  "pdu \<in> set server_responses \<Longrightarrow> length (pdu_frame pdu n st) < 100"
proof -
  let ?len = "\<lambda>pdu. length (snd (pdu_serialize_to (replicate header_length 0) pdu))"
  assume p: "pdu \<in> set client_requests"
  then have "?len pdu \<in> set (map ?len client_requests)" by simp
  then have "?len pdu < 100" unfolding example_pdu_length by auto
  then show "length (pdu_frame pdu n st) < 100"
    using p example_pdus_ok(1) by (simp add: list_all_iff pdu_frame_length)
next
  let ?len = "\<lambda>pdu. length (snd (pdu_serialize_to (replicate header_length 0) pdu))"
  assume p: "pdu \<in> set server_responses"
  then have "?len pdu \<in> set (map ?len server_responses)" by simp
  then have "?len pdu < 100" unfolding example_pdu_length by auto
  then show "length (pdu_frame pdu n st) < 100"
    using p example_pdus_ok(2) by (simp add: list_all_iff pdu_frame_length)
qed

subsection \<open>Points of the coroutines\<close>

text \<open>PDUs sent, receives consumed, lines printed.\<close>

fun client_phase :: "client_point \<Rightarrow> nat \<Rightarrow> nat \<Rightarrow> nat \<Rightarrow> bool" where
  "client_phase Client_connecting s m l \<longleftrightarrow> s = 0 \<and> m = 0 \<and> l = 0"
| "client_phase Client_binding s m l \<longleftrightarrow> s = 1 \<and> m = 0 \<and> l = 1"
| "client_phase Client_bound s m l \<longleftrightarrow> s = 1 \<and> m = 0 \<and> l = 1"
| "client_phase (Client_submitting i) s m l \<longleftrightarrow> i < 3 \<and> s = i + 2 \<and> m = i + 1 \<and> l = 2 * i + 3"
| "client_phase (Client_submitted i) s m l \<longleftrightarrow> i < 3 \<and> s = i + 2 \<and> m = i + 1 \<and> l = 2 * i + 3"
| "client_phase (Client_pausing i) s m l \<longleftrightarrow> i < 3 \<and> s = i + 2 \<and> m = i + 2 \<and> l = 2 * i + 4"
| "client_phase Client_unbinding s m l \<longleftrightarrow> s = 4 \<and> m = 4 \<and> l = 9"
| "client_phase Client_leaving s m l \<longleftrightarrow> s = 4 \<and> m = 4 \<and> l = 9"
| "client_phase _ s m l \<longleftrightarrow> False"

fun client_receiving :: "client_point \<Rightarrow> bool" where
  "client_receiving Client_bound = True"
| "client_receiving (Client_submitted i) = True"
| "client_receiving Client_leaving = True"
| "client_receiving _ = False"

definition client_send :: "delivery_list \<Rightarrow> nat \<Rightarrow> send_request" where
  "client_send ds k = Send_request (client_requests ! k)"

fun server_phase :: "server_point \<Rightarrow> nat \<Rightarrow> nat \<Rightarrow> nat \<Rightarrow> bool" where
  "server_phase Server_accepting s m l \<longleftrightarrow> s = 0 \<and> m = 0 \<and> l = 0"
| "server_phase Server_awaiting_bind s m l \<longleftrightarrow> s = 0 \<and> m = 0 \<and> l = 1"
| "server_phase Server_binding s m l \<longleftrightarrow> s = 1 \<and> m = 1 \<and> l = 2"
| "server_phase Server_awaiting_submit s m l \<longleftrightarrow> 1 \<le> m \<and> m \<le> 4 \<and> s = m \<and> l = m + 1"
| "server_phase Server_submitting s m l \<longleftrightarrow> 2 \<le> m \<and> m \<le> 4 \<and> s = m \<and> l = m + 1"
| "server_phase (Server_threw _) s m l \<longleftrightarrow> False"

fun server_receiving :: "server_point \<Rightarrow> bool" where
  "server_receiving Server_awaiting_bind = True"
| "server_receiving Server_awaiting_submit = True"
| "server_receiving _ = False"

text \<open>The server answers each request under its number.\<close>

definition server_send :: "delivery_list \<Rightarrow> nat \<Rightarrow> send_request" where
  "server_send ds k = Send_response (server_responses ! k) (fst (snd (ds ! k))) command_status_rok"

lemma less_3: "(i::nat) < 3 \<longleftrightarrow> i = 0 \<or> i = 1 \<or> i = 2"
  by auto

lemma upto_examples:
  "[0..<2] = [0, Suc 0]" "[0..<3] = [0, Suc 0, 2]" "[0..<4] = [0, Suc 0, 2, 3]"
  by (simp_all add: upt_rec)

lemma client_submit_2: "client_submit (Suc (Suc 0)) = client_submit 2"
  by (simp add: numeral_2_eq_2)

lemma client_runs:
  assumes ph: "client_phase p s m l" and ev: "\<not> failed (event_error ev)"
    and exp: "expected_event server_responses (client_receiving p) m ev"
    and r: "client_resume p ev = (out, p', act)"
  shows "\<exists>s' l'. client_phase p' s' (m + length (event_delivers ev)) l' \<and> s' \<le> length client_requests \<and>
           concat (take l' client_lines) = concat (take l client_lines) @ out \<and> act \<noteq> No_more \<and>
           (client_receiving p' \<longleftrightarrow> act = Async_receive) \<and>
           (\<forall>ds. length ds = m \<longrightarrow>
              map (client_send (ds @ event_delivers ev)) [0..<s'] = map (client_send ds) [0..<s] @ action_pdus act)"
  using ph r exp
  by (cases p)
    (auto simp: client_resume_def ev less_3 expected_event_def client_requests_def client_submit_2 client_send_def
      upto_examples       server_responses_def client_loop_def client_lines_def line_def chars_def server_bind_resp_def server_submit_resp_def
      split: if_splits)

lemma server_runs:
  assumes ph: "server_phase p s m l" and ev: "\<not> failed (event_error ev)"
    and exp: "expected_event client_requests (server_receiving p) m ev"
    and r: "server_resume p ev = (out, p', act)"
  shows "\<exists>s' l'. server_phase p' s' (m + length (event_delivers ev)) l' \<and> s' \<le> length server_responses \<and>
           concat (take l' server_lines) = concat (take l server_lines) @ out \<and> act \<noteq> No_more \<and>
           (server_receiving p' \<longleftrightarrow> act = Async_receive) \<and>
           (\<forall>ds. length ds = m \<longrightarrow>
              map (server_send (ds @ event_delivers ev)) [0..<s'] = map (server_send ds) [0..<s] @ action_pdus act)"
  using ph r exp
proof (cases p)
  case Server_awaiting_submit
  then have m: "m = 1 \<or> m = 2 \<or> m = 3" "s = m" "l = m + 1"
    using ph exp by (auto simp: expected_event_def client_requests_def)
  then obtain n st where e: "ev = Received No_error (client_submit (m - 1)) n st"
    using exp Server_awaiting_submit by (auto simp: expected_event_def client_requests_def)
  have o: "out = line (chars ''submit_sm, dest_addr: '' @ to_string (1000 + (m - 1)))
                   @ line (chars ''Sending submit_sm_resp...'')"
    "p' = Server_submitting" "act = Async_respond server_submit_resp n command_status_rok"
    using r ev by (simp_all add: Server_awaiting_submit e server_resume_def client_submit_def)
  have "concat (take (Suc l) server_lines) = concat (take l server_lines) @ out"
    using m by (auto simp: o server_lines_def line_def chars_def to_string_examples)
  moreover have "map (server_send (ds @ [(client_submit (m - 1), n, st)])) [0..<Suc m] =
      map (server_send ds) [0..<m] @ [Send_response server_submit_resp n command_status_rok]" if "length ds = m" for ds
    using that m by (auto simp: server_send_def server_responses_def nth_append upto_examples)
  ultimately show ?thesis using m
    by (intro exI [of _ "Suc m"] exI [of _ "Suc l"]) (auto simp: o e Server_awaiting_submit server_responses_def)
qed (auto simp: server_resume_def ev expected_event_def client_requests_def server_responses_def server_lines_def
      line_def chars_def client_bind_def server_send_def split: if_splits)

lemma client_fails: "client_phase p s m l \<Longrightarrow> failed (event_error ev) \<Longrightarrow>
   client_resume p ev = ([], Client_threw (System_error (event_error ev)), No_more)"
  by (simp add: client_resume_def)

lemma server_fails: "server_phase p s m l \<Longrightarrow> failed (event_error ev) \<Longrightarrow>
   server_resume p ev = ([], Server_threw (System_error (event_error ev)), No_more)"
  by (simp add: server_resume_def)

interpretation client_part: dialogue client_resume client_phase client_receiving Client_threw client_send
    client_requests server_responses client_lines
proof unfold_locales
  show "pdu_ok pdu" if "pdu \<in> set client_requests" for pdu
    using that example_pdus_ok(1) by (simp add: list_all_iff)
qed (fact client_runs client_fails | simp add: client_send_def example_pdus_short)+

interpretation server_part: dialogue server_resume server_phase server_receiving Server_threw server_send
    server_responses client_requests server_lines
proof unfold_locales
  show "pdu_ok pdu" if "pdu \<in> set server_responses" for pdu
    using that example_pdus_ok(2) by (simp add: list_all_iff)
qed (fact server_runs server_fails | simp add: server_send_def example_pdus_short)+

subsection \<open>Both programs\<close>

abbreviation client_keeps :: "endpoint \<Rightarrow> client_point app \<Rightarrow> bool" where
  "client_keeps \<equiv> dialogue_inv client_phase client_receiving Client_threw client_send client_requests client_lines"

abbreviation server_keeps :: "endpoint \<Rightarrow> server_point app \<Rightarrow> bool" where
  "server_keeps \<equiv> dialogue_inv server_phase server_receiving Server_threw server_send server_responses server_lines"

definition example_inv :: "example \<Rightarrow> bool" where
  "example_inv x \<longleftrightarrow>
     network_reachable (network_of x) \<and>
     client_keeps (network_of x Side_A) (client_app x) \<and> server_keeps (network_of x Side_B) (server_app x)"

lemma calling_init: "calling (endpoint_init s) Await_other 0"
proof -
  have "in_order (half (endpoint_init s)) []"
    by (auto simp: in_order_def send_log_def endpoint_init_def send_init_def pdu_calls_def pdu_frames_def
        intro: exI [of _ "[]"])
  then show ?thesis by (auto simp: calling_def receives_def endpoint_init_def)
qed

lemma init_keeps:
  "client_keeps (endpoint_init s) \<lparr>point = Client_connecting, awaits = Await_other, printed = []\<rparr>"
  "server_keeps (endpoint_init s) \<lparr>point = Server_accepting, awaits = Await_other, printed = []\<rparr>"
proof -
  have "pdus_of (endpoint_init s) = []" by (simp add: endpoint_init_def send_init_def)
  note init = calling_init [of s] this
  show "client_keeps (endpoint_init s) \<lparr>point = Client_connecting, awaits = Await_other, printed = []\<rparr>"
    by (rule client_part.keepsI [OF init(1), of 0 _ 0]) (simp_all add: init)
  show "server_keeps (endpoint_init s) \<lparr>point = Server_accepting, awaits = Await_other, printed = []\<rparr>"
    by (rule server_part.keepsI [OF init(1), of 0 _ 0]) (simp_all add: init)
qed

lemma example_inv_init: "example_inv example_init"
  using network_start [of "\<lambda>_. 60"] init_keeps by (simp add: example_inv_def example_init_def)

lemma example_inv_net:
  assumes inv: "example_inv x" and st: "network_step (network_of x) a l n'" "spontaneous l"
  shows "example_inv (x\<lparr>network_of := n'\<rparr>)"
proof -
  have net: "network_reachable (network_of x)" using inv by (simp add: example_inv_def)
  obtain e where e: "endpoint_step (network_of x a) l e" "n' = (network_of x)(a := e)"
    using st(1) by (auto elim: network_step.cases)
  note s = network_sends_inv [OF net, of a]
  have "network_reachable n'" by (rule network_next [OF net st(1)])
  moreover have "client_keeps (n' Side_A) (client_app x)"
    using inv client_part.net_step [OF _ e(1) st(2) s] by (auto simp: example_inv_def e(2))
  moreover have "server_keeps (n' Side_B) (server_app x)"
    using inv server_part.net_step [OF _ e(1) st(2) s] by (auto simp: example_inv_def e(2))
  ultimately show ?thesis by (simp add: example_inv_def)
qed

lemma performs_reachable: "network_reachable n \<Longrightarrow> performs act a n n' \<Longrightarrow> network_reachable n'"
  by (auto simp: performs_def intro: network_next split: option.splits)

lemma example_received:
  assumes "example_inv x"
  shows "prefix (map fst (client_deliveries (network_of x Side_A))) server_responses"
    "prefix (map fst (client_deliveries (network_of x Side_B))) client_requests"
  using assms client_part.peer_receives [of "network_of x" Side_B] server_part.peer_receives [of "network_of x" Side_A]
  by (auto simp: example_inv_def)

lemma example_inv_step:
  assumes inv: "example_inv x" and st: "example_step x x'"
  shows "example_inv x'"
proof -
  have net: "network_reachable (network_of x)" using inv by (simp add: example_inv_def)
  note s = network_sends_inv [OF net]
  from st show ?thesis
  proof (cases rule: example_step.cases)
    case (example_net a l n')
    then show ?thesis using example_inv_net [OF inv] by simp
  next
    case (example_client ev out p act n')
    have k: "client_keeps (network_of x Side_A) (client_app x)" using inv by (simp add: example_inv_def)
    from client_part.app_step [OF k s example_received(1) [OF inv] example_client(2-4)]
    show ?thesis using inv performs_reachable [OF net example_client(4)]
      by (simp add: example_inv_def example_client(1))
  next
    case (example_server ev out p act n')
    have k: "server_keeps (network_of x Side_B) (server_app x)" using inv by (simp add: example_inv_def)
    from server_part.app_step [OF k s example_received(2) [OF inv] example_server(2-4)]
    show ?thesis using inv performs_reachable [OF net example_server(4)]
      by (simp add: example_inv_def example_server(1))
  qed
qed

lemma example_reachable_inv: "example_reachable x \<Longrightarrow> example_inv x"
  by (induction rule: example_reachable.induct) (simp_all add: example_inv_init example_inv_step)

text \<open>The responses a client receives are the server's answers to the requests that one received, in order.\<close>

lemma consumed_deliveries: "prefix (consumed m e) (client_deliveries e)"
  by (metis append_take_drop_id client_deliveries_def concat_append consumed_def map_append prefixI)

lemma server_answers:
  assumes d: "list_all2 delivered_as (map (server_send ds) [0..<j]) rs" and j: "j \<le> length ds" and ds: "prefix ds all"
  shows "rs = map (\<lambda>k. (server_responses ! k, fst (snd (all ! k)), command_status_rok)) [0..<j]"
proof (rule nth_equalityI)
  show len: "length rs = length (map (\<lambda>k. (server_responses ! k, fst (snd (all ! k)), command_status_rok)) [0..<j])"
    using list_all2_lengthD [OF d] by simp
  fix k assume k: "k < length rs"
  then have "delivered_as (server_send ds k) (rs ! k)" using list_all2_nthD2 [OF d k] len by simp
  moreover have "all ! k = ds ! k" using ds j k len by (auto simp: prefix_def nth_append)
  ultimately show "rs ! k = map (\<lambda>k. (server_responses ! k, fst (snd (all ! k)), command_status_rok)) [0..<j] ! k"
    using k len by (cases "rs ! k") (simp add: server_send_def)
qed

lemma server_phase_sent: "server_phase p s m l \<Longrightarrow> s \<le> m"
  by (cases p) auto

lemma example_answers:
  assumes "example_inv x"
  shows "\<exists>j \<le> length (client_deliveries (network_of x Side_B)).
           client_deliveries (network_of x Side_A) =
             map (\<lambda>k. (server_responses ! k, fst (snd (client_deliveries (network_of x Side_B) ! k)), command_status_rok)) [0..<j]"
proof -
  let ?A = "network_of x Side_A" and ?B = "network_of x Side_B"
  have net: "network_reachable (network_of x)" and inv: "server_keeps ?B (server_app x)"
    using assms by (simp_all add: example_inv_def)
  obtain s m l p where i: "calling ?B (awaits (server_app x)) m" "pdus_of ?B = map (server_send (consumed m ?B)) [0..<s]"
    "server_phase p s m l"
    using inv by (auto simp: dialogue_inv_def)
  obtain pending where ord: "in_order (half ?B) pending" using i(1) by (auto simp: calling_def)
  obtain log where "send_log (half ?B) log" using network_log [OF net] by blast
  from server_part.sends_ok [OF inv this] have "sends_ok ?B" .
  then obtain k where k: "list_all2 delivered_as (take k (pdus_of ?B)) (client_deliveries ?A)"
    using in_order_deliveries [OF net, of Side_A pending] ord by auto
  let ?j = "min k s"
  have "take k (pdus_of ?B) = map (server_send (consumed m ?B)) [0..<?j]"
    by (simp add: i(2) take_map take_upt min_def)
  moreover have j: "?j \<le> length (consumed m ?B)"
    using server_phase_sent [OF i(3)] consumed_length [OF i(1)] by simp
  ultimately show ?thesis
    using k server_answers [OF _ j consumed_deliveries] prefix_length_le [OF consumed_deliveries [of m ?B]]
    by (intro exI [of _ ?j]) simp
qed

end
