(* ===== verification/Undisturbed.thy ===== *)
theory Undisturbed
  imports Network_Sample
begin

text \<open>
  What an undisturbed exchange does to the sessions: a send that is written at once and as a whole.
\<close>

text \<open>Nothing changes for the receiver.\<close>

definition same_receiver :: "endpoint \<Rightarrow> endpoint \<Rightarrow> bool" where
  "same_receiver e e' \<longleftrightarrow>
     recv_pc e' = recv_pc e \<and> recv_op e' = recv_op e \<and> outcomes e' = outcomes e \<and> taken e' = taken e \<and>
     receive_buf (endpoint_session e') = receive_buf (endpoint_session e)"

lemma same_receiver_states:
  assumes "same_receiver e e'" "idle_sends e'"
  shows "at_rest e \<Longrightarrow> at_rest e'" "listening e \<Longrightarrow> listening e'"
  using assms
  by (simp_all add: same_receiver_def at_rest_def listening_def reading_def receive_inv_def received_def)

lemma same_receiver_trans: "same_receiver e e' \<Longrightarrow> same_receiver e' e'' \<Longrightarrow> same_receiver e e''"
  by (simp add: same_receiver_def)

text \<open>A write under way of which the socket has taken nothing.\<close>

definition writing_out :: "endpoint \<Rightarrow> nat \<Rightarrow> u32 \<Rightarrow> octets \<Rightarrow> bool" where
  "writing_out e i n w \<longleftrightarrow>
     \<not> broken e \<and> i < length (ops (half e)) \<and> pc (ops (half e) ! i) = Writing n \<and>
     send_buf (endpoint_session e) = w \<and> send_cv (endpoint_session e) = [] \<and> written e = 0"

lemma initiated:
  assumes e: "idle_sends e" and bf: "build_frame r (endpoint_session e) = (Inr n, s)"
  shows "writing_out (with_half (initiate r (half e)) e) (length (ops (half e))) n (request_frame r n)"
    "same_receiver e (with_half (initiate r (half e)) e)"
    "length (ops (initiate r (half e))) = Suc (length (ops (half e)))"
proof -
  have "send_buf (sess (half e)) = []" "send_cv (sess (half e)) = []" "\<not> broken e"
    using e by (simp_all add: idle_sends_def)
  moreover have "send_cv s = send_cv (endpoint_session e)" "receive_buf s = receive_buf (endpoint_session e)"
    using build_frame_ok [OF bf] by simp_all
  ultimately show "writing_out (with_half (initiate r (half e)) e) (length (ops (half e))) n (request_frame r n)"
    "same_receiver e (with_half (initiate r (half e)) e)"
    "length (ops (initiate r (half e))) = Suc (length (ops (half e)))"
    using bf build_frame_request(1) [OF bf]
    by (simp_all add: writing_out_def same_receiver_def with_half_def initiate_def try_send_def set_op_def)
qed

lemma written_out:
  assumes e: "writing_out e i n w"
  shows "\<exists>e1 e2 m. endpoint_step e (E_transfer (length w)) e1 \<and> endpoint_step e1 (E_send (L_written i No_error)) e2 \<and>
           sent e2 = sent e @ w \<and> same_receiver e e2 \<and> idle_sends e2 \<and> recv_send e2 = recv_send e \<and>
           length (ops (half e2)) = length (ops (half e)) \<and> pc (ops (half e2) ! i) = Completed No_error m"
proof -
  have w: "\<not> broken e" "i < length (ops (half e))" "pc (ops (half e) ! i) = Writing n" "send_buf (endpoint_session e) = w"
    "send_cv (endpoint_session e) = []" "written e = 0"
    using e by (simp_all add: writing_out_def)
  define e1 where "e1 = e\<lparr>sent := sent e @ w, written := length w\<rparr>"
  have "writing (half e) i" using w by (simp add: writing_def)
  from endpoint_transfer [OF this w(1) refl, of "length w"] have s1: "endpoint_step e (E_transfer (length w)) e1"
    by (simp add: w(4,6) e1_def)
  let ?sys = "write_done i No_error n (half e)"
  have "send_step (half e1) (L_written i No_error) ?sys" using w(2,3) step_written [of i "half e" n] by (simp add: e1_def)
  from endpoint_send [OF this] have s2: "endpoint_step e1 (E_send (L_written i No_error)) ((with_half ?sys e1)\<lparr>broken := False\<rparr>)"
    using w(1,4) by (simp add: e1_def)
  have d: "\<exists>m. ?sys = set_op i (\<lambda>op. op\<lparr>pc := Completed No_error m\<rparr>) ((half e)\<lparr>sess := (sess (half e))\<lparr>send_buf := []\<rparr>\<rparr>)"
    by (cases "request (ops (half e) ! i)")
      (auto simp: write_done_defs complete_def release_send_buf_def cancel_one_def w(5))
  then obtain m where "?sys = set_op i (\<lambda>op. op\<lparr>pc := Completed No_error m\<rparr>) ((half e)\<lparr>sess := (sess (half e))\<lparr>send_buf := []\<rparr>\<rparr>)"
    by blast
  then have "sess ?sys = (sess (half e))\<lparr>send_buf := []\<rparr>" "length (ops ?sys) = length (ops (half e))"
    "pc (ops ?sys ! i) = Completed No_error m"
    using w(2) by (simp_all add: set_op_def)
  then have "sent ((with_half ?sys e1)\<lparr>broken := False\<rparr>) = sent e @ w \<and>
      same_receiver e ((with_half ?sys e1)\<lparr>broken := False\<rparr>) \<and> idle_sends ((with_half ?sys e1)\<lparr>broken := False\<rparr>) \<and>
      recv_send ((with_half ?sys e1)\<lparr>broken := False\<rparr>) = recv_send e \<and>
      length (ops (half ((with_half ?sys e1)\<lparr>broken := False\<rparr>))) = length (ops (half e)) \<and>
      pc (ops (half ((with_half ?sys e1)\<lparr>broken := False\<rparr>)) ! i) = Completed No_error m"
    by (simp add: with_half_def e1_def same_receiver_def idle_sends_def w(5))
  then show ?thesis using s1 s2 by blast
qed

lemma client_sends:
  assumes e: "idle_sends e" and r: "admissible_request r" "request_fits r" "client_label (L_initiate r)"
  shows "\<exists>e1 n. endpoint_step e (E_send (L_initiate r)) e1 \<and>
           writing_out e1 (length (ops (half e))) n (request_frame r n) \<and> own_number r n \<and>
           same_receiver e e1 \<and> sent e1 = sent e \<and> length (ops (half e1)) = Suc (length (ops (half e)))"
proof -
  obtain n s where bf: "build_frame r (endpoint_session e) = (Inr n, s)" using build_frame_fits [OF r(2)] by blast
  let ?e1 = "with_half (initiate r (half e)) e"
  have "endpoint_step e (E_send (L_initiate r)) (?e1\<lparr>broken := broken e\<rparr>)"
    using endpoint_send [OF step_initiate [OF r(1)] r(3)] by simp
  moreover have "?e1\<lparr>broken := broken e\<rparr> = ?e1" by (simp add: with_half_def)
  moreover have "sent ?e1 = sent e" "half ?e1 = initiate r (half e)" by (simp_all add: with_half_def)
  ultimately show ?thesis
    using initiated [OF e bf] build_frame_request(2) [OF bf] unfolding own_number_def
    by (intro exI [of _ ?e1] exI [of _ n]) simp
qed

subsection \<open>The unbind handshake\<close>

definition command_frame :: "command_id \<Rightarrow> u32 \<Rightarrow> octets" where
  "command_frame cid n = request_frame (Send_command cid n) n"

lemma command_frame_facts:
  "frame_header (command_frame cid n) = (16, cid, command_status_rok, n)" "length (command_frame cid n) = 16"
  "good_frame 131072 (command_frame cid n)"
proof -
  show h: "frame_header (command_frame cid n) = (16, cid, command_status_rok, n)"
    using frame_header_octets [where body = "[]"]
    by (simp only: command_frame_def command_frame_octets) (simp add: header_length_def)
  show l: "length (command_frame cid n) = 16"
    by (simp only: command_frame_def command_frame_octets) (simp add: header_length_def)
  show "good_frame 131072 (command_frame cid n)" by (simp add: good_frame_def h l header_length_def)
qed

lemma command_built: "\<exists>s'. build_frame (Send_command cid n) s = (Inr n, s')"
  by (simp add: build_frame_defs)

lemma client_unbinds:
  assumes e: "idle_sends e"
  shows "\<exists>e1 n. endpoint_step e (E_send L_unbind) e1 \<and>
           writing_out e1 (length (ops (half e))) n (command_frame command_id_unbind n) \<and>
           same_receiver e e1 \<and> sent e1 = sent e \<and> length (ops (half e1)) = Suc (length (ops (half e)))"
proof -
  let ?r = "Send_command command_id_unbind"
  obtain n s where n: "next_sequence_number (endpoint_session e) = (n, s)" by fastforce
  define e' where "e' = e\<lparr>half := (half e)\<lparr>sess := s\<rparr>\<rparr>"
  have f: "send_buf s = send_buf (endpoint_session e)" "send_cv s = send_cv (endpoint_session e)"
    "receive_buf s = receive_buf (endpoint_session e)"
    using next_sequence_number_frame [OF n] by simp_all
  then have e': "idle_sends e'" using e by (simp add: idle_sends_def e'_def)
  obtain s' where "build_frame (?r n) (endpoint_session e') = (Inr n, s')" using command_built by blast
  note i = initiated [OF e' this, folded command_frame_def]
  let ?e1 = "with_half (initiate (?r n) (half e')) e'"
  have "?e1 = (with_half (async_send_unbind (half e)) e)\<lparr>broken := broken e\<rparr>"
    by (simp add: with_half_def e'_def async_send_unbind_def n)
  then have "endpoint_step e (E_send L_unbind) ?e1" using endpoint_send [OF step_unbind, of e] by simp
  moreover have "same_receiver e ?e1"
    using i(2) f(3) by (simp add: same_receiver_def e'_def)
  moreover have "sent ?e1 = sent e" "half ?e1 = initiate (?r n) (half e')" "ops (half e') = ops (half e)"
    by (simp_all add: with_half_def e'_def)
  ultimately show ?thesis using i(1,3) by (intro exI [of _ ?e1] exI [of _ n]) simp
qed

lemma hears_command:
  assumes e: "listening e" and w: "w = command_frame cid n" "cid = command_id_unbind \<or> cid = command_id_unbind_resp"
  shows "\<exists>op s. resume (Read_done w No_error False) (Recv_reading, recv_op e, endpoint_session e) =
           Some (if cid = command_id_unbind then (Send_cmd command_id_unbind_resp n, Recv_answering_unbind, op, s)
                 else finish_unbind op s) \<and>
           send_buf s = [] \<and> send_cv s = [] \<and> event_possible (Read_done w No_error False) e"
proof -
  let ?s = "endpoint_session e" and ?ev = "Read_done w No_error False"
  have l: "reading 131072 ?s" "received ?s = []" "recv_pc e = Recv_reading" "idle_sends e"
    "\<not> needs_more (recv_op e)" "\<not> needs_post (recv_op e)"
    using e by (simp_all add: listening_def)
  have good: "good_frame 131072 w" by (simp add: w(1) command_frame_facts)
  obtain op s where r: "resume ?ev (Recv_reading, recv_op e, ?s) = receive_loop op s"
    and s: "receive_inv 131072 s" "received s = w" "\<not> needs_more op" and c: "complete_frame w"
    using read_whole_frame [OF l(1,2) good l(5)] by blast
  have h: "frame_header (received s) = (16, cid, command_status_rok, n)" by (simp add: s(2) w(1) command_frame_facts)
  let ?r = "if cid = command_id_unbind
            then (Send_cmd command_id_unbind_resp n, Recv_answering_unbind, with_header w op, s)
            else finish_unbind (with_header w op) s"
  have loop: "receive_loop op s = Some ?r"
    using receive_loop_complete [OF s(1,3), unfolded s(2), OF c h [unfolded s(2)]] w(2) by (auto simp: Let_def session_commands_distinct [symmetric])
  have "send_side_kept ?s s"
  proof -
    have "resume ?ev (Recv_reading, recv_op e, ?s) = Some ?r" using r loop by simp
    from resume_send_side [OF this] show ?thesis
      by (auto simp: finish_unbind_def complete_with_def shutdown_socket_def send_side_kept_def consume_def sequence_inv_def
          split: if_splits)
  qed
  then have "send_buf s = []" "send_cv s = []" using l(4) by (simp_all add: send_side_kept_def idle_sends_def)
  moreover have "event_possible ?ev e" using l(1-3) good by (simp add: reading_def good_frame_def)
  ultimately show ?thesis using r loop by metis
qed

lemma hears_unbind_resp:
  assumes e: "listening e" and w: "w = command_frame command_id_unbind_resp n"
  shows "\<exists>e' pdu m st. endpoint_step e (E_event (Read_done w No_error False)) e' \<and>
           outcomes e' = outcomes e @ [Complete (make_error_code error_unbinded) pdu m st]"
proof -
  obtain op s where r: "resume (Read_done w No_error False) (Recv_reading, recv_op e, endpoint_session e) =
      Some (finish_unbind op s)" and p: "event_possible (Read_done w No_error False) e"
    using hears_command [OF e w] by auto
  have "recv_pc e = Recv_reading" using e by (simp add: listening_def)
  then show ?thesis using endpoint_event [OF p, of "finish_unbind op s"] r
    by (force simp: finish_unbind_def complete_with_def apply_result_def)
qed

lemma hears_unbind:
  assumes e: "listening e" and w: "w = command_frame command_id_unbind n"
  shows "\<exists>e1 e2 e3 e4 i pdu m st. endpoint_step e (E_event (Read_done w No_error False)) e1 \<and>
           endpoint_step e1 (E_transfer 16) e2 \<and> endpoint_step e2 (E_send (L_written i No_error)) e3 \<and>
           endpoint_step e3 (E_event (Sent No_error)) e4 \<and>
           sent e4 = sent e @ command_frame command_id_unbind_resp n \<and>
           outcomes e4 = outcomes e @ [Complete (make_error_code error_unbinded) pdu m st]"
proof -
  let ?c = "command_id_unbind_resp" and ?i = "length (ops (half e))"
  obtain op s where r: "resume (Read_done w No_error False) (Recv_reading, recv_op e, endpoint_session e) =
      Some (Send_cmd ?c n, Recv_answering_unbind, op, s)" and s: "send_buf s = []" "send_cv s = []"
    and p: "event_possible (Read_done w No_error False) e"
    using hears_command [OF e w] by auto
  have pc: "recv_pc e = Recv_reading" "\<not> broken e" using e by (simp_all add: listening_def idle_sends_def)
  let ?e0 = "e\<lparr>taken := taken e + length w, half := (half e)\<lparr>sess := s\<rparr>, recv_pc := Recv_answering_unbind,
      recv_op := op, recv_send := None\<rparr>"
  define e1 where "e1 = (with_half (initiate (Send_command ?c n) (half ?e0)) ?e0)\<lparr>recv_send := Some ?i\<rparr>"
  have s1: "endpoint_step e (E_event (Read_done w No_error False)) e1"
    using endpoint_event [OF p, of "(Send_cmd ?c n, Recv_answering_unbind, op, s)"] r pc
    by (simp add: apply_result_def e1_def Let_def)
  have "idle_sends ?e0" using s pc by (simp add: idle_sends_def)
  moreover obtain s' where "build_frame (Send_command ?c n) (endpoint_session ?e0) = (Inr n, s')" using command_built by blast
  ultimately have i: "writing_out (with_half (initiate (Send_command ?c n) (half ?e0)) ?e0) (length (ops (half ?e0))) n (command_frame ?c n)"
    "same_receiver ?e0 (with_half (initiate (Send_command ?c n) (half ?e0)) ?e0)"
    using initiated [of ?e0] unfolding command_frame_def by blast+
  then have "writing_out e1 ?i n (command_frame ?c n)" by (simp add: writing_out_def e1_def)
  from written_out [OF this] obtain e2 e3 k where
    s2: "endpoint_step e1 (E_transfer 16) e2" "endpoint_step e2 (E_send (L_written ?i No_error)) e3"
    and e3: "sent e3 = sent e1 @ command_frame ?c n" "same_receiver e1 e3" "recv_send e3 = recv_send e1"
      "length (ops (half e3)) = length (ops (half e1))" "pc (ops (half e3) ! ?i) = Completed No_error k"
    by (auto simp: command_frame_facts)
  have e1: "recv_pc e1 = Recv_answering_unbind" "recv_op e1 = op" "recv_send e1 = Some ?i" "sent e1 = sent e"
    "outcomes e1 = outcomes e" "?i < length (ops (half e1))"
    using i by (simp_all add: e1_def same_receiver_def writing_out_def with_half_def)
  have "event_possible (Sent No_error) e3" using e1 e3 by simp
  from endpoint_event [OF this, of "finish_unbind op (endpoint_session e3)"]
  have s3: "endpoint_step e3 (E_event (Sent No_error)) (apply_result (finish_unbind op (endpoint_session e3)) e3)"
    (is "endpoint_step e3 _ ?e4")
    using e1 e3(2) by (simp add: same_receiver_def resume_answering_unbind_def)
  have "\<exists>pdu m st. outcomes ?e4 = outcomes e @ [Complete (make_error_code error_unbinded) pdu m st]"
    using e3(2) e1(5) by (auto simp: apply_result_def finish_unbind_def complete_with_def same_receiver_def)
  moreover have "sent ?e4 = sent e @ command_frame ?c n"
    using e3(1) e1(4) by (simp add: apply_result_def finish_unbind_def complete_with_def)
  ultimately show ?thesis using s1 s2 s3 by blast
qed

end
