(* ===== verification/Example_Sample.thy ===== *)
theory Example_Sample
  imports Example_Run Undisturbed
begin

text \<open>
  The run of the two example programs that nothing disturbs: the whole dialogue, and the unbind
  handshake at its end.
\<close>

subsection \<open>Steps\<close>

definition arrives :: "endpoint \<Rightarrow> endpoint \<Rightarrow> client_point app \<Rightarrow> server_point app \<Rightarrow> bool" where
  "arrives a b c s \<longleftrightarrow> example_reachable \<lparr>network_of = connect a b, client_app = c, server_app = s\<rparr>"

lemma arrives_start:
  "arrives fresh_endpoint fresh_endpoint \<lparr>point = Client_connecting, awaits = Await_other, printed = []\<rparr>
     \<lparr>point = Server_accepting, awaits = Await_other, printed = []\<rparr>"
  using example_start by (simp add: arrives_def connect_same example_init_def)

lemma arrives_net:
  assumes "arrives a b c s" "spontaneous l"
  shows "endpoint_step a l a' \<Longrightarrow> (\<And>ev. l = E_event ev \<Longrightarrow> prefix (arrived ev) (drop (taken a) (sent b))) \<Longrightarrow>
           arrives a' b c s"
    "endpoint_step b l b' \<Longrightarrow> (\<And>ev. l = E_event ev \<Longrightarrow> prefix (arrived ev) (drop (taken b) (sent a))) \<Longrightarrow>
           arrives a b' c s"
proof -
  let ?x = "\<lparr>network_of = connect a b, client_app = c, server_app = s\<rparr>"
  have x: "example_reachable ?x" using assms(1) by (simp add: arrives_def)
  show "arrives a' b c s" if "endpoint_step a l a'" "\<And>ev. l = E_event ev \<Longrightarrow> prefix (arrived ev) (drop (taken a) (sent b))"
    using example_next [OF x example_net [OF _ assms(2), of ?x Side_A "(connect a b)(Side_A := a')"]]
      network_move [of "connect a b" Side_A l a'] that by (simp add: arrives_def connect_update)
  show "arrives a b' c s" if "endpoint_step b l b'" "\<And>ev. l = E_event ev \<Longrightarrow> prefix (arrived ev) (drop (taken b) (sent a))"
    using example_next [OF x example_net [OF _ assms(2), of ?x Side_B "(connect a b)(Side_B := b')"]]
      network_move [of "connect a b" Side_B l b'] that by (simp add: arrives_def connect_update)
qed

text \<open>A coroutine goes on: its action moves its endpoint, or does not concern the session.\<close>

definition action_moves :: "app_action \<Rightarrow> endpoint \<Rightarrow> endpoint \<Rightarrow> bool" where
  "action_moves act e e' \<longleftrightarrow> (case action_label act of None \<Rightarrow> e' = e | Some l \<Rightarrow> endpoint_step e l e')"

lemma action_moves_performs:
  "action_moves act a a' \<Longrightarrow> performs act Side_A (connect a b) (connect a' b)"
  "action_moves act b b' \<Longrightarrow> performs act Side_B (connect a b) (connect a b')"
  using network_move [of "connect a b" Side_A _ a'] network_move [of "connect a b" Side_B _ b']
  by (cases act; force simp: action_moves_def performs_def connect_update)+

lemma client_goes_on:
  assumes "arrives a b c s" "awaited (awaits c) a ev" "client_resume (point c) ev = (out, p, act)" "action_moves act a a'"
  shows "arrives a' b \<lparr>point = p, awaits = next_await act a, printed = printed c @ out\<rparr> s"
proof -
  let ?x = "\<lparr>network_of = connect a b, client_app = c, server_app = s\<rparr>"
  note st = example_client [of ?x ev out p act "connect a' b"]
  from example_next [OF assms(1) [unfolded arrives_def] st] show ?thesis
    using assms(2,3) action_moves_performs(1) [OF assms(4)] by (simp add: arrives_def)
qed

lemma server_goes_on:
  assumes "arrives a b c s" "awaited (awaits s) b ev" "server_resume (point s) ev = (out, p, act)" "action_moves act b b'"
  shows "arrives a b' c \<lparr>point = p, awaits = next_await act b, printed = printed s @ out\<rparr>"
proof -
  let ?x = "\<lparr>network_of = connect a b, client_app = c, server_app = s\<rparr>"
  note st = example_server [of ?x ev out p act "connect a b'"]
  from example_next [OF assms(1) [unfolded arrives_def] st] show ?thesis
    using assms(2,3) action_moves_performs(2) [OF assms(4)] by (simp add: arrives_def)
qed

lemma example_pdu_frame_read:
  assumes "pdu_ok pdu" "length (pdu_frame pdu n st) < 100"
  shows "good_frame 131072 (pdu_frame pdu n st)"
    "\<exists>len cid. frame_header (pdu_frame pdu n st) = (len, cid, st, n) \<and> \<not> session_command cid \<and>
       decode_pdu cid (pdu_frame pdu n st) = pdu"
proof -
  show "good_frame 131072 (pdu_frame pdu n st)" using pdu_frame_read(3) [OF assms(1)] assms(2) by simp
  obtain bs cid where c: "pdu_command_id pdu = Some cid" and d: "deserialize_alternative cid bs = Inr pdu"
    and w: "pdu_frame pdu n st = header_octets (of_nat (header_length + length bs)) cid n st @ bs"
    using pdu_ok_serialized [OF assms(1)] by blast
  have "frame_header (pdu_frame pdu n st) = (of_nat (header_length + length bs), cid, st, n)"
    by (simp add: w frame_header_octets)
  moreover have "decode_pdu cid (pdu_frame pdu n st) = pdu" by (simp add: decode_pdu_def w d)
  moreover have "\<not> session_command cid" using pdu_command_not_session [OF c] by (simp add: session_command_def)
  ultimately show "\<exists>len cid. frame_header (pdu_frame pdu n st) = (len, cid, st, n) \<and> \<not> session_command cid \<and>
      decode_pdu cid (pdu_frame pdu n st) = pdu" by blast
qed

text \<open>A frame of the peer is heard.\<close>

lemma hears_pdu:
  assumes "listening e" "pdu_ok pdu" "length (pdu_frame pdu n st) < 100"
  shows "\<exists>e'. endpoint_step e (E_event (Read_done (pdu_frame pdu n st) No_error False)) e' \<and> at_rest e' \<and> sent e' = sent e \<and>
           taken e' = taken e + length (pdu_frame pdu n st) \<and> outcomes e' = outcomes e @ [Complete No_error pdu n st]"
proof -
  note f = example_pdu_frame_read [OF assms(2,3)]
  obtain len cid where h: "frame_header (pdu_frame pdu n st) = (len, cid, st, n)" "\<not> session_command cid"
    "decode_pdu cid (pdu_frame pdu n st) = pdu" using f(2) by blast
  from hears [OF assms(1) f(1) h(1,2)] show ?thesis unfolding h(3) by blast
qed

lemma arrives_heard:
  assumes x: "arrives a b c s" and p: "pdu_ok pdu" "length (pdu_frame pdu n st) < 100"
  shows "listening b \<Longrightarrow> sent a = pre @ pdu_frame pdu n st \<Longrightarrow> taken b = length pre \<Longrightarrow>
           \<exists>b'. arrives a b' c s \<and> at_rest b' \<and> sent b' = sent b \<and> taken b' = length (sent a) \<and>
             outcomes b' = outcomes b @ [Complete No_error pdu n st]"
    "listening a \<Longrightarrow> sent b = pre @ pdu_frame pdu n st \<Longrightarrow> taken a = length pre \<Longrightarrow>
           \<exists>a'. arrives a' b c s \<and> at_rest a' \<and> sent a' = sent a \<and> taken a' = length (sent b) \<and>
             outcomes a' = outcomes a @ [Complete No_error pdu n st]"
proof -
  let ?ev = "Read_done (pdu_frame pdu n st) No_error False"
  show "\<exists>b'. arrives a b' c s \<and> at_rest b' \<and> sent b' = sent b \<and> taken b' = length (sent a) \<and>
          outcomes b' = outcomes b @ [Complete No_error pdu n st]"
    if b: "listening b" "sent a = pre @ pdu_frame pdu n st" "taken b = length pre"
    using hears_pdu [OF b(1) p] arrives_net(2) [OF x, of "E_event ?ev"] b(2,3) by fastforce
  show "\<exists>a'. arrives a' b c s \<and> at_rest a' \<and> sent a' = sent a \<and> taken a' = length (sent b) \<and>
          outcomes a' = outcomes a @ [Complete No_error pdu n st]"
    if a: "listening a" "sent b = pre @ pdu_frame pdu n st" "taken a = length pre"
    using hears_pdu [OF a(1) p] arrives_net(1) [OF x, of "E_event ?ev"] a(2,3) by fastforce
qed

text \<open>One sends a frame, whole and at once, and then listens.\<close>

lemma transmits:
  assumes e: "at_rest e" and e1: "writing_out e1 i n w" "same_receiver e e1" "sent e1 = sent e"
  shows "\<exists>e2 e3 e4. endpoint_step e1 (E_transfer (length w)) e2 \<and> endpoint_step e2 (E_send (L_written i No_error)) e3 \<and>
           awaited (Await_send i) e3 (Completed_with No_error) \<and> endpoint_step e3 E_receive e4 \<and>
           outcomes e3 = outcomes e \<and> listening e4 \<and> sent e4 = sent e @ w \<and> taken e4 = taken e \<and> outcomes e4 = outcomes e"
proof -
  obtain e2 e3 m where s: "endpoint_step e1 (E_transfer (length w)) e2" "endpoint_step e2 (E_send (L_written i No_error)) e3"
    and e3: "sent e3 = sent e1 @ w" "same_receiver e1 e3" "idle_sends e3"
      "length (ops (half e3)) = length (ops (half e1))" "pc (ops (half e3) ! i) = Completed No_error m"
    using written_out [OF e1(1)] by blast
  have same: "same_receiver e e3" by (rule same_receiver_trans [OF e1(2) e3(2)])
  from same_receiver_states(1) [OF this e3(3) e] obtain e4 where
    e4: "endpoint_step e3 E_receive e4" "listening e4" "sent e4 = sent e3" "taken e4 = taken e3" "outcomes e4 = outcomes e3"
    using listens by blast
  moreover have "awaited (Await_send i) e3 (Completed_with No_error)" using e1(1) e3(4,5) by (auto simp: writing_out_def)
  ultimately show ?thesis using s e3(1) e1(3) same
    by (intro exI [of _ e2] exI [of _ e3] exI [of _ e4]) (simp add: same_receiver_def)
qed

lemma client_transmits:
  assumes x: "arrives a b c s" and a: "at_rest a"
    and ev: "awaited (awaits c) a ev" "client_resume (point c) ev = (out, p, act)"
    and act: "action_moves act a a1" "next_await act a = Await_send i" "writing_out a1 i n w" "same_receiver a a1" "sent a1 = sent a"
    and cont: "client_resume p (Completed_with No_error) = ([], p', Async_receive)"
  shows "\<exists>a'. arrives a' b \<lparr>point = p', awaits = Await_receive (length (outcomes a)), printed = printed c @ out\<rparr> s \<and>
           listening a' \<and> sent a' = sent a @ w \<and> taken a' = taken a \<and> outcomes a' = outcomes a"
proof -
  obtain a2 a3 a4 where t: "endpoint_step a1 (E_transfer (length w)) a2" "endpoint_step a2 (E_send (L_written i No_error)) a3"
    "awaited (Await_send i) a3 (Completed_with No_error)" "endpoint_step a3 E_receive a4" "outcomes a3 = outcomes a"
    "listening a4" "sent a4 = sent a @ w" "taken a4 = taken a" "outcomes a4 = outcomes a"
    using transmits [OF a act(3-5)] by blast
  note x1 = client_goes_on [OF x ev act(1), unfolded act(2)]
  note x2 = arrives_net(1) [OF x1 _ t(1), simplified]
  note x3 = arrives_net(1) [OF x2 _ t(2), simplified]
  have "action_moves Async_receive a3 a4" using t(4) by (simp add: action_moves_def)
  then have "arrives a4 b \<lparr>point = p', awaits = Await_receive (length (outcomes a)), printed = printed c @ out\<rparr> s"
    using client_goes_on [OF x3, of "Completed_with No_error" "[]" p' Async_receive a4] cont t(3,5) by simp
  then show ?thesis using t(6-9) by blast
qed

lemma server_transmits:
  assumes x: "arrives a b c s" and b: "at_rest b"
    and ev: "awaited (awaits s) b ev" "server_resume (point s) ev = (out, p, act)"
    and act: "action_moves act b b1" "next_await act b = Await_send i" "writing_out b1 i n w" "same_receiver b b1" "sent b1 = sent b"
    and cont: "server_resume p (Completed_with No_error) = ([], p', Async_receive)"
  shows "\<exists>b'. arrives a b' c \<lparr>point = p', awaits = Await_receive (length (outcomes b)), printed = printed s @ out\<rparr> \<and>
           listening b' \<and> sent b' = sent b @ w \<and> taken b' = taken b \<and> outcomes b' = outcomes b"
proof -
  obtain b2 b3 b4 where t: "endpoint_step b1 (E_transfer (length w)) b2" "endpoint_step b2 (E_send (L_written i No_error)) b3"
    "awaited (Await_send i) b3 (Completed_with No_error)" "endpoint_step b3 E_receive b4" "outcomes b3 = outcomes b"
    "listening b4" "sent b4 = sent b @ w" "taken b4 = taken b" "outcomes b4 = outcomes b"
    using transmits [OF b act(3-5)] by blast
  note x1 = server_goes_on [OF x ev act(1), unfolded act(2)]
  note x2 = arrives_net(2) [OF x1 _ t(1), simplified]
  note x3 = arrives_net(2) [OF x2 _ t(2), simplified]
  have "action_moves Async_receive b3 b4" using t(4) by (simp add: action_moves_def)
  then have "arrives a b4 c \<lparr>point = p', awaits = Await_receive (length (outcomes b)), printed = printed s @ out\<rparr>"
    using server_goes_on [OF x3, of "Completed_with No_error" "[]" p' Async_receive b4] cont t(3,5) by simp
  then show ?thesis using t(6-9) by blast
qed

subsection \<open>A request and its response\<close>

text \<open>Between two rounds: the client's session at rest, the server's listening, nothing on the way.\<close>

definition between_rounds :: "endpoint \<Rightarrow> endpoint \<Rightarrow> bool" where
  "between_rounds a b \<longleftrightarrow> at_rest a \<and> listening b \<and> taken a = length (sent b) \<and> taken b = length (sent a)"

definition received_pdus :: "endpoint \<Rightarrow> pdu_variant list" where
  "received_pdus e = map fst (client_deliveries e)"

lemma round_trip:
  assumes x: "arrives a b c s" and ab: "between_rounds a b" and s: "awaits s = Await_receive (length (outcomes b))"
    and ev: "awaited (awaits c) a ev" "client_resume (point c) ev = (out, p, Async_send req)"
    and cont: "client_resume p (Completed_with No_error) = ([], p', Async_receive)"
    and req: "admissible_request (Send_request req)" "request_fits (Send_request req)" "req \<in> set client_requests"
    and resp: "\<And>n. admissible_request (Send_response resp n command_status_rok)"
      "\<And>n. request_fits (Send_response resp n command_status_rok)" "resp \<in> set server_responses"
    and server: "\<And>n. server_resume (point s) (Received No_error req n command_status_rok) =
                       (sout, q, Async_respond resp n command_status_rok)"
      "server_resume q (Completed_with No_error) = ([], q', Async_receive)"
  shows "\<exists>a' b' n. arrives a' b' \<lparr>point = p', awaits = Await_receive (length (outcomes a)), printed = printed c @ out\<rparr>
             \<lparr>point = q', awaits = Await_receive (length (outcomes b')), printed = printed s @ sout\<rparr> \<and>
           between_rounds a' b' \<and> outcomes a' = outcomes a @ [Complete No_error resp n command_status_rok] \<and>
           received_pdus a' = received_pdus a @ [resp] \<and> received_pdus b' = received_pdus b @ [req]"
proof -
  have a: "at_rest a" "taken a = length (sent b)" and b: "listening b" "taken b = length (sent a)"
    using ab by (simp_all add: between_rounds_def)
  have idle: "idle_sends a" using a(1) by (simp add: at_rest_def)
  obtain a1 n where a1: "endpoint_step a (E_send (L_initiate (Send_request req))) a1"
    "writing_out a1 (length (ops (half a))) n (pdu_frame req n command_status_rok)" "same_receiver a a1" "sent a1 = sent a"
    using client_sends [OF idle req(1,2)] by auto
  have "action_moves (Async_send req) a a1" "next_await (Async_send req) a = Await_send (length (ops (half a)))"
    using a1(1) by (simp_all add: action_moves_def)
  from client_transmits [OF x a(1) ev this a1(2-4) cont]
  obtain a2 where x2: "arrives a2 b \<lparr>point = p', awaits = Await_receive (length (outcomes a)), printed = printed c @ out\<rparr> s"
    and a2: "listening a2" "sent a2 = sent a @ pdu_frame req n command_status_rok" "taken a2 = taken a" "outcomes a2 = outcomes a"
    by blast
  have ok: "pdu_ok req" "pdu_ok resp" using req(3) resp(3) example_pdus_ok by (simp_all add: list_all_iff)
  from arrives_heard(1) [OF x2 ok(1) example_pdus_short(1) [OF req(3)] b(1) a2(2) b(2)]
  obtain b2 where x3: "arrives a2 b2 \<lparr>point = p', awaits = Await_receive (length (outcomes a)), printed = printed c @ out\<rparr> s"
    and b2: "at_rest b2" "sent b2 = sent b" "taken b2 = length (sent a2)"
      "outcomes b2 = outcomes b @ [Complete No_error req n command_status_rok]"
    by blast
  have idle: "idle_sends b2" using b2(1) by (simp add: at_rest_def)
  let ?act = "Async_respond resp n command_status_rok"
  obtain b3 k where b3: "endpoint_step b2 (E_send (L_initiate (Send_response resp n command_status_rok))) b3"
    "writing_out b3 (length (ops (half b2))) k (pdu_frame resp n command_status_rok)" "same_receiver b2 b3" "sent b3 = sent b2"
    using client_sends [OF idle resp(1,2)] by (fastforce simp: own_number_def)
  have "action_moves ?act b2 b3" "next_await ?act b2 = Await_send (length (ops (half b2)))"
    using b3(1) by (simp_all add: action_moves_def)
  moreover have "awaited (awaits s) b2 (Received No_error req n command_status_rok)" by (simp add: s b2(4))
  ultimately obtain b4 where x4: "arrives a2 b4 \<lparr>point = p', awaits = Await_receive (length (outcomes a)), printed = printed c @ out\<rparr>
      \<lparr>point = q', awaits = Await_receive (length (outcomes b2)), printed = printed s @ sout\<rparr>"
    and b4: "listening b4" "sent b4 = sent b2 @ pdu_frame resp n command_status_rok" "taken b4 = taken b2" "outcomes b4 = outcomes b2"
    using server_transmits [OF x3 b2(1) _ server(1) _ _ b3(2-4) server(2)] by blast
  have "taken a2 = length (sent b2)" by (simp add: a2(3) a(2) b2(2))
  from arrives_heard(2) [OF x4 ok(2) example_pdus_short(2) [OF resp(3)] a2(1) b4(2) this]
  obtain a3 where x5: "arrives a3 b4 \<lparr>point = p', awaits = Await_receive (length (outcomes a)), printed = printed c @ out\<rparr>
      \<lparr>point = q', awaits = Await_receive (length (outcomes b2)), printed = printed s @ sout\<rparr>"
    and a3: "at_rest a3" "sent a3 = sent a2" "taken a3 = length (sent b4)"
      "outcomes a3 = outcomes a2 @ [Complete No_error resp n command_status_rok]"
    by blast
  have "between_rounds a3 b4" using a3 b4 b2(3) by (simp add: between_rounds_def)
  then show ?thesis using x5 a3(4) a2(4) b4(4)
    by (intro exI [of _ a3] exI [of _ b4] exI [of _ n]) (simp add: received_pdus_def client_deliveries_def b2(4))
qed

lemma example_requests:
  "admissible_request (Send_request client_bind)" "request_fits (Send_request client_bind)"
  "admissible_request (Send_request (client_submit i))" "i < 3 \<Longrightarrow> request_fits (Send_request (client_submit i))"
  "admissible_request (Send_response server_bind_resp n st)" "request_fits (Send_response server_bind_resp n st)"
  "admissible_request (Send_response server_submit_resp n st)" "request_fits (Send_response server_submit_resp n st)"
  by (auto simp: client_bind_def server_bind_resp_def client_submit_def server_submit_resp_def command_id_defs enum_values
      response_pdu_def request_pdu_def is_response_def bind_transceiver_fits_def bind_transceiver_default_def chars_def
      bind_transceiver_resp_fits_def bind_transceiver_resp_default_def submit_sm_fits_def submit_sm_default_def
      submit_sm_resp_fits_def submit_sm_resp_default_def less_3 to_string_examples)

text \<open>The rounds of the two programs.\<close>

lemma accepts:
  "\<exists>b. arrives fresh_endpoint b \<lparr>point = Client_connecting, awaits = Await_other, printed = []\<rparr>
         \<lparr>point = Server_awaiting_bind, awaits = Await_receive (length (outcomes b)), printed = server_lines ! 0\<rparr> \<and>
       between_rounds fresh_endpoint b \<and> received_pdus b = []"
proof -
  obtain b where b: "endpoint_step fresh_endpoint E_receive b" "listening b" "sent b = sent fresh_endpoint"
    "taken b = taken fresh_endpoint" "outcomes b = outcomes fresh_endpoint"
    using listens [OF fresh_at_rest] by blast
  have "action_moves Async_receive fresh_endpoint b" using b(1) by (simp add: action_moves_def)
  from server_goes_on [OF arrives_start _ _ this, of "Completed_with No_error" "server_lines ! 0" Server_awaiting_bind]
  have "arrives fresh_endpoint b \<lparr>point = Client_connecting, awaits = Await_other, printed = []\<rparr>
      \<lparr>point = Server_awaiting_bind, awaits = Await_receive (length (outcomes b)), printed = server_lines ! 0\<rparr>"
    using b(5) by (simp add: server_resume_def server_lines_def)
  moreover have "between_rounds fresh_endpoint b" using b fresh_at_rest by (simp add: between_rounds_def endpoint_init_def)
  moreover have "received_pdus b = []" using b(5) by (simp add: received_pdus_def client_deliveries_def endpoint_init_def)
  ultimately show ?thesis by blast
qed

lemma bind_round:
  "\<exists>a b n. arrives a b \<lparr>point = Client_bound, awaits = Await_receive 0, printed = client_lines ! 0\<rparr>
         \<lparr>point = Server_awaiting_submit, awaits = Await_receive (length (outcomes b)), printed = server_lines ! 0 @ server_lines ! 1\<rparr> \<and>
       between_rounds a b \<and> outcomes a = [Complete No_error server_bind_resp n command_status_rok] \<and>
       received_pdus a = [server_bind_resp] \<and> received_pdus b = [client_bind]"
proof -
  let ?c = "\<lparr>point = Client_connecting, awaits = Await_other, printed = []\<rparr>"
  obtain b where x: "arrives fresh_endpoint b ?c
      \<lparr>point = Server_awaiting_bind, awaits = Await_receive (length (outcomes b)), printed = server_lines ! 0\<rparr>"
    and b: "between_rounds fresh_endpoint b" "received_pdus b = []"
    using accepts by blast
  have c: "client_resume (point ?c) (Completed_with No_error) = (client_lines ! 0, Client_binding, Async_send client_bind)"
    "client_resume Client_binding (Completed_with No_error) = ([], Client_bound, Async_receive)"
    by (simp_all add: client_resume_def client_lines_def)
  have s: "server_resume (point \<lparr>point = Server_awaiting_bind, awaits = w, printed = pr\<rparr>)
      (Received No_error client_bind n command_status_rok) =
      (server_lines ! 1, Server_binding, Async_respond server_bind_resp n command_status_rok)"
    "server_resume Server_binding (Completed_with No_error) = ([], Server_awaiting_submit, Async_receive)" for n w pr
    by (simp_all add: server_resume_def client_bind_def server_lines_def line_def chars_def)
  have "awaited (awaits ?c) fresh_endpoint (Completed_with No_error)" "client_bind \<in> set client_requests"
    "server_bind_resp \<in> set server_responses"
    by (simp_all add: client_requests_def server_responses_def)
  note r = round_trip [OF x b(1) _ this(1) c example_requests(1,2) this(2) example_requests(5,6) this(3) s]
  have "outcomes fresh_endpoint = []" "received_pdus fresh_endpoint = []"
    by (simp_all add: endpoint_init_def received_pdus_def client_deliveries_def)
  with r b(2) show ?thesis by simp
qed

lemma submit_round:
  assumes x: "arrives a b c \<lparr>point = Server_awaiting_submit, awaits = Await_receive (length (outcomes b)), printed = prs\<rparr>"
    and ab: "between_rounds a b"
    and ev: "awaited (awaits c) a ev" "client_resume (point c) ev = (out, Client_submitting i, Async_send (client_submit i))"
    and i: "i < 3"
  shows "\<exists>a' b'. arrives a' b' \<lparr>point = Client_pausing i, awaits = Await_other, printed = printed c @ out @ client_lines ! 3\<rparr>
         \<lparr>point = Server_awaiting_submit, awaits = Await_receive (length (outcomes b')), printed = prs @ server_lines ! (i + 2)\<rparr> \<and>
       between_rounds a' b' \<and> received_pdus a' = received_pdus a @ [server_submit_resp] \<and>
       received_pdus b' = received_pdus b @ [client_submit i]"
proof -
  have cont: "client_resume (Client_submitting i) (Completed_with No_error) = ([], Client_submitted i, Async_receive)"
    by (simp add: client_resume_def)
  have s: "server_resume (point \<lparr>point = Server_awaiting_submit, awaits = w, printed = prs\<rparr>)
      (Received No_error (client_submit i) n command_status_rok) =
      (server_lines ! (i + 2), Server_submitting, Async_respond server_submit_resp n command_status_rok)"
    "server_resume Server_submitting (Completed_with No_error) = ([], Server_awaiting_submit, Async_receive)" for n w
    using i by (auto simp: server_resume_def client_submit_def server_lines_def line_def chars_def less_3 to_string_examples)
  have m: "client_submit i \<in> set client_requests" "server_submit_resp \<in> set server_responses"
    using i by (auto simp: client_requests_def server_responses_def less_3)
  obtain a' b' n where x': "arrives a' b' \<lparr>point = Client_submitted i, awaits = Await_receive (length (outcomes a)), printed = printed c @ out\<rparr>
        \<lparr>point = Server_awaiting_submit, awaits = Await_receive (length (outcomes b')), printed = prs @ server_lines ! (i + 2)\<rparr>"
    and r: "between_rounds a' b'" "outcomes a' = outcomes a @ [Complete No_error server_submit_resp n command_status_rok]"
      "received_pdus a' = received_pdus a @ [server_submit_resp]" "received_pdus b' = received_pdus b @ [client_submit i]"
    using round_trip [OF x ab _ ev cont example_requests(3) example_requests(4) [OF i] m(1) example_requests(7,8) m(2) s]
    by auto
  have "client_resume (Client_submitted i) (Received No_error server_submit_resp n command_status_rok) =
      (client_lines ! 3, Client_pausing i, Async_other)"
    by (simp add: client_resume_def server_submit_resp_def client_lines_def line_def chars_def)
  moreover have "action_moves Async_other a' a'" by (simp add: action_moves_def)
  ultimately show ?thesis
    using client_goes_on [OF x', of "Received No_error server_submit_resp n command_status_rok" "client_lines ! 3"
        "Client_pausing i" Async_other a'] r
    by (intro exI [of _ a'] exI [of _ b']) simp
qed

text \<open>The whole dialogue, up to the unbind.\<close>

lemma client_pauses:
  "client_resume (Client_pausing i) (Completed_with No_error) =
     (if i < 2 then (client_lines ! 2, Client_submitting (Suc i), Async_send (client_submit (Suc i)))
      else (client_lines ! 8, Client_unbinding, Async_unbind))"
  by (simp add: client_resume_def client_loop_def client_lines_def)

lemma all_rounds:
  "\<exists>a b pr. arrives a b \<lparr>point = Client_pausing 2, awaits = Await_other, printed = pr\<rparr>
         \<lparr>point = Server_awaiting_submit, awaits = Await_receive (length (outcomes b)), printed = concat server_lines\<rparr> \<and>
       between_rounds a b \<and> pr @ client_lines ! 8 = concat client_lines \<and>
       received_pdus a = server_responses \<and> received_pdus b = client_requests"
proof -
  let ?pr0 = "server_lines ! 0 @ server_lines ! 1"
  obtain a b n where x0: "arrives a b \<lparr>point = Client_bound, awaits = Await_receive 0, printed = client_lines ! 0\<rparr>
         \<lparr>point = Server_awaiting_submit, awaits = Await_receive (length (outcomes b)), printed = ?pr0\<rparr>"
    and r0: "between_rounds a b" "outcomes a = [Complete No_error server_bind_resp n command_status_rok]"
      "received_pdus a = [server_bind_resp]" "received_pdus b = [client_bind]"
    using bind_round by blast
  have "client_resume Client_bound (Received No_error server_bind_resp n command_status_rok) =
      (client_lines ! 1 @ client_lines ! 2, Client_submitting 0, Async_send (client_submit 0))"
    by (simp add: client_resume_def server_bind_resp_def client_loop_def client_lines_def line_def chars_def)
  with submit_round [OF x0 r0(1), of "Received No_error server_bind_resp n command_status_rok" _ 0] r0(2)
  obtain a1 b1 where x1: "arrives a1 b1 \<lparr>point = Client_pausing 0, awaits = Await_other,
        printed = concat (take 4 client_lines)\<rparr>
      \<lparr>point = Server_awaiting_submit, awaits = Await_receive (length (outcomes b1)), printed = concat (take 3 server_lines)\<rparr>"
    and r1: "between_rounds a1 b1" "received_pdus a1 = [server_bind_resp, server_submit_resp]"
      "received_pdus b1 = [client_bind, client_submit 0]"
    using r0(3,4) by (auto simp: client_lines_def server_lines_def)
  have ev: "awaited (awaits \<lparr>point = p, awaits = Await_other, printed = pr\<rparr>) e (Completed_with No_error)"
    for p :: client_point and pr e by simp
  from submit_round [OF x1 r1(1) ev, of _ 1] client_pauses [of 0]
  obtain a2 b2 where x2: "arrives a2 b2 \<lparr>point = Client_pausing 1, awaits = Await_other,
        printed = concat (take 6 client_lines)\<rparr>
      \<lparr>point = Server_awaiting_submit, awaits = Await_receive (length (outcomes b2)), printed = concat (take 4 server_lines)\<rparr>"
    and r2: "between_rounds a2 b2" "received_pdus a2 = [server_bind_resp, server_submit_resp, server_submit_resp]"
      "received_pdus b2 = [client_bind, client_submit 0, client_submit 1]"
    using r1(2,3) by (auto simp: client_lines_def server_lines_def)
  from submit_round [OF x2 r2(1) ev, of _ 2] client_pauses [of 1]
  obtain a3 b3 where x3: "arrives a3 b3 \<lparr>point = Client_pausing 2, awaits = Await_other,
        printed = concat (take 8 client_lines)\<rparr>
      \<lparr>point = Server_awaiting_submit, awaits = Await_receive (length (outcomes b3)), printed = concat server_lines\<rparr>"
    and r3: "between_rounds a3 b3" "received_pdus a3 = server_responses" "received_pdus b3 = client_requests"
    using r2(2,3) by (auto simp: client_lines_def server_lines_def client_submit_2 server_responses_def client_requests_def)
  moreover have "concat (take 8 client_lines) @ client_lines ! 8 = concat client_lines" by (simp add: client_lines_def)
  ultimately show ?thesis by blast
qed

subsection \<open>The end\<close>

abbreviation unbinded :: error_code where
  "unbinded \<equiv> make_error_code error_unbinded"

lemma unbinded_fails: "failed unbinded"
  by (simp add: make_error_code_def error_unbinded_def)

lemma error_received: "received_pdus e' = received_pdus e" if "outcomes e' = outcomes e @ [Complete unbinded pdu m st]"
proof -
  have "delivery (Complete unbinded pdu m st) = []" using unbinded_fails by (cases unbinded) auto
  then show ?thesis using that by (simp add: received_pdus_def client_deliveries_def)
qed

lemma unbinds:
  assumes x: "arrives a b c \<lparr>point = Server_awaiting_submit, awaits = Await_receive (length (outcomes b)), printed = prs\<rparr>"
    and ab: "between_rounds a b" and c: "c = \<lparr>point = Client_pausing 2, awaits = Await_other, printed = pr\<rparr>"
  shows "\<exists>a' b'. arrives a' b'
           \<lparr>point = Client_threw (System_error unbinded), awaits = Await_nothing, printed = pr @ client_lines ! 8\<rparr>
           \<lparr>point = Server_threw (System_error unbinded), awaits = Await_nothing, printed = prs\<rparr> \<and>
         received_pdus a' = received_pdus a \<and> received_pdus b' = received_pdus b"
proof -
  have a: "at_rest a" "taken a = length (sent b)" and b: "listening b" "taken b = length (sent a)"
    using ab by (simp_all add: between_rounds_def)
  have idle: "idle_sends a" using a(1) by (simp add: at_rest_def)
  obtain a1 n where a1: "endpoint_step a (E_send L_unbind) a1"
    "writing_out a1 (length (ops (half a))) n (command_frame command_id_unbind n)" "same_receiver a a1" "sent a1 = sent a"
    using client_unbinds [OF idle] by blast
  have act: "action_moves Async_unbind a a1" "next_await Async_unbind a = Await_send (length (ops (half a)))"
    using a1(1) by (simp_all add: action_moves_def)
  have ev: "awaited (awaits c) a (Completed_with No_error)"
    "client_resume (point c) (Completed_with No_error) = (client_lines ! 8, Client_unbinding, Async_unbind)"
    "client_resume Client_unbinding (Completed_with No_error) = ([], Client_leaving, Async_receive)"
    using client_pauses [of 2] by (simp_all add: c) (simp add: client_resume_def)
  from client_transmits [OF x a(1) ev(1,2) act a1(2-4) ev(3)]
  obtain a2 where x2: "arrives a2 b \<lparr>point = Client_leaving, awaits = Await_receive (length (outcomes a)), printed = pr @ client_lines ! 8\<rparr>
      \<lparr>point = Server_awaiting_submit, awaits = Await_receive (length (outcomes b)), printed = prs\<rparr>"
    and a2: "listening a2" "sent a2 = sent a @ command_frame command_id_unbind n" "taken a2 = taken a" "outcomes a2 = outcomes a"
    by (auto simp: c)
  obtain b1 b2 b3 b4 i pdu m st where
    s: "endpoint_step b (E_event (Read_done (command_frame command_id_unbind n) No_error False)) b1"
      "endpoint_step b1 (E_transfer 16) b2" "endpoint_step b2 (E_send (L_written i No_error)) b3"
      "endpoint_step b3 (E_event (Sent No_error)) b4"
    and b4: "sent b4 = sent b @ command_frame command_id_unbind_resp n" "outcomes b4 = outcomes b @ [Complete unbinded pdu m st]"
    using hears_unbind [OF b(1) refl] by blast
  have "prefix (arrived ev) (drop (taken b) (sent a2))"
    if "E_event (Read_done (command_frame command_id_unbind n) No_error False) = E_event ev" for ev
    using that by (auto simp: a2(2) b(2))
  note x3 = arrives_net(2) [OF x2 _ s(1) this, simplified]
  note x4 = arrives_net(2) [OF x3 _ s(2), simplified]
  note x5 = arrives_net(2) [OF x4 _ s(3), simplified]
  have "prefix (arrived ev) (drop (taken b3) (sent a2))" if "E_event (Sent No_error) = E_event ev" for ev
    using that by auto
  note x6 = arrives_net(2) [OF x5 _ s(4) this, simplified]
  have "action_moves No_more b4 b4" by (simp add: action_moves_def)
  from server_goes_on [OF x6 _ _ this, of "Received unbinded pdu m st" "[]" "Server_threw (System_error unbinded)"]
  have x7: "arrives a2 b4 \<lparr>point = Client_leaving, awaits = Await_receive (length (outcomes a)), printed = pr @ client_lines ! 8\<rparr>
      \<lparr>point = Server_threw (System_error unbinded), awaits = Await_nothing, printed = prs\<rparr>"
    using unbinded_fails by (simp add: b4(2) server_resume_def)
  obtain a3 pdu' m' st' where
    a3: "endpoint_step a2 (E_event (Read_done (command_frame command_id_unbind_resp n) No_error False)) a3"
      "outcomes a3 = outcomes a2 @ [Complete unbinded pdu' m' st']"
    using hears_unbind_resp [OF a2(1) refl] by blast
  have "prefix (arrived ev) (drop (taken a2) (sent b4))"
    if "E_event (Read_done (command_frame command_id_unbind_resp n) No_error False) = E_event ev" for ev
    using that by (auto simp: a2(3) a(2) b4(1))
  note x8 = arrives_net(1) [OF x7 _ a3(1) this, simplified]
  have "action_moves No_more a3 a3" by (simp add: action_moves_def)
  from client_goes_on [OF x8 _ _ this, of "Received unbinded pdu' m' st'" "[]" "Client_threw (System_error unbinded)"]
  have "arrives a3 b4 \<lparr>point = Client_threw (System_error unbinded), awaits = Await_nothing, printed = pr @ client_lines ! 8\<rparr>
      \<lparr>point = Server_threw (System_error unbinded), awaits = Await_nothing, printed = prs\<rparr>"
    using unbinded_fails by (simp add: a2(4) a3(2) client_resume_def)
  moreover have "received_pdus a3 = received_pdus a" "received_pdus b4 = received_pdus b"
    using error_received [OF a3(2)] error_received [OF b4(2)] a2(4) by (simp_all add: received_pdus_def client_deliveries_def)
  ultimately show ?thesis by blast
qed

text \<open>All of it: both print everything, receive everything, and end with \<open>unbinded\<close>.\<close>

lemma example_completes:
  "\<exists>x. example_reachable x \<and>
     printed (client_app x) = concat client_lines \<and> printed (server_app x) = concat server_lines \<and>
     map fst (client_deliveries (network_of x Side_A)) = server_responses \<and>
     map fst (client_deliveries (network_of x Side_B)) = client_requests \<and>
     point (client_app x) = Client_threw (System_error unbinded) \<and> point (server_app x) = Server_threw (System_error unbinded)"
proof -
  obtain a b pr where x: "arrives a b \<lparr>point = Client_pausing 2, awaits = Await_other, printed = pr\<rparr>
         \<lparr>point = Server_awaiting_submit, awaits = Await_receive (length (outcomes b)), printed = concat server_lines\<rparr>"
    and r: "between_rounds a b" "pr @ client_lines ! 8 = concat client_lines"
      "received_pdus a = server_responses" "received_pdus b = client_requests"
    using all_rounds by blast
  from unbinds [OF x r(1) refl] obtain a' b' where
    "arrives a' b' \<lparr>point = Client_threw (System_error unbinded), awaits = Await_nothing, printed = concat client_lines\<rparr>
       \<lparr>point = Server_threw (System_error unbinded), awaits = Await_nothing, printed = concat server_lines\<rparr>"
    "received_pdus a' = server_responses" "received_pdus b' = client_requests"
    unfolding r(2-4) by blast
  then show ?thesis unfolding arrives_def received_pdus_def by (fastforce intro: exI)
qed

end
