(* ===== verification/Spec2Isabelle.thy ===== *)
theory Spec2Isabelle
  imports Sample_Runs Receive_Safety Short_Message Unicode_Converter Endpoint_Findings Example_Sample
begin

text \<open>
  A model of \<open>smpp\<close>, a C++ header library for the Short Message Peer-to-Peer protocol v3.4 over Asio,
  and the theorems about it. Paths are relative to \<open>src/include/smpp/\<close>.

  The program. A \<open>session\<close> owns a TCP socket, a receive buffer of 128 KiB, one send buffer shared by all
  sends, a timer \<open>send_cv_\<close> used as a condition variable, and the counter of the sequence numbers. A send
  waits for the send buffer, serializes a PDU behind 16 reserved octets, fills in the header, and hands
  the buffer to the socket; on completion it empties the buffer and wakes one waiter. A receive reads
  until a whole frame is in the receive buffer, answers the session commands (\<open>enquire_link\<close>, \<open>unbind\<close>)
  itself, and completes with the parsed PDU or with \<open>invalid_pdu\<close>; a silent interval makes it send
  \<open>enquire_link\<close>, a second one close the session. PDUs are structures with a list of members, each
  with its representation on the wire; folds over that list serialize and parse them. On top of these
  there are utilities for concatenated short messages and their alphabets.

  The theories, in the order of the dependencies:

  \<^item> \<open>Smpp_Prelude\<close>: octets, exceptions and outcomes, big-endian bytes of words, the collections of
    rewrite rules. \<open>Common_Types\<close> (\<open>common/command_id.hpp\<close>, \<open>command_status.hpp\<close>, \<open>is_response.hpp\<close>, the
    two PDU concepts) and \<open>Param_Enums\<close> (the enums of \<open>param/\<close>): an enum with a fixed underlying type is
    a datatype around that type, since any of its values is valid, and its enumerators are constants.
  \<^item> \<open>Serialization\<close> (\<open>common/serialization.hpp\<close>): the representations \<open>enum_u8\<close>, \<open>enum_flag\<close>, \<open>u8\<close>,
    \<open>c_octet_str\<close>, \<open>u8_octet_str\<close>, \<open>smart\<close>, and the folds. A parser takes the octets left and returns its
    outcome with the octets left after it; a serializer returns the extended vector. An exception keeps
    the state reached when it was thrown. \<open>Field_Codecs\<close>: the locale of a field (what is encoded is
    decoded, what is decoded was the encoding, a throw leaves the buffer), interpreted on the two
    string representations.
  \<^item> \<open>Flags\<close> (\<open>param/esm_class.hpp\<close>, \<open>param/registered_delivery.hpp\<close>), \<open>Ordered_Map\<close> (what \<open>std::map\<close>
    does, on the sorted list that its iteration visits) and \<open>Oparam\<close> (\<open>param/oparam.hpp\<close>).
  \<^item> \<open>Pdu_Round_Trip\<close>, \<open>Pdu_Bind\<close>, \<open>Pdu_Message\<close>, \<open>Pdu_Manage\<close> (the 21 structures of \<open>pdu/\<close>, their defaults
    and member lists) and \<open>Pdu_Variant\<close> (\<open>net/pdu_variant.hpp\<close>, \<open>net/invalid_pdu.hpp\<close>, and the choice of
    the parser by \<open>command_id\<close> in \<open>receive_op\<close>).
  \<^item> \<open>Header\<close> (\<open>net/detail/header_serialization.hpp\<close>) and \<open>Flat_Buffer\<close>
    (\<open>net/detail/static_flat_buffer.hpp\<close>, pointers as offsets into the array), with the locale of a queue
    of octets interpreted on it.
  \<^item> \<open>Session\<close> (\<open>net/error.hpp\<close> and the state of \<open>net/session.hpp\<close>), \<open>Session_Send\<close> (\<open>async_send\<close> for
    requests and for responses, \<open>async_send_command\<close>, \<open>async_send_unbind\<close>) and \<open>Session_Receive\<close>
    (\<open>receive_op\<close>). A coroutine is a record with the point it is suspended at, and there is one function
    for the code from each suspension to the next. What Asio may do in between (resume, complete a write
    with any error, deliver octets, cancel) is a step of the relation \<open>send_step\<close> or an event of \<open>resume\<close>.
  \<^item> \<open>Send_Invariant\<close>, \<open>Send_Progress\<close>, \<open>Send_Findings\<close>: the invariant of the sending half by rule
    induction over \<open>reachable\<close>, progress without failures, and the runs in which a wake-up is lost or
    a waiter starves.
    \<open>Receive_Stream\<close>: the specification of the receiver on whole frames (\<open>expected\<close>) and the simulation
    that proves it. \<open>Receive_Behaviour\<close>: the receiver's loop, its timeouts and its behaviour on
    malformed lengths. \<open>Receive_Safety\<close>: what holds of it on any input. \<open>Session_Transfer\<close>: the wire of
    one half read by the other.
  \<^item> \<open>Receive_Position\<close>: while the octets that reach it are whole frames, the receiver always stands at a
    frame boundary, and every run of its coroutine moves it to a later one, having delivered and
    answered the frames in between. \<open>Endpoint\<close>: a session with both halves over one record, the receiver
    sending its commands through \<open>async_send_command\<close>, and the octets its socket has taken out of
    \<open>send_buf_\<close> so far; \<open>endpoint_step\<close> interleaves sends, transfers of any size, receives and events.
    \<open>Endpoint_Invariant\<close>: the invariants of the sending half survive, and what the socket took is a
    beginning of the frames on the wire. \<open>Network\<close>: two such sessions, each reading what the other's
    socket took, and the invariant \<open>linked\<close> of every reachable network.
    \<open>Network_Progress\<close>: networks without faults do not deadlock. \<open>Network_Sample\<close>: a run of one.
    \<open>Endpoint_Findings\<close>: a lost wake-up in a whole session.
  \<^item> \<open>Send_Order\<close>: a session whose client awaits each send before the next puts its PDUs on the wire in
    the order of the calls. \<open>Example_Programs\<close> (\<open>src/example/client.cpp\<close> and \<open>server.cpp\<close>): the two
    coroutines, by the \<open>co_await\<close> they are suspended at. \<open>Example_Network\<close>: both over a network, any
    step of which that is not theirs can come at any time. \<open>Dialogue\<close>: the locale of a program that
    follows its part of a dialogue, interpreted on client and server in \<open>Example_Run\<close>.
    \<open>Undisturbed\<close> and \<open>Example_Sample\<close>: sessions that nothing disturbs, and the run of both programs to
    the end.
  \<^item> \<open>Data_Coding_Unicode\<close>, \<open>Short_Message\<close>, \<open>Unicode_Converter\<close> (the headers of \<open>utility/\<close>).
  \<^item> \<open>Sample_Runs\<close>: concrete sessions, frames and requests on which the properties are instantiated.

  The properties below are in the order of their importance: two sessions on one connection (C1 to C6),
  the example programs over them (C7 and C8), the two halves of a session (C9 to C22), the header and
  the receive buffer (C23 to C25), PDUs and their fields (C26 to C33), the unbind handshake (C34), and
  the utilities (C35 to C38); C39 closes the round trip of PDUs from the parser's side, C40 is the
  safety of the receiver on any input. C13 to C15, C17, C19 to C21, C32 and C37 show behaviour that
  the code cannot mean to have. Results that are parts of these, or smaller, follow at the end.

  The connection. A socket takes octets of the buffer being written in pieces of any size and at any
  time before the write completes; a write completes without error only when all were taken. After
  a failed write, which may have cut a frame off, the connection carries nothing more (a write can
  only be cancelled with \<open>terminal\<close>, after which a socket may only be closed). A socket
  delivers the octets the other side's took, in order, in reads of any size up to the region given,
  with any error code. The client has one receive operation at a time, starts sends and unbinds at
  any time, and may cancel anything.

  Bounds and fuel. Octets are \<open>8 word\<close>, lengths and numbers in the header \<open>32 word\<close>, tags and optional
  parameter lengths \<open>16 word\<close>, as in the code; sizes and offsets of buffers are natural numbers. The
  receive buffer has a capacity \<open>cap\<close> in the lemmas, of which 131072 is an instance. The loop of
  \<open>receive_op\<close> is a \<open>partial_function\<close> with value \<open>None\<close> when it never suspends, and C17 says when that
  is. \<open>drive\<close>, which runs a receiver on a list of chunks, has fuel; C9, C10 and C34 prove that some amount
  is enough. Other recursions are total.

  Not modelled. Asio itself: what it may report is the set of steps and events above; \<open>operation_aborted\<close>
  is told from other errors because the code does, and the order in which handlers run is arbitrary.
  Destruction of a session with operations pending. \<open>next_layer\<close>, which only returns the socket, and
  the lifetime of the PDU reference that \<open>async_send\<close> keeps. The umbrella headers and \<open>common/version.hpp\<close> have
  no operation of their own. Of the program \<open>src/example/server.cpp\<close>, \<open>main\<close> and the
  completion handlers of \<open>co_spawn\<close>, which print an exception that leaves a coroutine, and its further
  connections; after an exception the model's session lives on, without a client, instead of being destroyed. The
  programs under \<open>src/test/\<close> test the library.
\<close>

subsection \<open>Two sessions on one connection\<close>







text \<open>C4: a receiver is never stuck. While the other side's frames have a length below $2^{32}$, every
  event that can answer what the coroutine waits for lets it go on to its next suspension, and a new
  receive operation always starts; while they fit the 128 KiB buffer, a receiver that waits for
  octets has room for some.\<close>

theorem network_receiver_never_stuck:
  assumes "network_reachable net" "short_frames (net (peer a))"
  shows "(expects (recv_pc (net a)) ev \<and> event_possible ev (net a) \<and>
            prefix (arrived ev) (drop (taken (net a)) (sent (net (peer a)))) \<longrightarrow>
            (\<exists>net'. network_step net a (E_event ev) net')) \<and>
         (recv_pc (net a) \<in> {Recv_start, Recv_done} \<longrightarrow> (\<exists>net'. network_step net a E_receive net')) \<and>
         (recv_pc (net a) = Recv_reading \<and> (\<forall>w \<in> set (wire (half (net (peer a)))). length w \<le> 131072) \<longrightarrow>
            fb_out (receive_buf (endpoint_session (net a))) < fb_last (receive_buf (endpoint_session (net a))))"
proof -
  obtain k where flow: "flow_inv 131072 (net a) (wire (half (net (peer a)))) (length (sent (net (peer a)))) k"
    using network_flow [OF assms] .
  note inv = network_sends_inv [OF assms(1), of "peer a"]
  note ws = whole_frames [OF inv assms(2)]
  have ev: "\<exists>net'. network_step net a (E_event ev) net'"
    if e: "expects (recv_pc (net a)) ev" "event_possible ev (net a)"
      and pre: "prefix (arrived ev) (drop (taken (net a)) (sent (net (peer a))))"
  proof -
    have "event_ok ev (recv_pc (net a), recv_op (net a), endpoint_session (net a))"
      using e(2) by (cases ev) auto
    then obtain r where "resume ev (recv_pc (net a), recv_op (net a), endpoint_session (net a)) = Some r"
      using flow_resume [OF flow ws pre sent_prefix [OF inv] refl e(1)] by blast
    from endpoint_event [OF e(2) this] show ?thesis using network_move pre by blast
  qed
  have "\<exists>net'. network_step net a E_receive net'" if "recv_pc (net a) \<in> {Recv_start, Recv_done}"
    using flow_receive [OF flow ws that] endpoint_receive [OF that] network_move by blast
  moreover have "fb_out (receive_buf (endpoint_session (net a))) < fb_last (receive_buf (endpoint_session (net a)))"
    if "recv_pc (net a) = Recv_reading" "\<forall>w \<in> set (wire (half (net (peer a)))). length w \<le> 131072"
    using flow_room [OF flow ws that(2,1)] by simp
  ultimately show ?thesis using ev by blast
qed

theorem network_receiver_never_stuck_witness:
  "\<exists>net. network_reachable net \<and>
     fb_out (receive_buf (endpoint_session (net Side_B))) < fb_last (receive_buf (endpoint_session (net Side_B)))"
proof -
  obtain net where net: "network_reachable net" "net Side_A = sample_sender" "recv_pc (net Side_B) = Recv_reading"
    using sample_network by blast
  have "short_frames (net (peer Side_B))" using sample_sends_ok net(2) by (simp add: sends_ok_def)
  moreover have "\<forall>w \<in> set (wire (half (net (peer Side_B)))). length w \<le> 131072"
    using net(2) by (simp add: sample_sender_def sample_system_fields sample_frame_length)
  ultimately show ?thesis using network_receiver_never_stuck [OF net(1), of Side_B] net by blast
qed



text \<open>C6: the guarantees of the sending half hold for a whole session, in which the receiver sends through
  the same buffer. At most one operation writes and the buffer is then the last frame on the wire;
  whatever the socket has read out of the buffer, in pieces of any size, is a beginning of the
  frames on the wire, each of which belongs to one operation.\<close>

theorem whole_session_invariant:
  assumes "endpoint_reachable e"
  shows "prefix (sent e) (concat (wire (half e))) \<and> (\<exists>log. send_log (half e) log) \<and>
         (\<forall>i j. writing (half e) i \<and> writing (half e) j \<longrightarrow>
            i = j \<and> send_buf (endpoint_session e) = last (wire (half e)))"
proof -
  have inv: "sends_inv e" by (rule endpoint_reachable_sends_inv [OF assms])
  then have h: "send_inv (half e)" and log: "\<exists>log. send_log (half e) log" by (simp_all add: sends_inv_def)
  have "i = j \<and> send_buf (endpoint_session e) = last (wire (half e))"
    if "writing (half e) i" "writing (half e) j" for i j
    using send_invD(1,2) [OF h] that by blast
  then show ?thesis using sent_prefix [OF inv] log by blast
qed

theorem whole_session_invariant_witness:
  "endpoint_reachable sample_sender \<and> prefix (sent sample_sender) (concat (wire (half sample_sender)))"
proof -
  have "endpoint_reachable sample_sender"
    using endpoint_start [of 60] sample_sender_steps by (blast intro: endpoint_next)
  then show ?thesis using whole_session_invariant by blast
qed

subsection \<open>The example programs\<close>




text \<open>C9: what one session writes, the other session delivers. In every reachable state of the
  sending half whose operations carry well-formed PDUs (or session commands other than the unbind
  ones), a receiver with an empty buffer that reads the octets of the wire in any non-empty pieces
  completes, in finitely many steps, with exactly the PDUs, sequence numbers and statuses of the
  operations on the wire, in order, answers every \<open>enquire_link\<close>, and is left waiting with an empty
  buffer.\<close>

theorem send_receive_end_to_end:
  assumes "reachable sys" "\<forall>op \<in> set (ops sys). request_ok (request op) \<and> \<not> request_ends (request op)"
    and "\<forall>w \<in> set (wire sys). length w \<le> cap" "cap < 4294967296" "empty_session cap s"
    and "concat chunks = concat (wire sys)" "[] \<notin> set chunks"
  shows "\<exists>log fuel st. send_log sys log \<and>
           drive fuel chunks (async_receive s) =
             Some (concat (map (\<lambda>(i, n). request_actions (request (ops sys ! i)) n) log), st) \<and>
           stream_end cap [] s st"
proof -
  obtain log where log: "send_log sys log" using reachable_send_log [OF assms(1)] by blast
  let ?rs = "map (\<lambda>(i, n). (request (ops sys ! i), n)) log"
  have w: "wire sys = map (\<lambda>(r, n). request_frame r n) ?rs"
    and a: "map (\<lambda>(i, n). request_actions (request (ops sys ! i)) n) log =
      map (\<lambda>(r, n). request_actions r n) ?rs"
    using log by (simp_all add: send_log_def case_prod_unfold)
  have "\<forall>(i, n) \<in> set log. i < length (ops sys)" using log by (auto simp: send_log_def)
  then have "\<forall>(r, n) \<in> set ?rs. request_ok r \<and> \<not> request_ends r \<and> length (request_frame r n) \<le> cap"
    using assms(2,3) w by auto
  moreover have "concat chunks = concat (map (\<lambda>(r, n). request_frame r n) ?rs)" using assms(6) w by simp
  ultimately obtain fuel st where "drive fuel chunks (async_receive s) =
      Some (concat (map (\<lambda>(r, n). request_actions r n) ?rs), st) \<and> stream_end cap [] s st"
    using receive_requests [OF assms(5,4) _ _ assms(7)] by blast
  then show ?thesis unfolding a [symmetric] using log by blast
qed

theorem send_receive_end_to_end_witness:
  "\<exists>log fuel st. send_log sample_system log \<and>
     drive fuel sample_chunks (async_receive (session_new 60)) =
       Some (concat (map (\<lambda>(i, n). request_actions (request (ops sample_system ! i)) n) log), st) \<and>
     stream_end (128 * 1024) [] (session_new 60) st"
proof (rule send_receive_end_to_end [OF sample_reachable])
  show "\<forall>op \<in> set (ops sample_system). request_ok (request op) \<and> \<not> request_ends (request op)"
    using sample_system_fields(2,3) sample_request_ok by (simp add: all_set_conv_all_nth)
  show "\<forall>w \<in> set (wire sample_system). length w \<le> 128 * 1024"
    by (simp add: sample_system_fields sample_frame_length)
  show "empty_session (128 * 1024) (session_new 60)" by (rule session_new_empty)
qed (simp_all add: sample_chunks sample_system_fields)

text \<open>C10: the receiver implements its specification on whole frames, whatever the network does to the
  stream. If the octets in the buffer followed by the pieces still to arrive make up a list of frames
  (each at least 16 octets, its length field its length, at most the buffer), \<open>async_receive\<close>, called
  again after every PDU, does exactly what \<open>expected\<close> says of the frames: PDUs delivered or reported as
  \<open>invalid_pdu\<close>, \<open>enquire_link\<close> answered, \<open>enquire_link_resp\<close> skipped, \<open>unbind\<close> answered and the
  session closed; and it gets there in finitely many steps.\<close>

theorem receive_any_chunking:
  assumes "stream_ok cap ws chunks s"
  shows "\<exists>fuel st. drive fuel chunks (async_receive s) = Some (expected ws, st) \<and>
           stream_end cap ws s st"
  unfolding async_receive_def
  by (rule drive_stream [OF assms]) (simp add: receive_op_new_def)

theorem receive_any_chunking_witness:
  "\<exists>fuel st. drive fuel (sample_chunks @ sample_chunks) (async_receive (session_new 60)) =
       Some ([Complete No_error sample_response 7 command_status_rok,
              Complete No_error sample_response 7 command_status_rok], st) \<and>
     stream_end (128 * 1024) [sample_frame, sample_frame] (session_new 60) st"
proof -
  have a: "frame_actions sample_frame = [Complete No_error sample_response 7 command_status_rok]"
    "\<not> ends_session sample_frame"
    using request_frame_read(1,2) [OF sample_request_ok(2), of 7]
    by (simp_all add: sample_request_frame) (simp_all add: sample_request_def)
  have "stream_ok (128 * 1024) [sample_frame, sample_frame] (sample_chunks @ sample_chunks) (session_new 60)"
    using session_new_empty [of 60]
    by (simp add: stream_ok_def empty_session_def sample_good_frame [simplified] sample_chunks)
  from receive_any_chunking [OF this] show ?thesis by (simp add: a)
qed

text \<open>C11: mutual exclusion on the send buffer. In every reachable state at most one operation is
  writing, the buffer is then the last frame handed to the socket, the operations queued on
  \<open>send_cv_\<close> are exactly the waiting ones, each once, and the sequence number is within its range.\<close>

theorem send_buffer_exclusive:
  assumes "reachable sys"
  shows "(\<forall>i j. writing sys i \<longrightarrow> writing sys j \<longrightarrow> i = j) \<and>
         (\<forall>i. writing sys i \<longrightarrow> wire sys \<noteq> [] \<and> send_buf (sess sys) = last (wire sys)) \<and>
         distinct (send_cv (sess sys)) \<and> set (send_cv (sess sys)) = {i. waiting sys i} \<and>
         sequence_number (sess sys) \<le> 0x7FFFFFFF"
  using reachable_send_inv [OF assms] by (simp add: send_inv_def sequence_inv_def)

theorem send_buffer_exclusive_witness:
  "writing sample_system 0 \<and> send_buf (sess sample_system) = last (wire sample_system) \<and>
   (\<nexists>j. writing sample_system j \<and> j \<noteq> 0)"
proof -
  have "writing sample_system 0" by (simp add: writing_def sample_system_fields)
  then show ?thesis using send_buffer_exclusive [OF sample_reachable] by blast
qed

text \<open>C12: the buffer given to \<open>asio::async_write\<close> stays as it is until that write completes: whatever
  else happens meanwhile (new sends, unbinds, cancellations, resumptions), neither the buffer nor the
  wire changes.\<close>

theorem send_buffer_stable_while_writing:
  assumes "reachable sys" "writing sys i" "send_step sys l sys'" "\<forall>ec. l \<noteq> L_written i ec"
  shows "send_buf (sess sys') = send_buf (sess sys) \<and> wire sys' = wire sys"
proof -
  note inv = reachable_send_inv [OF assms(1)]
  have "\<not> writing sys j" if "l = L_written j ec" for j ec
    using that assms(2,4) send_invD(1) [OF inv] by blast
  then show ?thesis using busy_step [OF assms(3) writing_send_buf [OF inv assms(2)]] by blast
qed

theorem send_buffer_stable_while_writing_witness:
  "send_buf (sess (async_send_unbind sample_system)) = sample_frame \<and>
   wire (async_send_unbind sample_system) = [sample_frame]"
  using send_buffer_stable_while_writing [OF sample_reachable _ step_unbind, of 0]
  by (simp add: writing_def sample_system_fields)


text \<open>C13: fairness fails even without faults. A client that starts its next send from the completion handler
  of the last one overtakes every other operation, such as an answer to an \<open>enquire_link\<close>: its call
  finds the buffer empty before the operation that was woken runs, which then waits again. For any
  number \<open>k\<close> of rounds there is a run in which \<open>k + 1\<close> frames go out and the operation that queued
  behind the first still waits.\<close>

theorem busy_sender_starves_waiter:
  assumes "admissible_request r" "request_fits r" "admissible_request w" "request_fits w"
  shows "\<exists>sys. run_labels ([L_initiate r, L_initiate w] @ starving_run r k) (send_init (session_new interval)) = Some sys \<and>
           clean_reachable sys \<and> waiting sys 1 \<and> request (ops sys ! 1) = w \<and> length (wire sys) = Suc k"
proof -
  have s: "send_buf (session_new interval) = []" "send_cv (session_new interval) = []"
    "sequence_inv (session_new interval)"
    by (simp_all add: session_new_def sequence_inv_def)
  let ?ls = "[L_initiate r, L_initiate w] @ starving_run r k"
  obtain sys where run: "run_labels ?ls (send_init (session_new interval)) = Some sys" and st: "starved w k sys"
    using starving_start [OF assms(1-3) s(1,2)] starving_run [OF assms(1,2)]
    by (fastforce simp only: run_labels_append option.case)
  have "clean_reachable sys"
    by (rule run_labels_clean [OF run _ clean_init [OF s]])
      (use assms(2,4) starving_run_clean in simp)
  then show ?thesis using run st by (auto simp: starved_def waiting_def)
qed

theorem busy_sender_starves_waiter_witness:
  "\<exists>sys. clean_reachable sys \<and> waiting sys 1 \<and>
     request (ops sys ! 1) = Send_command command_id_enquire_link_resp 5 \<and> length (wire sys) = 1001"
  using busy_sender_starves_waiter [OF sample_request_ok(1) sample_fits,
      of "Send_command command_id_enquire_link_resp 5" 1000 60]
  by auto

text \<open>C14: what a lost wake-up does to a whole session. One PDU that exceeds a length limit, sent while
  another send is being written, can leave the receiver's answer to an \<open>enquire_link\<close> waiting with the
  buffer free and every octet on the wire taken: from then on nothing happens at all, no reads, no
  time-outs, until the client starts another send or cancels something.\<close>

theorem bad_send_silences_session:
  assumes "admissible_request bad" "\<not> request_fits bad"
  shows "\<exists>e. endpoint_reachable e \<and> recv_pc e = Recv_answering_enquire \<and>
           send_buf (endpoint_session e) = [] \<and> sent e = concat (wire (half e)) \<and>
           (\<exists>i. recv_send e = Some i \<and> pc (ops (half e) ! i) = Waiting) \<and>
           (\<forall>l e'. endpoint_step e l e' \<longrightarrow>
              (\<exists>r. l = E_send (L_initiate r)) \<or> l = E_send L_unbind \<or> (\<exists>i. l = E_send (L_cancel i)))"
proof -
  obtain e where e: "endpoint_reachable e" "silenced e" using silenced_reachable [OF assms] by blast
  show ?thesis using e silenced_no_step [OF _ e(2)] unfolding silenced_def by blast
qed

theorem bad_send_silences_session_witness:
  "\<exists>e. endpoint_reachable e \<and> recv_pc e = Recv_answering_enquire \<and>
     send_buf (endpoint_session e) = [] \<and> sent e = concat (wire (half e))"
  using bad_send_silences_session [OF oversized_password] by blast

text \<open>C15: a session command whose write is cut off by its timer completes with \<open>enquire_link_timeout\<close>
  and leaves the buffer occupied for good: from there, whatever happens, nothing is written any more.\<close>

theorem timed_out_write_stalls_session:
  "\<exists>sys. reachable sys \<and> run_labels timed_out_write_run (send_init (session_new interval)) = Some sys \<and>
     (\<forall>sys'. send_steps sys sys' \<longrightarrow> wire sys' = wire sys \<and> send_buf (sess sys') \<noteq> [] \<and>
        (\<forall>i. \<not> writing sys' i))"
proof -
  have s: "send_buf (session_new interval) = []" "send_cv (session_new interval) = []"
    "sequence_inv (session_new interval)"
    by (simp_all add: session_new_def sequence_inv_def)
  obtain sys where run: "run_labels timed_out_write_run (send_init (session_new interval)) = Some sys"
    and st: "stalled sys"
    using timed_out_write_stalls [OF s(1,2)] by blast
  have "wire sys' = wire sys \<and> send_buf (sess sys') \<noteq> [] \<and> (\<forall>i. \<not> writing sys' i)"
    if "send_steps sys sys'" for sys'
    using stalled_steps [OF that st] by (simp add: stalled_iff)
  then show ?thesis using run run_labels_reachable [OF s run] by blast
qed

theorem timed_out_write_stalls_session_witness:
  "\<exists>sys. run_labels timed_out_write_run (send_init (session_new 60)) = Some sys \<and>
     wire (async_send_unbind sys) = wire sys"
  using timed_out_write_stalls_session [of 60] steps_step [OF steps_refl step_unbind] by blast

text \<open>C16: a PDU that exceeds a length limit, sent while the buffer is free, completes with
  \<open>serialization_failed\<close>; the buffer is empty again, nothing reaches the wire and no sequence number
  is used up.\<close>

theorem failed_serialization_undone:
  assumes "send_buf (sess sys) = []" "\<not> request_fits r"
  shows "\<exists>sys'. initiate r sys = sys' \<and>
           ops sys' = ops sys @ [\<lparr>request = r, cancelled = False,
             pc = Completed (make_error_code error_serialization_failed) 0\<rparr>] \<and>
           sess sys' = sess sys \<and> wire sys' = wire sys"
proof -
  obtain e where "build_frame r (sess sys) = (Inl e, (sess sys)\<lparr>send_buf := []\<rparr>)"
    using build_frame_not_fits [OF assms(2)] by blast
  moreover have "(sess sys)\<lparr>send_buf := []\<rparr> = sess sys" using assms(1) by (cases "sess sys") simp
  ultimately show ?thesis
    using assms(1) by (simp add: initiate_def try_send_def complete_def set_op_def)
qed

theorem failed_serialization_undone_witness:
  "wire (initiate oversized_password (send_init (session_new 60))) = [] \<and>
   sess (initiate oversized_password (send_init (session_new 60))) = session_new 60"
proof -
  have "send_buf (sess (send_init (session_new 60))) = []" by (simp add: send_init_def session_new_def)
  from failed_serialization_undone [OF this oversized_password(2)] show ?thesis
    by (simp add: send_init_def)
qed

text \<open>C17: when the receiver's loop returns. From the head of the loop it suspends or completes if and
  only if, after the \<open>enquire_link_resp\<close> frames of non-zero length at the head of the buffer, there is
  none whose length field is 0; such a frame consumes nothing and the loop never ends.\<close>

theorem receive_loop_terminates_iff:
  assumes "receive_inv cap s"
  shows "(\<exists>r. async_receive s = Some r) \<longleftrightarrow> \<not> zero_length_resp (skip_enquire_link_resp (received s))"
  unfolding async_receive_def
  by (rule receive_loop_returns_iff [OF assms]) (simp add: receive_op_new_def)

theorem receive_loop_terminates_iff_witness:
  "async_receive (session_with (header_octets 0 command_id_enquire_link_resp 5 command_status_rok)) = None \<and>
   async_receive (session_with sample_frame) \<noteq> None"
proof -
  let ?z = "header_octets 0 command_id_enquire_link_resp 5 command_status_rok"
  have "skip_enquire_link_resp ?z = ?z" "zero_length_resp ?z"
    by (simp_all add: skip_enquire_link_resp.simps [of ?z] header_frame zero_length_resp_def complete_frame_def header_length_def)
  moreover have "skip_enquire_link_resp sample_frame = sample_frame" "\<not> zero_length_resp sample_frame"
    by code_simp+
  ultimately show ?thesis
    using receive_loop_terminates_iff [OF session_with(1), of ?z]
      receive_loop_terminates_iff [OF session_with(1), of sample_frame]
    unfolding session_with(2) not_None_eq [symmetric] by (simp del: not_None_eq)
qed

text \<open>C18: inactivity. A receiver that waits with at most the beginning of a frame sends \<open>enquire_link\<close>
  when one interval passes in silence, and goes on reading; when a second interval passes in silence
  it sends \<open>unbind\<close>, shuts the socket down whatever becomes of that write, and completes with
  \<open>enquire_link_timeout\<close>. The two commands take consecutive sequence numbers.\<close>

theorem two_silent_intervals_close_the_session:
  assumes "idle_reading cap op s" "\<not> pending_enquire_link op" "sequence_inv s"
  shows "\<exists>n1 n2 off st.
           play [Read_done [] Operation_aborted False, Sent No_error,
                 Read_done [] Operation_aborted False, Sent ec] (Recv_reading, op, s) =
             Some ([Send_cmd command_id_enquire_link n1, Read_some off (cap - length (received s)),
                    Send_cmd command_id_unbind n2,
                    completed (make_error_code error_enquire_link_timeout)], st) \<and>
           fst st = Recv_done \<and> \<not> socket_open (snd (snd st)) \<and>
           unat n1 = unat (sequence_number s) mod 2147483647 + 1 \<and>
           unat n2 = unat n1 mod 2147483647 + 1"
proof -
  obtain n1 s1 off op' s' where n1: "next_sequence_number s = (n1, s1)"
    and p1: "play [Read_done [] Operation_aborted False, Sent No_error] (Recv_reading, op, s) =
      Some ([Send_cmd command_id_enquire_link n1, Read_some off (cap - length (received s))],
            Recv_reading, op', s')"
    and s': "idle_reading cap op' s'" "pending_enquire_link op'" "sequence_number s' = n1"
    using silent_interval_enquires [OF assms(1,2)] by blast
  obtain n2 s2 st where n2: "next_sequence_number s' = (n2, s2)"
    and p2: "play [Read_done [] Operation_aborted False, Sent ec] (Recv_reading, op', s') =
      Some ([Send_cmd command_id_unbind n2, completed (make_error_code error_enquire_link_timeout)],
            Recv_done, op', st)" "\<not> socket_open st"
    using second_silent_interval_unbinds [OF s'(1,2)] by blast
  have "unat n1 = unat (sequence_number s) mod 2147483647 + 1" "unat n1 \<le> 2147483647"
    using unat_next_sequence_number [OF assms(3)] next_sequence_number_inv(3) [OF assms(3) n1] n1 by simp_all
  moreover have "sequence_inv s'" using calculation(2) s'(3) by (simp add: sequence_inv_def unat_le_7FFFFFFF)
  then have "unat n2 = unat n1 mod 2147483647 + 1"
    using unat_next_sequence_number [of s'] n2 s'(3) by simp
  ultimately show ?thesis using play_append [OF p1 p2(1)] p2(2) by simp
qed

theorem two_silent_intervals_close_the_session_witness:
  "\<exists>n1 n2 off st.
     play [Read_done [] Operation_aborted False, Sent No_error,
           Read_done [] Operation_aborted False, Sent (Network_error 32)]
         (Recv_reading, receive_op_new, session_with [0,0,0]) =
       Some ([Send_cmd command_id_enquire_link n1, Read_some off 0, Send_cmd command_id_unbind n2,
              completed (make_error_code error_enquire_link_timeout)], st) \<and>
     fst st = Recv_done \<and> \<not> socket_open (snd (snd st)) \<and> unat n1 = 1 \<and> unat n2 = 2"
proof -
  have "idle_reading 3 receive_op_new (session_with [0,0,0])"
    using session_with [of "[0,0,0]"]
    by (simp add: idle_reading_def receive_op_new_def complete_frame_def header_length_def numeral_3_eq_3)
  moreover have "\<not> pending_enquire_link receive_op_new" by (simp add: receive_op_new_def)
  moreover have "sequence_inv (session_with [0,0,0])" by (simp add: sequence_inv_def session_with)
  ultimately obtain n1 n2 off st where
    "play [Read_done [] Operation_aborted False, Sent No_error,
           Read_done [] Operation_aborted False, Sent (Network_error 32)]
         (Recv_reading, receive_op_new, session_with [0,0,0]) =
       Some ([Send_cmd command_id_enquire_link n1, Read_some off 0, Send_cmd command_id_unbind n2,
              completed (make_error_code error_enquire_link_timeout)], st)"
    "fst st = Recv_done" "\<not> socket_open (snd (snd st))" "unat n1 = 1" "unat n2 = 2"
    using two_silent_intervals_close_the_session [of 3 receive_op_new "session_with [0,0,0]" "Network_error 32"]
    by (auto simp: session_with)
  then show ?thesis by blast
qed


text \<open>C19: a frame whose length field exceeds the buffer. Once the buffer is full of the beginning of such
  a frame, the receiver asks the socket for reads of no octets, and every such read, which completes
  at once with nothing, makes it ask again, without end.\<close>

theorem oversized_frame_spins:
  assumes "reading cap s" "\<not> needs_more op" "length (received s) = cap"
    and "\<not> complete_frame (received s)"
  shows "\<exists>acts st. play (replicate k (Read_done [] No_error False)) (Recv_reading, op, s) = Some (acts, st) \<and>
           length acts = k \<and> (\<forall>a \<in> set acts. \<exists>off. a = Read_some off 0)"
  by (rule overfull_forever) (use assms in \<open>simp add: overfull_def idle_reading_def\<close>)

theorem oversized_frame_spins_witness:
  "\<exists>acts st. play (replicate 1000 (Read_done [] No_error False))
       (Recv_reading, receive_op_new,
        session_with (header_octets 200 command_id_submit_sm 1 command_status_rok)) = Some (acts, st) \<and>
     length acts = 1000"
proof -
  let ?s = "session_with (header_octets 200 command_id_submit_sm 1 command_status_rok)"
  have "\<not> complete_frame (received ?s)" by (simp add: session_with complete_frame_def header_frame)
  moreover have "\<not> needs_more receive_op_new" by (simp add: receive_op_new_def)
  ultimately show ?thesis
    using oversized_frame_spins [OF session_with(3), of receive_op_new _ 1000] by (simp only: session_with) blast
qed

text \<open>C20: an \<open>enquire_link\<close> with length field 0 is never consumed: one such frame makes the session
  write \<open>enquire_link_resp\<close> as often as its writes complete.\<close>

theorem zero_length_enquire_link_answered_forever:
  assumes "receive_inv cap s" "header_length \<le> length (received s)"
    and "frame_header (received s) = (0, command_id_enquire_link, st, n)"
  shows "\<exists>r. async_receive s = Some (Send_cmd command_id_enquire_link_resp n, r) \<and>
           (\<forall>k. \<exists>st'. play (replicate k (Sent No_error)) r =
                  Some (replicate k (Send_cmd command_id_enquire_link_resp n), st'))"
proof -
  have "\<not> needs_more receive_op_new" by (simp add: receive_op_new_def)
  then obtain op' s' where "async_receive s =
      Some (Send_cmd command_id_enquire_link_resp n, Recv_answering_enquire, op', s')"
    "receive_inv cap s'" "\<not> needs_more op'" "received s' = received s" "op_command_length op' = 0"
    unfolding async_receive_def using zero_length_enquire_link [OF assms(1) _ assms(2,3)] by blast
  then show ?thesis
    using zero_length_enquire_link_forever [of cap s' op' st n] assms(2,3) by auto
qed

theorem zero_length_enquire_link_answered_forever_witness:
  "\<exists>r. async_receive (session_with (header_octets 0 command_id_enquire_link 9 command_status_rok)) =
         Some (Send_cmd command_id_enquire_link_resp 9, r)"
  using zero_length_enquire_link_answered_forever [OF session_with(1) [of "header_octets 0 command_id_enquire_link 9 command_status_rok"],
      of command_status_rok 9]
  by (simp add: session_with header_frame header_length_def) blast

text \<open>C21: a length field below 16 in any other frame (its 16 octets of header are there) makes the body
  end before it begins: the next thing the receiver does with it is undefined behaviour.\<close>

theorem length_below_header_is_undefined:
  assumes "receive_inv cap s" "header_length \<le> length (received s)"
    and "frame_header (received s) = (len, cid, st, n)" "unat len < header_length"
    and "cid \<notin> {command_id_enquire_link, command_id_enquire_link_resp, command_id_unbind, command_id_unbind_resp}"
  shows "\<exists>r. async_receive s = Some (Post, r) \<and>
           play [Posted] r = Some ([Undefined_behaviour], Recv_done, snd r)"
  using assms by (rule short_length_undefined)

theorem length_below_header_is_undefined_witness:
  "\<exists>r. async_receive (session_with (header_octets 15 command_id_submit_sm 1 command_status_rok)) = Some (Post, r) \<and>
     play [Posted] r = Some ([Undefined_behaviour], Recv_done, snd r)"
proof (rule length_below_header_is_undefined [OF session_with(1)])
  show "frame_header (received (session_with (header_octets 15 command_id_submit_sm 1 command_status_rok))) =
      (15, command_id_submit_sm, command_status_rok, 1)"
    by (simp add: session_with header_frame)
qed (simp_all add: session_with header_length_def enum_values)

text \<open>C22: sequence numbers. The i-th number taken from a session is given by a closed form: numbers run
  through 1 to 2147483647 and start again at 1, so that none is 0, none has its top bit set, and no
  two of fewer than 2147483648 consecutive ones are equal.\<close>

theorem sequence_numbers_cycle:
  assumes "sequence_inv s" "take_sequence_numbers k s = (ns, s')"
  shows "length ns = k \<and>
         (\<forall>i < k. unat (ns ! i) = (unat (sequence_number s) + i) mod 2147483647 + 1) \<and>
         (k \<le> 2147483647 \<longrightarrow> distinct ns)"
  using sequence_numbers_closed_form [OF assms] sequence_numbers_distinct [OF assms] by simp

theorem sequence_numbers_cycle_witness:
  "fst (take_sequence_numbers 3 ((session_with [])\<lparr>sequence_number := 0x7FFFFFFE\<rparr>)) =
     [0x7FFFFFFF, 1, 2] \<and>
   distinct (fst (take_sequence_numbers 3 ((session_with [])\<lparr>sequence_number := 0x7FFFFFFE\<rparr>)))"
proof -
  let ?s = "(session_with [])\<lparr>sequence_number := 0x7FFFFFFE\<rparr>"
  obtain ns s' where t: "take_sequence_numbers 3 ?s = (ns, s')" by fastforce
  have "distinct ns" using sequence_numbers_cycle [OF _ t] by (simp add: sequence_inv_def)
  moreover have "fst (take_sequence_numbers 3 ?s) = [0x7FFFFFFF, 1, 2]"
    by (simp add: numeral_3_eq_3 next_sequence_number_def Let_def)
  ultimately show ?thesis using t by simp
qed

text \<open>C23: the header is a bijection between its four fields and 16 octets: writing the fields into the
  first 16 octets of a buffer and reading them back gives the fields and leaves the rest alone, and
  writing back what was read leaves the buffer as it was.\<close>

theorem header_round_trip:
  assumes "length hdr = 16"
  shows "deserialize_header (take 16 (serialize_header (hdr @ body) len cid n st)) = (len, cid, st, n) \<and>
         drop 16 (serialize_header (hdr @ body) len cid n st) = body \<and>
         (deserialize_header hdr = (len, cid, st, n) \<longrightarrow>
            serialize_header (hdr @ body) len cid n st = hdr @ body)"
proof -
  have w: "serialize_header (hdr @ body) len cid n st = header_octets len cid n st @ body"
    by (rule serialize_header_octets [OF assms])
  have "deserialize_header (header_octets len cid n st) = (len, cid, st, n)"
    using deserialize_header_octets [where body = "[]"] by simp
  then show ?thesis using header_octets_deserialize [OF assms] by (simp add: w)
qed

theorem header_round_trip_witness:
  "deserialize_header (take 16 (serialize_header (replicate 16 0 @ [7]) 17 command_id_submit_sm 1 command_status_rok)) =
     (17, command_id_submit_sm, command_status_rok, 1)"
  using header_round_trip [of "replicate 16 0" "[7]" 17 command_id_submit_sm 1 command_status_rok] by simp

text \<open>C24: the receive buffer is a first-in first-out queue. Starting from an empty buffer of any size,
  after any sequence of reads (each within the free space) and consumptions, the octets consumed
  followed by those in the buffer are exactly the octets that arrived, in order; the capacity and the
  pointer invariant are kept.\<close>

theorem receive_buffer_is_fifo:
  assumes "flat_queue.admissible es (flat_buffer_new N)"
    and "flat_queue.run es ([], flat_buffer_new N) = (out, b)"
  shows "out @ fb_data b = flat_queue.arrivals es \<and> fb_capacity b = N \<and> fb_inv b"
  using flat_queue.run_fifo [OF fb_new(1) assms] by (simp add: fb_new)

theorem receive_buffer_is_fifo_witness:
  "fst (flat_queue.run [Inl [1, 2, 3], Inr 2, Inl [4, 5], Inr 1] ([], flat_buffer_new 4)) @
     fb_data (snd (flat_queue.run [Inl [1, 2, 3], Inr 2, Inl [4, 5], Inr 1] ([], flat_buffer_new 4))) =
   [1, 2, 3, 4, 5]"
proof -
  let ?es = "[Inl [1, 2, 3], Inr 2, Inl [4, 5], Inr 1] :: (octets + nat) list"
  obtain out b where r: "flat_queue.run ?es ([], flat_buffer_new 4) = (out, b)" by fastforce
  have "flat_queue.admissible ?es (flat_buffer_new 4)"
    by (simp add: fb_arrive_def fb_defs numeral_eq_Suc)
  from receive_buffer_is_fifo [OF this r] show ?thesis
    using r by (simp add: flat_queue.arrivals_def)
qed

text \<open>C25: \<open>prepare\<close> throws exactly when the request exceeds the free space of the whole array, and then
  changes nothing; otherwise the region it returns lies within the array behind the readable octets,
  which it keeps even when it moves them to the front.\<close>

theorem prepare_bounds:
  assumes "fb_inv b" "fb_prepare n b = (r, b')"
  shows "(\<exists>e. r = Inl e) = (fb_capacity b - fb_size b < n) \<and>
         fb_data b' = fb_data b \<and> fb_capacity b' = fb_capacity b \<and> fb_inv b' \<and>
         (case r of Inl e \<Rightarrow> b' = b
          | Inr (off, len) \<Rightarrow> off = fb_out b' \<and> len = n \<and> off + len \<le> fb_capacity b')"
proof (cases r)
  case (Inl e)
  then show ?thesis using fb_prepare_throws [OF assms(1)] assms by auto
next
  case (Inr ol)
  obtain off len where ol: "ol = (off, len)" by fastforce
  note e = fb_prepare_effect [OF assms(1) assms(2) [unfolded Inr ol]]
  have "\<not> fb_capacity b - fb_size b < n"
    using assms(2) by (auto simp: fb_prepare_def Inr fb_capacity_def fb_size_def Let_def split: if_splits)
  moreover have "off + len \<le> fb_capacity b'" using e by (simp add: fb_inv_def fb_capacity_def)
  ultimately show ?thesis using e by (simp add: Inr ol)
qed

theorem prepare_bounds_witness:
  "fst (fb_prepare 3 \<lparr>fb_array = [9, 9, 7, 8], fb_in = 2, fb_out = 4, fb_last = 4\<rparr>) =
     Inl (Length_error ''static_flat_buffer::prepare buffer overflow'') \<and>
   fb_data (snd (fb_prepare 2 \<lparr>fb_array = [9, 9, 7, 8], fb_in = 2, fb_out = 4, fb_last = 4\<rparr>)) = [7, 8]"
proof -
  let ?b = "\<lparr>fb_array = [9, 9, 7, 8], fb_in = 2, fb_out = 4, fb_last = 4\<rparr> :: flat_buffer"
  obtain r b' where p: "fb_prepare 2 ?b = (r, b')" by fastforce
  have "fb_data b' = fb_data ?b" using prepare_bounds [OF _ p] by (simp add: fb_inv_def)
  then show ?thesis using p by (simp add: fb_prepare_def fb_capacity_def fb_size_def fb_data_def)
qed

text \<open>C26: every PDU type survives the wire. A PDU whose fields keep to their limits (strings short enough
  and without embedded null, flags within their masks, optional parameters in the class invariant)
  serializes by appending octets to any buffer, and the body parsed under its \<open>command_id\<close> is the same
  PDU: for each of the 21 alternatives of \<open>pdu_variant\<close>.\<close>

theorem pdu_round_trip:
  assumes "pdu_ok pdu"
  shows "\<exists>bs cid. pdu_command_id pdu = Some cid \<and>
           (\<forall>vec. pdu_serialize_to vec pdu = (Inr (), vec @ bs)) \<and>
           deserialize_alternative cid bs = Inr pdu"
  using assms by (rule pdu_variant_rt)

theorem pdu_round_trip_witness:
  "\<exists>bs cid. pdu_command_id sample_response = Some cid \<and> deserialize_alternative cid bs = Inr sample_response"
proof -
  have "pdu_ok sample_response"
    by (simp add: sample_response_def submit_sm_resp_ok_def c_str_ok_def)
  from pdu_round_trip [OF this] show ?thesis by blast
qed

text \<open>C27: serialization succeeds exactly for the PDUs whose strings are within their limits, and whether
  it succeeds or throws it only appends: what was in the buffer stays.\<close>

theorem pdu_serialization_limits:
  "(fst (pdu_serialize_to vec pdu) = Inr ()) = pdu_fits pdu \<and> prefix vec (snd (pdu_serialize_to vec pdu))"
  by (simp add: pdu_serialize_fits pdu_serialize_appends)



text \<open>C29: the optional parameters are a finite map from tags to strings of at most 65535 octets: the
  accessors do on the sorted list what the map operations do on the map, keep the class invariant, and
  \<open>set_as_string\<close> throws exactly for longer strings and then changes nothing.\<close>

theorem oparam_is_a_map:
  assumes "oparam_inv this"
  shows "oparam_contains tag this = (tag \<in> dom (oparam_map this)) \<and>
         oparam_get_as_string tag this =
           (case oparam_map this tag of None \<Rightarrow> Inl (Runtime_error ''oparam does not exist'') | Some v \<Rightarrow> Inr v) \<and>
         (let (r, this') = oparam_set_as_string tag val this
          in if length val \<le> 65535
             then r = Inr () \<and> oparam_map this' = (oparam_map this)(tag \<mapsto> val) \<and> oparam_inv this'
             else r = Inl (Length_error ''oparam value length is bigger than 65535'') \<and> this' = this) \<and>
         (let (found, this') = oparam_erase tag this
          in found = (tag \<in> dom (oparam_map this)) \<and> oparam_map this' = (oparam_map this)(tag := None) \<and>
             oparam_inv this')"
proof (intro conjI)
  show "oparam_contains tag this = (tag \<in> dom (oparam_map this))"
    by (auto simp: oparam_contains_def oparam_map_def)
  show "oparam_get_as_string tag this =
      (case oparam_map this tag of None \<Rightarrow> Inl (Runtime_error ''oparam does not exist'') | Some v \<Rightarrow> Inr v)"
    by (simp add: oparam_get_as_string_def oparam_map_def)
  obtain r this' where s: "oparam_set_as_string tag val this = (r, this')" by fastforce
  show "let (r, this') = oparam_set_as_string tag val this
        in if length val \<le> 65535
           then r = Inr () \<and> oparam_map this' = (oparam_map this)(tag \<mapsto> val) \<and> oparam_inv this'
           else r = Inl (Length_error ''oparam value length is bigger than 65535'') \<and> this' = this"
  proof (cases "length val \<le> 65535")
    case True
    then have "r = Inr ()" using s by (simp add: oparam_set_as_string_def)
    then show ?thesis using s True oparam_set_as_string_map [of tag val this this'] assms by simp
  qed (use s in \<open>auto simp: oparam_set_as_string_def\<close>)
  obtain found this'' where e: "oparam_erase tag this = (found, this'')" by fastforce
  then show "let (found, this') = oparam_erase tag this
        in found = (tag \<in> dom (oparam_map this)) \<and> oparam_map this' = (oparam_map this)(tag := None) \<and>
           oparam_inv this'"
    using oparam_erase_map [OF assms e] by simp
qed

theorem oparam_is_a_map_witness:
  "oparam_get_as_string oparam_tag_user_message_reference
     (snd (oparam_set_as_string oparam_tag_user_message_reference [1, 2] oparam_default)) = Inr [1, 2]"
proof -
  let ?t = oparam_tag_user_message_reference and ?p = "snd (oparam_set_as_string oparam_tag_user_message_reference [1, 2] oparam_default)"
  have d: "oparam_inv oparam_default" by (simp add: oparam_inv_def oparam_default_def map_sorted_def)
  have "oparam_map ?p = (oparam_map oparam_default)(?t \<mapsto> [1, 2])" "oparam_inv ?p"
    using oparam_is_a_map [OF d, of ?t "[1, 2]"] by (auto simp: case_prod_unfold Let_def)
  then show ?thesis using oparam_is_a_map [of ?p ?t] by simp
qed

text \<open>C30: optional parameters on the wire. Parsing any sequence of tag-length-value triples (with fewer
  than four octets behind them, which stay) gives the map in which the first triple of a tag counts;
  the parser's result always satisfies the class invariant; and parsing what \<open>serialize\<close> appended for
  a well-formed map gives that map back.\<close>

theorem oparam_wire_format:
  assumes "\<forall>(tag, val) \<in> set tlvs. length val \<le> 65535" "length rest < 4" "oparam_inv this"
  shows "(\<exists>parsed. oparam_construct (concat (map tlv tlvs) @ rest) = (Inr parsed, rest) \<and>
            oparam_map parsed = map_of tlvs \<and> oparam_inv parsed) \<and>
         oparam_construct (drop (length vec) (oparam_serialize this vec) @ rest) = (Inr this, rest) \<and>
         take (length vec) (oparam_serialize this vec) = vec"
proof (intro conjI)
  have v: "values_short tlvs" using assms(1) by (simp add: values_short_def)
  have "oparam_map \<lparr>oparams = std_map.emplace_all tlvs []\<rparr> = map_of tlvs"
    by (simp add: oparam_map_def std_map.find_emplace_all_empty)
  then show "\<exists>parsed. oparam_construct (concat (map tlv tlvs) @ rest) = (Inr parsed, rest) \<and>
      oparam_map parsed = map_of tlvs \<and> oparam_inv parsed"
    using oparam_construct_tlvs [OF v assms(2)] oparam_construct_inv by blast
  show "oparam_construct (drop (length vec) (oparam_serialize this vec) @ rest) = (Inr this, rest)"
    by (simp add: oparam_serialize_tlvs oparam_construct_serialized [OF assms(3,2)])
qed (simp add: oparam_serialize_tlvs)

theorem oparam_wire_format_witness:
  "\<exists>parsed. oparam_construct (concat (map tlv
       [(oparam_tag_user_message_reference, [7]), (oparam_tag_user_message_reference, [8])]) @ [0]) = (Inr parsed, [0]) \<and>
     oparam_map parsed oparam_tag_user_message_reference = Some [7]"
proof -
  have "oparam_inv oparam_default" by (simp add: oparam_inv_def oparam_default_def map_sorted_def)
  then obtain parsed where "oparam_construct (concat (map tlv
       [(oparam_tag_user_message_reference, [7]), (oparam_tag_user_message_reference, [8])]) @ [0]) = (Inr parsed, [0])"
    "oparam_map parsed = map_of [(oparam_tag_user_message_reference, [7]), (oparam_tag_user_message_reference, [8])]"
    using oparam_wire_format [of "[(oparam_tag_user_message_reference, [7]), (oparam_tag_user_message_reference, [8])]" "[0]" oparam_default]
    by auto
  then show ?thesis by auto
qed

text \<open>C31: the two string representations are canonical. A field parses to a string and a rest exactly when
  the string keeps to the limit of the representation and the buffer is its encoding followed by that
  rest; when parsing throws, the buffer is left alone.\<close>

theorem string_fields_canonical:
  "(c_octet_str_deserialize N buf nm = (Inr v, rest)) =
     (length v < N \<and> 0 \<notin> set v \<and> buf = v @ 0 # rest) \<and>
   (u8_octet_str_deserialize N buf nm = (Inr v, rest)) =
     (length v \<le> N \<and> length v < 256 \<and> buf = of_nat (length v) # v @ rest) \<and>
   (c_octet_str_deserialize N buf nm = (Inl e, rest) \<longrightarrow> rest = buf) \<and>
   (u8_octet_str_deserialize N buf nm = (Inl e, rest) \<longrightarrow> rest = buf)"
proof (intro conjI impI)
  show "(c_octet_str_deserialize N buf nm = (Inr v, rest)) =
      (length v < N \<and> 0 \<notin> set v \<and> buf = v @ 0 # rest)"
    using c_octet_str_field.decode_iff [of N buf nm v rest] by (simp add: c_octet_str_def c_str_ok_def)
  show "(u8_octet_str_deserialize N buf nm = (Inr v, rest)) =
      (length v \<le> N \<and> length v < 256 \<and> buf = of_nat (length v) # v @ rest)"
    using u8_octet_str_field.decode_iff [of N buf nm v rest] by (simp add: u8_octet_str_def octet_str_ok_def)
  show "rest = buf" if "c_octet_str_deserialize N buf nm = (Inl e, rest)"
    using c_octet_str_field.throw_keeps_buffer [of N buf nm e rest] that by (simp add: c_octet_str_def)
  show "rest = buf" if "u8_octet_str_deserialize N buf nm = (Inl e, rest)"
    using u8_octet_str_field.throw_keeps_buffer [of N buf nm e rest] that by (simp add: u8_octet_str_def)
qed

theorem string_fields_canonical_witness:
  "c_octet_str_deserialize 3 [65, 66, 0, 1] ''system_id'' = (Inr [65, 66], [1]) \<and>
   snd (c_octet_str_deserialize 2 [65, 66, 0, 1] ''system_id'') = [65, 66, 0, 1]"
proof
  show "c_octet_str_deserialize 3 [65, 66, 0, 1] ''system_id'' = (Inr [65, 66], [1])"
    using string_fields_canonical [of 3 "[65, 66, 0, 1]" "''system_id''" "[65, 66]" "[1]"] by simp
  obtain r rest where d: "c_octet_str_deserialize 2 [65, 66, 0, 1] ''system_id'' = (r, rest)" by fastforce
  show "snd (c_octet_str_deserialize 2 [65, 66, 0, 1] ''system_id'') = [65, 66, 0, 1]"
  proof (cases r)
    case (Inl e)
    then show ?thesis using d string_fields_canonical [of 2 "[65, 66, 0, 1]" "''system_id''" _ rest e] by simp
  next
    case (Inr v)
    then have "length v < 2" "0 \<notin> set v" "[65, 66, 0, 1] = v @ 0 # rest"
      using d string_fields_canonical [of 2 "[65, 66, 0, 1]" "''system_id''" v rest] by simp_all
    then show ?thesis by (cases v) auto
  qed
qed

text \<open>C32: a null octet inside a \<open>c_octet_str\<close> passes the serializer, which only checks the length, and
  breaks the PDU: the parser ends the field at it and takes what follows for the next field.\<close>

theorem embedded_null_desynchronises:
  assumes "length (front @ 0 # back) < N" "0 \<notin> set front"
  shows "\<exists>wire. c_octet_str_serialize_to N [] (front @ 0 # back) nm = (Inr (), wire) \<and>
           c_octet_str_deserialize N (wire @ rest) nm = (Inr front, back @ 0 # rest)"
proof -
  have "c_octet_str_serialize_to N [] (front @ 0 # back) nm = (Inr (), front @ 0 # back @ [0])"
    using assms(1) by (simp add: c_octet_str_serialize_to_def)
  moreover have "c_octet_str_deserialize N ((front @ 0 # back @ [0]) @ rest) nm = (Inr front, back @ 0 # rest)"
    using c_octet_str_field.decode_iff [of N "(front @ 0 # back @ [0]) @ rest" nm front "back @ 0 # rest"] assms
    by (simp add: c_octet_str_def c_str_ok_def)
  ultimately show ?thesis by blast
qed

theorem embedded_null_desynchronises_witness:
  "\<exists>wire. c_octet_str_serialize_to 16 [] [65, 0, 66] ''system_id'' = (Inr (), wire) \<and>
     c_octet_str_deserialize 16 (wire @ [7]) ''system_id'' = (Inr [65], [66, 0, 7])"
  using embedded_null_desynchronises [of "[65]" "[66]" 16 "''system_id''" "[7]"] by simp

text \<open>C33: \<open>esm_class\<close> and its octet determine each other; \<open>registered_delivery\<close> is recovered from its
  octet, but an octet with one of the three top bits set is not recovered from what was parsed: they
  are dropped.\<close>

theorem flag_octets:
  "esm_class_operator_u8 (esm_class_from_u8 b) = b \<and>
   (esm_class_ok e \<longrightarrow> esm_class_from_u8 (esm_class_operator_u8 e) = e) \<and>
   (registered_delivery_ok r \<longrightarrow> registered_delivery_from_u8 (registered_delivery_operator_u8 r) = r) \<and>
   registered_delivery_operator_u8 (registered_delivery_from_u8 b) = b AND 0x1F"
  by (simp add: esm_class_operator_from registered_delivery_operator_from
      esm_class_from_operator registered_delivery_from_operator)

theorem flag_octets_witness:
  "registered_delivery_operator_u8 (registered_delivery_from_u8 0xF5) = 0x15 \<and>
   esm_class_operator_u8 (esm_class_from_u8 0xF5) = 0xF5"
  using flag_octets [where b = "0xF5"] by simp

text \<open>C34: the unbind handshake. The frame that \<open>async_send_unbind\<close> puts on an idle session's wire makes a
  peer with an empty buffer answer \<open>unbind_resp\<close> with the same sequence number, shut its socket down and
  complete with \<open>unbinded\<close>; the frame of that answer makes the first session shut down and complete with
  \<open>unbinded\<close> too; both whatever the pieces in which the octets arrive.\<close>

theorem unbind_handshake:
  assumes "send_buf (sess sys) = []" "next_sequence_number (sess sys) = (n, s1)"
    and "empty_session cap remote" "empty_session cap s" "16 \<le> cap"
    and "concat chunks = last (wire (async_send_unbind sys))" "[] \<notin> set chunks"
    and "concat chunks' = request_frame (Send_command command_id_unbind_resp n) n" "[] \<notin> set chunks'"
  shows "\<exists>fuel st fuel' st'.
           drive fuel chunks (async_receive remote) =
             Some ([Send_cmd command_id_unbind_resp n, completed (make_error_code error_unbinded)], st) \<and>
           \<not> socket_open (snd (snd st)) \<and>
           drive fuel' chunks' (async_receive s) = Some ([completed (make_error_code error_unbinded)], st') \<and>
           \<not> socket_open (snd (snd st'))"
proof -
  have "send_buf s1 = []" using next_sequence_number_frame [OF assms(2)] assms(1) by simp
  then have wire: "last (wire (async_send_unbind sys)) = request_frame (Send_command command_id_unbind n) n"
    by (simp add: async_send_unbind_def assms(2) initiate_def try_send_def build_frame_defs)
  note u = drive_command [OF assms(3,5), of _ command_id_unbind n n]
    and r = drive_command [OF assms(4,5), of _ command_id_unbind_resp n n]
  have c: "concat chunks = request_frame (Send_command command_id_unbind n) n" using assms(6) wire by simp
  obtain fuel st where "drive fuel chunks (async_receive remote) =
      Some ([Send_cmd command_id_unbind_resp n, completed (make_error_code error_unbinded)], st)"
    "stream_end cap [request_frame (Send_command command_id_unbind n) n] remote st"
    using u [OF c assms(7)] unfolding command_frame_actions by blast
  moreover obtain fuel' st' where "drive fuel' chunks' (async_receive s) =
      Some ([completed (make_error_code error_unbinded)], st')"
    "stream_end cap [request_frame (Send_command command_id_unbind_resp n) n] s st'"
    using r [OF assms(8,9)] unfolding command_frame_actions by blast
  moreover have "\<not> socket_open (snd (snd st))" if "stream_end cap [w] s st" "ends_session w" for w s st
    using that by (auto simp: stream_end_def)
  ultimately show ?thesis using command_frame_actions(3,4) by blast
qed

theorem unbind_handshake_witness:
  "\<exists>fuel st. drive fuel [[0,0,0,16], [0,0,0,6,0,0,0,0,0,0,0,1]] (async_receive (session_new 60)) =
       Some ([Send_cmd command_id_unbind_resp 1, completed (make_error_code error_unbinded)], st) \<and>
     \<not> socket_open (snd (snd st))"
proof -
  have f: "request_frame (Send_command command_id_unbind 1) 1 = [0,0,0,16, 0,0,0,6, 0,0,0,0, 0,0,0,1]"
    by code_simp
  let ?sys = "send_init (session_new 60)"
  have n: "next_sequence_number (sess ?sys) = (1, (session_new 60)\<lparr>sequence_number := 1\<rparr>)"
    by (simp add: send_init_def next_sequence_number_def session_new_def)
  have b: "send_buf (sess ?sys) = []" by (simp add: send_init_def session_new_def)
  have w: "last (wire (async_send_unbind ?sys)) = request_frame (Send_command command_id_unbind 1) 1"
    using b by (simp add: async_send_unbind_def n initiate_def try_send_def build_frame_defs)
      (simp add: session_new_def)
  have c: "concat [[0,0,0,16], [0,0,0,6,0,0,0,0,0,0,0,1]] = last (wire (async_send_unbind ?sys))"
    by (simp only: w f) simp
  have c': "concat [request_frame (Send_command command_id_unbind_resp 1) 1] =
      request_frame (Send_command command_id_unbind_resp 1) 1" by simp
  have ne: "[] \<notin> set [request_frame (Send_command command_id_unbind_resp 1) 1]"
    by (simp only: command_frame_octets) (simp add: header_octets_nonempty [symmetric])
  have "[] \<notin> set [[0, 0, 0, 16], [0, 0, 0, 6, 0, 0, 0, 0, 0, 0, 0, 1 :: octet]]" by simp
  from unbind_handshake [OF b n session_new_empty [of 60] session_new_empty [of 60] _ c this c' ne]
  show ?thesis by fastforce
qed

text \<open>C35: \<open>pack_short_message\<close> and \<open>unpack_short_message\<close>. Packing succeeds exactly when the header's octets,
  their length and the body fit the limit of the alphabet (160 for 8-bit ASCII, 140 otherwise), and
  unpacking the result with an \<open>esm_class\<close> that announces a header if and only if there is one gives
  the header and the body back.\<close>

theorem pack_unpack_short_message:
  assumes "udh_ok udh" "has_udh e = (headers udh \<noteq> [])"
  shows "(\<exists>m. pack_short_message udh body dc = Inr m) =
           (length (user_data_header_serialize udh) + (if headers udh = [] then 0 else 1) + length body
              \<le> (if extract_unicode dc = Ascii_8_bit then 160 else 140)) \<and>
         (\<forall>m. pack_short_message udh body dc = Inr m \<longrightarrow> unpack_short_message e dc m = Inr (udh, body))"
proof (intro conjI allI impI)
  have "length (packed udh body) =
      length (user_data_header_serialize udh) + (if headers udh = [] then 0 else 1) + length body"
    by (simp add: packed_def Let_def serialize_empty_iff)
  then show "(\<exists>m. pack_short_message udh body dc = Inr m) =
      (length (user_data_header_serialize udh) + (if headers udh = [] then 0 else 1) + length body
         \<le> (if extract_unicode dc = Ascii_8_bit then 160 else 140))"
    unfolding pack_short_message_iff by (simp only: max_length_def [symmetric]) auto
next
  fix m
  assume "pack_short_message udh body dc = Inr m"
  then show "unpack_short_message e dc m = Inr (udh, body)"
    unfolding pack_short_message_iff using unpack_packed [OF assms] by blast
qed

theorem pack_unpack_short_message_witness:
  "\<exists>m. pack_short_message (user_data_header_of_mpd \<lparr>concat_sm_ref_num = 7, number_of_parts = 2, part_sequence_number = 1\<rparr>)
       [72, 105] data_coding_defaults = Inr m \<and>
     unpack_short_message (esm_class_from_u8 0x40) data_coding_defaults m =
       Inr (user_data_header_of_mpd \<lparr>concat_sm_ref_num = 7, number_of_parts = 2, part_sequence_number = 1\<rparr>, [72, 105])"
proof -
  let ?mpd = "\<lparr>concat_sm_ref_num = 7, number_of_parts = 2, part_sequence_number = 1\<rparr>"
  let ?udh = "user_data_header_of_mpd ?mpd"
  have ok: "udh_ok ?udh"
    unfolding user_data_header_of_mpd_def
    by (rule set_multi_part_data_ok) (simp add: udh_ok_def user_data_header_default_def)
  have h: "headers ?udh \<noteq> []"
    by (simp add: user_data_header_of_mpd_def set_multi_part_data_def)
  then have "has_udh (esm_class_from_u8 0x40) = (headers ?udh \<noteq> [])"
    by (simp add: has_udh_def esm_class_from_u8_def enum_values)
  note p = pack_unpack_short_message [OF ok this, of "[72, 105]" data_coding_defaults]
  have "length (user_data_header_serialize ?udh) = 5" by code_simp
  then have "\<exists>m. pack_short_message ?udh [72, 105] data_coding_defaults = Inr m"
    using conjunct1 [OF p] h by simp
  then show ?thesis using conjunct2 [OF p] by blast
qed

text \<open>C36: the parser of the user data header is canonical: what it accepts are exactly the octets of a
  well-formed header (concatenation elements of the right length) with at most one stray octet behind.\<close>

theorem user_data_header_canonical:
  "(user_data_header_construct buf = Inr udh) =
     (udh_ok udh \<and> (\<exists>rest. buf = user_data_header_serialize udh @ rest \<and> length rest < 2))"
proof
  assume "udh_ok udh \<and> (\<exists>rest. buf = user_data_header_serialize udh @ rest \<and> length rest < 2)"
  then obtain rest where "udh_ok udh" "buf = user_data_header_serialize udh @ rest" "length rest < 2" by blast
  then show "user_data_header_construct buf = Inr udh" by (simp only: udh_construct_serialized)
qed (rule udh_construct_canonical)

text \<open>C37: the reference number of a concatenated message read back from the header it was written to is
  the original exactly when \<open>char\<close> is unsigned on the platform, or its low octet is below 0x80, or it is a
  16-bit number whose upper octet is 0xFF: otherwise sign extension fills the upper octet.\<close>

theorem multi_part_reference_number:
  "(get_multi_part_data signed_char (user_data_header_of_mpd mpd) = mpd) =
     (\<not> signed_char \<or> byte_of 0 (concat_sm_ref_num mpd) < 0x80 \<or>
      (concat_sm_ref_num mpd > 0xFF \<and> byte_of 1 (concat_sm_ref_num mpd) = 0xFF))"
  using get_set_multi_part_data [of signed_char mpd] by (simp only: ref_num_survives_def)

theorem multi_part_reference_number_witness:
  "get_multi_part_data True (user_data_header_of_mpd
     \<lparr>concat_sm_ref_num = 0x80, number_of_parts = 2, part_sequence_number = 1\<rparr>) \<noteq>
       \<lparr>concat_sm_ref_num = 0x80, number_of_parts = 2, part_sequence_number = 1\<rparr> \<and>
   get_multi_part_data True (user_data_header_of_mpd
     \<lparr>concat_sm_ref_num = 0x7F, number_of_parts = 2, part_sequence_number = 1\<rparr>) =
       \<lparr>concat_sm_ref_num = 0x7F, number_of_parts = 2, part_sequence_number = 1\<rparr>"
proof -
  have "byte_of 0 (0x80 :: u16) = 0x80" "byte_of 0 (0x7F :: u16) = 0x7F" by code_simp+
  then show ?thesis unfolding multi_part_reference_number by simp
qed

text \<open>C38: the GSM 03.38 conversion works piecewise (a text may be cut anywhere but behind an escape), maps
  digits and Latin letters to themselves as UCS-2, always produces whole 16-bit units, and at most one
  for each septet of the text; octets above 127 are skipped.\<close>

theorem gsm_conversion:
  "(\<not> fst (gsm_loop False [] a) \<longrightarrow>
      convert_gsm_to_ucs2 (a @ b) = convert_gsm_to_ucs2 a @ convert_gsm_to_ucs2 b) \<and>
   (list_all gsm_plain a \<longrightarrow> convert_gsm_to_ucs2 a = concat (map (\<lambda>c. [0, c]) a)) \<and>
   even (length (convert_gsm_to_ucs2 a)) \<and>
   length (convert_gsm_to_ucs2 a) \<le> 2 * length (filter (\<lambda>c. c \<le> 127) a)"
  using convert_gsm_append [of a b] gsm_loop_plain [of a "[]"] gsm_loop_even [of False "[]" a]
    gsm_loop_length [of False "[]" a]
  by (simp add: convert_gsm_to_ucs2_def)

theorem gsm_conversion_witness:
  "convert_gsm_to_ucs2 ([0x48, 0x69] @ [0x1B, 0x65]) = [0x00, 0x48, 0x00, 0x69, 0x20, 0xAC]"
proof -
  have "convert_gsm_to_ucs2 [0x1B, 0x65] = [0x20, 0xAC]" by code_simp
  moreover have "\<not> fst (gsm_loop False [] [0x48, 0x69])" by code_simp
  moreover have "list_all gsm_plain [0x48, 0x69]" by (simp add: gsm_plain_def)
  ultimately show ?thesis
    using gsm_conversion [of "[0x48, 0x69]" "[0x1B, 0x65]"] by (simp only:) simp
qed


text \<open>C39: what the receiver accepts can be sent on. Whatever PDU a body parses to, under any \<open>command_id\<close>
  and however much of the body is left over, it is well-formed and within the limits of the
  serializer, and the octets it serializes to parse to the same PDU again: for all 21 types.\<close>

theorem parsed_pdu_is_well_formed:
  assumes "deserialize_alternative cid body = Inr pdu"
  shows "pdu_ok pdu \<and> pdu_fits pdu \<and>
         (\<exists>bs. (\<forall>vec. pdu_serialize_to vec pdu = (Inr (), vec @ bs)) \<and>
               deserialize_alternative cid bs = Inr pdu)"
proof -
  have ok: "pdu_ok pdu" by (rule deserialize_alternative_ok [OF assms])
  obtain bs where bs: "\<forall>vec. pdu_serialize_to vec pdu = (Inr (), vec @ bs)"
    "deserialize_alternative cid bs = Inr pdu"
    using pdu_variant_rt [OF ok] deserialize_alternative_command [OF assms] by auto
  then have "pdu_fits pdu" using pdu_serialize_fits [of "[]" pdu] by simp
  then show ?thesis using ok bs by blast
qed

theorem parsed_pdu_is_well_formed_witness:
  "pdu_ok (Pdu_submit_sm_resp \<lparr>submit_sm_resp.message_id = [65]\<rparr>) \<and>
   deserialize_alternative command_id_submit_sm_resp [65, 0, 9] =
     Inr (Pdu_submit_sm_resp \<lparr>submit_sm_resp.message_id = [65]\<rparr>)"
proof -
  have "deserialize_alternative command_id_submit_sm_resp [65, 0, 9] =
      Inr (Pdu_submit_sm_resp \<lparr>submit_sm_resp.message_id = [65]\<rparr>)"
    by code_simp
  with parsed_pdu_is_well_formed [OF this] show ?thesis by blast
qed



subsection \<open>Further results\<close>

text \<open>Everything handed to the socket is a whole frame: at least a header, and the header's length
  field is the number of octets.\<close>

theorem wire_frames_whole:
  assumes "reachable sys" "w \<in> set (wire sys)"
  shows "16 \<le> length w \<and> fst (deserialize_header (take 16 w)) = of_nat (length w)"
  using send_invD(5) [OF reachable_send_inv [OF assms(1)]] assms(2)
  by (auto simp: list_all_iff frame_ok_def header_length_def)

theorem wire_frames_whole_witness:
  "16 \<le> length sample_frame \<and> fst (deserialize_header (take 16 sample_frame)) = of_nat (length sample_frame)"
  by (rule wire_frames_whole [OF sample_reachable]) (simp add: sample_system_fields)

text \<open>Activity postpones the end. Octets that arrive while an \<open>enquire_link\<close> is outstanding, even if
  they do not complete a frame, clear it: the next silent interval sends \<open>enquire_link\<close> again and does
  not give up.\<close>

theorem arriving_octets_reset_the_enquiry:
  assumes "reading cap s" "\<not> needs_more op" "bytes \<noteq> []" "length bytes \<le> cap - length (received s)"
    and "\<not> complete_frame (received s @ bytes)"
  shows "\<exists>off1 off2 n st. play [Read_done bytes No_error False, Read_done [] Operation_aborted False, Sent No_error]
             (Recv_reading, op, s) =
           Some ([Read_some off1 (cap - length (received s @ bytes)),
                  Send_cmd command_id_enquire_link n,
                  Read_some off2 (cap - length (received s @ bytes))], st) \<and>
           received (snd (snd st)) = received s @ bytes"
proof -
  obtain off op' s' where p1: "play [Read_done bytes No_error False] (Recv_reading, op, s) =
      Some ([Read_some off (cap - length (received s @ bytes))], Recv_reading, op', s')"
    and s': "idle_reading cap op' s'" "\<not> pending_enquire_link op'" "received s' = received s @ bytes"
    using data_resets_enquiry [OF assms(1,4,3,5,2)] by blast
  obtain n s1 off2 op2 s2 where
    p2: "play [Read_done [] Operation_aborted False, Sent No_error] (Recv_reading, op', s') =
      Some ([Send_cmd command_id_enquire_link n, Read_some off2 (cap - length (received s'))],
            Recv_reading, op2, s2)"
    and s2: "received s2 = received s'"
    using silent_interval_enquires [OF s'(1,2)] by blast
  then show ?thesis using play_append [OF p1 p2] s'(3) by (auto simp del: play.simps)
qed

theorem arriving_octets_reset_the_enquiry_witness:
  "\<exists>off1 off2 n st. play [Read_done [0, 0] No_error False, Read_done [] Operation_aborted False, Sent No_error]
       (Recv_reading, receive_op_new\<lparr>pending_enquire_link := True\<rparr>, snd (snd (snd (start_read receive_op_new (session_new 60))))) =
     Some ([Read_some off1 131070, Send_cmd command_id_enquire_link n, Read_some off2 131070], st)"
proof -
  let ?s = "snd (snd (snd (start_read receive_op_new (session_new 60))))"
  have "receive_inv 131072 (session_new 60)" "received (session_new 60) = []"
    using session_new_empty [of 60] by (simp_all add: empty_session_def)
  then have "reading 131072 ?s" "received ?s = []"
    using start_read_effect [of 131072 "session_new 60" receive_op_new] by (auto simp: reading_def)
  then show ?thesis
    using arriving_octets_reset_the_enquiry [of 131072 ?s "receive_op_new\<lparr>pending_enquire_link := True\<rparr>" "[0, 0]"]
    by (auto simp: receive_op_new_def complete_frame_def header_length_def simp del: play.simps)
qed

text \<open>\<open>set_multi_part_data\<close> does not replace: on a header that holds an 8-bit part, a second call
  leaves \<open>get_multi_part_data\<close> with the first part.\<close>

theorem second_multi_part_data_is_ignored:
  assumes "concat_sm_ref_num mpd \<le> 0xFF"
  shows "get_multi_part_data signed_char (set_multi_part_data mpd' (user_data_header_of_mpd mpd)) =
         get_multi_part_data signed_char (user_data_header_of_mpd mpd)"
  using assms by (rule get_multi_part_data_first)

theorem second_multi_part_data_is_ignored_witness:
  "part_sequence_number (get_multi_part_data True
     (set_multi_part_data \<lparr>concat_sm_ref_num = 7, number_of_parts = 2, part_sequence_number = 2\<rparr>
       (user_data_header_of_mpd \<lparr>concat_sm_ref_num = 7, number_of_parts = 2, part_sequence_number = 1\<rparr>))) = 1"
  by (subst second_multi_part_data_is_ignored)
    (simp_all add: get_multi_part_data_def user_data_header_of_mpd_def set_multi_part_data_def
      user_data_header_default_def)

text \<open>The alphabet of a \<open>data_coding\<close> octet is a function of its two halves: the general group
  announces 8-bit ASCII, binary or UCS-2 and nothing else, groups 1 to 7 go by the two alphabet bits, 8
  to 13 are the default alphabet, 14 is UCS-2, 15 goes by bit 2.\<close>

theorem data_coding_alphabet:
  "extract_unicode (Data_coding b) = unicode_of_nibbles (unat b div 16) (unat b mod 16)"
  by (rule extract_unicode_nibbles)

text \<open>The ASCII conversion puts a zero octet in front of every character, so that its output is twice
  as long and the characters are its octets at odd positions.\<close>

theorem ascii_conversion:
  "length (convert_ascii_to_ucs2 body) = 2 * length body \<and>
   (\<forall>i < length body. convert_ascii_to_ucs2 body ! (2 * i) = 0 \<and>
                       convert_ascii_to_ucs2 body ! (2 * i + 1) = body ! i)"
  by (simp add: convert_ascii_length convert_ascii_nth)

theorem ascii_conversion_witness:
  "convert_ascii_to_ucs2 [0x41, 0x42] ! 3 = 0x42"
  using ascii_conversion [of "[0x41, 0x42]"] by (simp add: All_less_Suc numeral_2_eq_2 numeral_3_eq_3)

text \<open>A read that fails, or that the client cancels, ends the operation with its error; nothing in
  the buffer is lost, not even octets that arrived with the error, and no sequence number is used.\<close>

theorem failed_read_keeps_the_buffer:
  assumes "reading cap s" "length bytes \<le> cap - length (received s)"
    and "failed ec" "ec = Operation_aborted \<longrightarrow> by_client"
  shows "\<exists>op' s'. resume_read bytes ec by_client op s = Some (completed ec, Recv_done, op', s') \<and>
           receive_inv cap s' \<and> received s' = received s @ bytes \<and>
           sequence_number s' = sequence_number s \<and> socket_open s' = socket_open s"
  using assms by (rule failed_read_completes)

theorem failed_read_keeps_the_buffer_witness:
  "\<exists>op' s'. resume_read [] Operation_aborted True receive_op_new (session_with [1, 2, 3]) =
       Some (completed Operation_aborted, Recv_done, op', s') \<and> received s' = [1, 2, 3]"
  using failed_read_keeps_the_buffer [OF session_with(3) [of "[1, 2, 3]"], of "[]" Operation_aborted True receive_op_new]
  by (auto simp: session_with)

text \<open>Progress. As long as every PDU fits its limits, nothing is cancelled and no write is cut off,
  an operation that waits for the buffer always has a pending write or resumption of another
  operation ahead of it, and that step is enabled.\<close>

theorem waiting_send_makes_progress:
  assumes "clean_reachable sys" "waiting sys i"
  shows "\<exists>j l sys'. (l = L_resume j \<or> l = L_written j No_error) \<and> send_step sys l sys' \<and> j \<noteq> i"
  using assms by (rule clean_waiting_progress)

theorem waiting_send_makes_progress_witness:
  "\<exists>j l sys'. (l = L_resume j \<or> l = L_written j No_error) \<and>
     send_step (initiate (Send_command command_id_enquire_link 1) sample_system) l sys' \<and> j \<noteq> 1"
proof (rule waiting_send_makes_progress)
  have "clean_reachable sample_system"
    unfolding sample_system_def
    by (rule clean_step [OF clean_init step_initiate])
      (simp_all add: session_new_def sequence_inv_def sample_request_ok,
        simp add: sample_request_def sample_response_def submit_sm_resp_fits_def)
  then show "clean_reachable (initiate (Send_command command_id_enquire_link 1) sample_system)"
    by (rule clean_step [OF _ step_initiate]) simp_all
  show "waiting (initiate (Send_command command_id_enquire_link 1) sample_system) 1"
    using sample_system_fields
    by (simp add: initiate_def try_send_def set_op_def waiting_def sample_frame_def)
qed

text \<open>A wake-up is also lost when the woken operation was cancelled before it ran.\<close>

theorem cancelled_send_loses_wakeup:
  "\<exists>sys. reachable sys \<and>
     run_labels cancelled_wakeup_run (send_init (session_new interval)) = Some sys \<and>
     send_buf (sess sys) = [] \<and> asleep sys"
proof -
  have s: "send_buf (session_new interval) = []" "send_cv (session_new interval) = []"
    "sequence_inv (session_new interval)"
    by (simp_all add: session_new_def sequence_inv_def)
  then show ?thesis using cancelled_wakeup run_labels_reachable [OF s] by blast
qed

text \<open>Frames and operations correspond one to one. The wire is a list of frames, each built from the
  request of a different operation with one sequence number, the one the caller gave for a response
  or a session command; an operation that completed without error has its frame there, and a
  request reports the number that is in it.\<close>

theorem one_frame_per_operation:
  assumes "reachable sys"
  shows "\<exists>log. wire sys = map (\<lambda>(i, n). request_frame (request (ops sys ! i)) n) log \<and>
           distinct (map fst log) \<and>
           (\<forall>(i, n) \<in> set log. i < length (ops sys) \<and> own_number (request (ops sys ! i)) n) \<and>
           (\<forall>i < length (ops sys). \<forall>m. pc (ops sys ! i) = Completed No_error m \<longrightarrow>
              (\<exists>n. (i, n) \<in> set log \<and> (request_number (request (ops sys ! i)) = None \<longrightarrow> m = n)))"
proof -
  obtain log where log: "send_log sys log" using reachable_send_log [OF assms] by blast
  have "\<exists>n. (i, n) \<in> set log \<and> (request_number (request (ops sys ! i)) = None \<longrightarrow> m = n)"
    if "i < length (ops sys)" "pc (ops sys ! i) = Completed No_error m" for i m
  proof -
    have "op_logged log i (ops sys ! i)" using log that(1) by (simp add: send_log_def)
    then show ?thesis using that(2) by (simp add: op_logged_def)
  qed
  then show ?thesis using log unfolding send_log_def by blast
qed

theorem one_frame_per_operation_witness:
  "\<exists>log. [sample_frame] = map (\<lambda>(i, n). request_frame (request (ops sample_system ! i)) n) log"
  using one_frame_per_operation [OF sample_reachable, unfolded sample_system_fields(1)]
  by (elim exE conjE) (rule exI)

text \<open>A lost wake-up. When the operation that is woken next turns out not to serialize, it completes
  with \<open>serialization_failed\<close> and wakes nobody: a run of three sends on a new session ends with the
  buffer free, an operation still waiting on \<open>send_cv_\<close>, and no completion pending that could resume
  it; only a further call of the client can.\<close>

theorem failed_send_loses_wakeup:
  assumes "admissible_request bad" "\<not> request_fits bad"
  shows "\<exists>sys. reachable sys \<and>
           run_labels (lost_wakeup_run bad) (send_init (session_new interval)) = Some sys \<and>
           send_buf (sess sys) = [] \<and> (\<exists>op \<in> set (ops sys). pc op = Waiting) \<and>
           (\<forall>l sys'. send_step sys l sys' \<longrightarrow>
              (\<exists>r. l = L_initiate r) \<or> l = L_unbind \<or> (\<exists>i. l = L_cancel i))"
proof -
  have s: "send_buf (session_new interval) = []" "send_cv (session_new interval) = []"
    "sequence_inv (session_new interval)"
    by (simp_all add: session_new_def sequence_inv_def)
  obtain sys where run: "run_labels (lost_wakeup_run bad) (send_init (session_new interval)) = Some sys"
    and "send_buf (sess sys) = []" and asleep: "asleep sys"
    using lost_wakeup [OF s(1,2) assms] by blast
  moreover have "\<exists>op \<in> set (ops sys). pc op = Waiting" using asleep by (simp add: asleep_def)
  ultimately show ?thesis
    using run_labels_reachable [OF s run] asleep_no_step [OF asleep] by blast
qed

theorem failed_send_loses_wakeup_witness:
  "\<exists>sys. reachable sys \<and>
     run_labels (lost_wakeup_run oversized_password) (send_init (session_new 60)) = Some sys \<and>
     send_buf (sess sys) = [] \<and> (\<exists>op \<in> set (ops sys). pc op = Waiting)"
  using failed_send_loses_wakeup [OF oversized_password, of 60] by blast

end
